(* ===== verification/SputPrelude.thy ===== *)
theory SputPrelude
  imports Main "HOL-Library.Word" "HOL-Library.Monad_Syntax"
begin

text \<open>
  The prelude of the SputterOS development: the machine types the sources use, bounds-checked
  reads and writes of fixed-size C++ arrays, little-endian byte images of words, and the generic
  lemmas on buffers, prefixes and ring indices that the component theories share.

  Conventions. An \<open>N\<close>-bit unsigned integer is an \<open>N word\<close>, so \<open>+\<close> and \<open>-\<close> wrap as in C++.
  \<^verbatim>\<open>std::size_t\<close> values that only ever index or measure an array are \<open>nat\<close>. A fixed-size array is a
  list of that length. A pointer and a length are the list of the bytes pointed to. A nullable
  pointer is an \<open>option\<close>. Where the code stores through an index, the model uses \<open>wr\<close>, which is
  \<open>None\<close> when the index is outside the array (undefined behaviour in C++): a theorem that a model
  returns \<open>Some\<close> is then also a proof that the code never stores out of bounds.
\<close>

type_synonym byte = "8 word"
type_synonym u16 = "16 word"
type_synonym u32 = "32 word"
type_synonym u64 = "64 word"

type_synonym micros = "64 word"
  \<comment> \<open>\<^verbatim>\<open>SputterMicros\<close>\<close>

type_synonym millis = "32 word"
  \<comment> \<open>\<^verbatim>\<open>SputterMillis\<close>\<close>

type_synonym f32 = "32 word"
  \<comment> \<open>the object representation of a C++ \<^verbatim>\<open>float\<close>\<close>

named_theorems buf_simps \<open>rewriting of bounds-checked array access\<close>
named_theorems inv_intros \<open>preservation of component invariants\<close>

definition wr :: "'a list \<Rightarrow> nat \<Rightarrow> 'a \<Rightarrow> 'a list option" where
  "wr buf i v = (if i < length buf then Some (buf[i := v]) else None)"

definition rd :: "'a list \<Rightarrow> nat \<Rightarrow> 'a option" where
  "rd buf i = (if i < length buf then Some (buf ! i) else None)"

text \<open>\<^verbatim>\<open>sput_memcpy(&dst[at], src, n)\<close> with \<open>xs\<close> the \<open>n\<close> source bytes.\<close>

fun wr_many :: "'a list \<Rightarrow> nat \<Rightarrow> 'a list \<Rightarrow> 'a list option" where
  "wr_many buf at [] = Some buf"
| "wr_many buf at (x # xs) = do { buf \<leftarrow> wr buf at x; wr_many buf (Suc at) xs }"

text \<open>Little-endian object representations, as \<^verbatim>\<open>sput_memcpy\<close> of the object produces them on the
  little-endian targets the wire format assumes.\<close>

definition le16 :: "u16 \<Rightarrow> byte list" where
  "le16 w = [ucast w, ucast (drop_bit 8 w)]"

definition le32 :: "u32 \<Rightarrow> byte list" where
  "le32 w = [ucast w, ucast (drop_bit 8 w), ucast (drop_bit 16 w), ucast (drop_bit 24 w)]"

definition le64 :: "u64 \<Rightarrow> byte list" where
  "le64 w = [ucast w, ucast (drop_bit 8 w), ucast (drop_bit 16 w), ucast (drop_bit 24 w),
     ucast (drop_bit 32 w), ucast (drop_bit 40 w), ucast (drop_bit 48 w), ucast (drop_bit 56 w)]"

unbundle bit_operations_syntax

definition of_le16 :: "byte \<Rightarrow> byte \<Rightarrow> u16" where
  "of_le16 b0 b1 = ucast b0 OR push_bit 8 (ucast b1)"

definition of_le32 :: "byte \<Rightarrow> byte \<Rightarrow> byte \<Rightarrow> byte \<Rightarrow> u32" where
  "of_le32 b0 b1 b2 b3 =
     ((ucast b0 OR push_bit 8 (ucast b1)) OR push_bit 16 (ucast b2)) OR push_bit 24 (ucast b3)"

section \<open>Bounds-checked access\<close>

lemma wr_Some [buf_simps]: "i < length buf \<Longrightarrow> wr buf i v = Some (buf[i := v])"
  by (simp add: wr_def)

lemma wr_eq_SomeD: "wr buf i v = Some buf' \<Longrightarrow> i < length buf \<and> buf' = buf[i := v]"
  by (simp add: wr_def split: if_splits)

lemma rd_Some [buf_simps]: "i < length buf \<Longrightarrow> rd buf i = Some (buf ! i)"
  by (simp add: rd_def)

lemma wr_many_Some:
  "at + length xs \<le> length buf \<Longrightarrow>
   wr_many buf at xs = Some (take at buf @ xs @ drop (at + length xs) buf)"
proof (induction xs arbitrary: buf at)
  case Nil
  then show ?case by simp
next
  case (Cons x xs)
  then have "wr_many buf at (x # xs) = wr_many (buf[at := x]) (Suc at) xs"
    by (simp add: wr_def)
  also have "\<dots> = Some (take (Suc at) (buf[at := x]) @ xs @ drop (Suc at + length xs) (buf[at := x]))"
    using Cons.prems by (intro Cons.IH) simp
  also have "take (Suc at) (buf[at := x]) = take at buf @ [x]"
    using Cons.prems by (simp add: take_Suc_conv_app_nth)
  finally show ?case
    using Cons.prems by simp
qed

lemma wr_many_length: "wr_many buf at xs = Some buf' \<Longrightarrow> length buf' = length buf"
  by (induction xs arbitrary: buf at) (auto simp: wr_def split: bind_splits if_splits)

section \<open>Written prefixes\<close>

text \<open>Most encoders keep a write index whose prefix of the buffer is the output so far.\<close>

lemma take_Suc_update: "i < length buf \<Longrightarrow> take (Suc i) (buf[i := v]) = take i buf @ [v]"
  by (simp add: take_Suc_conv_app_nth)

lemma take_update_before: "i \<le> j \<Longrightarrow> take i (buf[j := v]) = take i buf"
  by simp

lemma list_update_middle: "(xs @ y # zs)[length xs := v] = xs @ v # zs"
  by simp

lemma take_update_split:
  assumes "take w buf = xs @ y # ys" and "c = length xs" and "w \<le> length buf"
  shows "take w (buf[c := v]) = xs @ v # ys"
proof -
  have "take w (buf[c := v]) = (take w buf)[c := v]"
    by (simp add: take_update_swap)
  with assms show ?thesis by simp
qed

lemma length_2_conv: "length xs = 2 \<longleftrightarrow> (\<exists>a b. xs = [a, b])"
  by (auto simp: numeral_2_eq_2 length_Suc_conv)

section \<open>Words and bytes\<close>

lemma length_le [simp]: "length (le16 w) = 2" "length (le32 v) = 4" "length (le64 u) = 8"
  by (simp_all add: le16_def le32_def le64_def)

lemma of_le16_le16: "of_le16 (le16 w ! 0) (le16 w ! 1) = w"
  by (rule bit_word_eqI)
     (auto simp: of_le16_def le16_def bit_or_iff bit_push_bit_iff bit_ucast_iff bit_drop_bit_eq
       dest: bit_imp_le_length)

lemma of_le32_le32: "of_le32 (le32 w ! 0) (le32 w ! 1) (le32 w ! 2) (le32 w ! 3) = w"
proof (rule bit_word_eqI)
  fix n assume "n < LENGTH(32)"
  then consider "n < 8" | "8 \<le> n" "n < 16" | "16 \<le> n" "n < 24" | "24 \<le> n" "n < 32"
    by fastforce
  then show "bit (of_le32 (le32 w ! 0) (le32 w ! 1) (le32 w ! 2) (le32 w ! 3)) n = bit w n"
    by cases (auto simp: of_le32_def le32_def bit_or_iff bit_push_bit_iff bit_ucast_iff
        bit_drop_bit_eq numeral_3_eq_3 numeral_2_eq_2)
qed

lemma le16_of_le16: "le16 (of_le16 b0 b1) = [b0, b1]"
proof -
  have "ucast (of_le16 b0 b1) = b0" "ucast (drop_bit 8 (of_le16 b0 b1)) = b1"
    by (rule bit_word_eqI;
        auto simp: of_le16_def bit_or_iff bit_push_bit_iff bit_ucast_iff bit_drop_bit_eq
          dest: bit_imp_le_length)+
  then show ?thesis by (simp add: le16_def)
qed

lemma word8_of_nat_inj: "m < 256 \<Longrightarrow> n < 256 \<Longrightarrow> (of_nat m :: byte) = of_nat n \<longleftrightarrow> m = n"
  by (simp add: word_of_nat_eq_iff take_bit_nat_eq_self)

lemma unat_of_nat8: "n < 256 \<Longrightarrow> unat (of_nat n :: byte) = n"
  by (simp add: unat_of_nat take_bit_nat_eq_self)

section \<open>Ring indices\<close>

text \<open>The number of used slots of a ring with \<open>n\<close> slots between a read index \<open>t\<close> and a write index
  \<open>h\<close>, as the code computes it, and its behaviour under the two index steps.\<close>

definition ring_used :: "nat \<Rightarrow> nat \<Rightarrow> nat \<Rightarrow> nat" where
  "ring_used n h t = (if t \<le> h then h - t else n - t + h)"

lemma ring_used_less: "h < n \<Longrightarrow> t < n \<Longrightarrow> ring_used n h t < n"
  by (auto simp: ring_used_def)

lemma ring_used_0_iff: "h < n \<Longrightarrow> t < n \<Longrightarrow> ring_used n h t = 0 \<longleftrightarrow> h = t"
  by (auto simp: ring_used_def)

lemma ring_next_cases: "h < n \<Longrightarrow> Suc h mod n = (if Suc h = n then 0 else Suc h)"
  by (simp add: mod_Suc)

lemma ring_used_full_iff:
  "h < n \<Longrightarrow> t < n \<Longrightarrow> Suc h mod n = t \<longleftrightarrow> ring_used n h t = n - 1"
  by (simp add: ring_used_def ring_next_cases) linarith

lemma ring_used_push:
  "h < n \<Longrightarrow> t < n \<Longrightarrow> Suc h mod n \<noteq> t \<Longrightarrow> ring_used n (Suc h mod n) t = Suc (ring_used n h t)"
  by (simp add: ring_used_def ring_next_cases split: if_splits) linarith+

lemma ring_used_pop:
  "h < n \<Longrightarrow> t < n \<Longrightarrow> h \<noteq> t \<Longrightarrow> ring_used n h (Suc t mod n) = ring_used n h t - 1"
  by (simp add: ring_used_def ring_next_cases)

lemma ring_slot_used: "h < n \<Longrightarrow> t < n \<Longrightarrow> (t + ring_used n h t) mod n = h"
  by (simp add: ring_used_def)

lemma ring_slot_neq_head:
  assumes "h < n" "t < n" "i < ring_used n h t"
  shows "(t + i) mod n \<noteq> h"
proof (cases "t + i < n")
  case True
  with assms show ?thesis by (simp add: ring_used_def split: if_splits)
next
  case False
  moreover have "i < n" using assms ring_used_less [of h n t] by simp
  ultimately have "(t + i) mod n = t + i - n"
    using assms(2) by (simp add: mod_if)
  with assms False show ?thesis by (simp add: ring_used_def split: if_splits)
qed

lemma map_upt_cong: "(\<And>i. i < n \<Longrightarrow> f i = g i) \<Longrightarrow> map f [0..<n] = map g [0..<n]"
  by simp

text \<open>The contents of a ring, oldest first.\<close>

definition ring_list :: "'a list \<Rightarrow> nat \<Rightarrow> nat \<Rightarrow> 'a list" where
  "ring_list buf h t =
     map (\<lambda>i. buf ! ((t + i) mod length buf)) [0..<ring_used (length buf) h t]"

lemma length_ring_list [simp]: "length (ring_list buf h t) = ring_used (length buf) h t"
  by (simp add: ring_list_def)

lemma ring_list_empty_iff:
  "h < length buf \<Longrightarrow> t < length buf \<Longrightarrow> ring_list buf h t = [] \<longleftrightarrow> h = t"
  by (simp add: ring_list_def ring_used_0_iff)

lemma ring_list_same [simp]: "ring_list buf h h = []"
  by (simp add: ring_list_def ring_used_def)

lemma ring_list_store:
  assumes "h < length buf" "t < length buf"
  shows "ring_list (buf[h := v]) h t = ring_list buf h t"
  unfolding ring_list_def length_list_update
proof (rule map_upt_cong)
  fix i assume "i < ring_used (length buf) h t"
  then have "(t + i) mod length buf \<noteq> h" using assms by (intro ring_slot_neq_head)
  then show "buf[h := v] ! ((t + i) mod length buf) = buf ! ((t + i) mod length buf)" by simp
qed

lemma ring_list_advance:
  assumes "h < length buf" "t < length buf" "Suc h mod length buf \<noteq> t"
  shows "ring_list buf (Suc h mod length buf) t = ring_list buf h t @ [buf ! h]"
  using assms by (simp add: ring_list_def ring_used_push ring_slot_used)

lemma ring_list_push:
  assumes "h < length buf" "t < length buf" "Suc h mod length buf \<noteq> t"
  shows "ring_list (buf[h := v]) (Suc h mod length buf) t = ring_list buf h t @ [v]"
  using ring_list_advance [of h "buf[h := v]" t] ring_list_store [of h buf t v] assms by simp

lemma ring_next_neq:
  "h < n \<Longrightarrow> t < n \<Longrightarrow> h \<noteq> t \<Longrightarrow> Suc h mod n \<noteq> Suc t mod n"
  by (simp add: ring_next_cases)

lemma ring_list_pop:
  assumes "h < length buf" "t < length buf" "h \<noteq> t"
  shows "ring_list buf h t = buf ! t # ring_list buf h (Suc t mod length buf)"
proof -
  let ?n = "length buf"
  have pos: "0 < ring_used ?n h t"
    using assms ring_used_0_iff by fastforce
  then have "[0..<ring_used ?n h t] = 0 # map Suc [0..<ring_used ?n h t - 1]"
    by (simp add: upt_conv_Cons map_Suc_upt)
  then have "ring_list buf h t
     = buf ! (t mod ?n) # map (\<lambda>i. buf ! ((t + Suc i) mod ?n)) [0..<ring_used ?n h t - 1]"
    by (simp add: ring_list_def comp_def)
  moreover have "(Suc t mod ?n + i) mod ?n = (t + Suc i) mod ?n" for i
    by (simp add: mod_simps)
  ultimately show ?thesis
    using assms by (simp add: ring_list_def ring_used_pop)
qed

text \<open>A ring that keeps its count: the \<open>n\<close> entries from the read index on.\<close>

definition cring_list :: "'a list \<Rightarrow> nat \<Rightarrow> nat \<Rightarrow> 'a list" where
  "cring_list buf t n = map (\<lambda>i. buf ! ((t + i) mod length buf)) [0..<n]"

lemma length_cring_list [simp]: "length (cring_list buf t n) = n"
  by (simp add: cring_list_def)

lemma ring_list_cring: "ring_list buf h t = cring_list buf t (ring_used (length buf) h t)"
  by (simp add: ring_list_def cring_list_def)

lemma cring_slots_distinct:
  fixes i j n t :: nat
  assumes "i < n" "j < n" "i \<noteq> j"
  shows "(t + i) mod n \<noteq> (t + j) mod n"
proof
  assume eq: "(t + i) mod n = (t + j) mod n"
  have False if "a < b" "b < n" "(t + a) mod n = (t + b) mod n" for a b
  proof -
    have "n dvd (t + b) - (t + a)"
      using that by (intro mod_eq_dvd_iff_nat [THEN iffD1]) auto
    then show False using that by (auto dest: dvd_imp_le)
  qed
  with assms eq show False by (metis linorder_neqE_nat)
qed

lemma cring_list_pop:
  assumes "t < length buf"
  shows "cring_list buf t (Suc n) = buf ! t # cring_list buf (Suc t mod length buf) n"
proof -
  have "[0..<Suc n] = 0 # map Suc [0..<n]"
    by (simp add: upt_conv_Cons map_Suc_upt del: upt_Suc)
  moreover have "(Suc t mod length buf + i) mod length buf = (t + Suc i) mod length buf" for i
    by (simp add: mod_simps)
  ultimately show ?thesis using assms by (simp add: cring_list_def comp_def del: upt_Suc)
qed

lemma cring_list_push:
  assumes "n < length buf"
  shows "cring_list (buf[(t + n) mod length buf := v]) t (Suc n) = cring_list buf t n @ [v]"
proof -
  let ?k = "length buf"
  have "map (\<lambda>i. buf[(t + n) mod ?k := v] ! ((t + i) mod ?k)) [0..<n]
      = map (\<lambda>i. buf ! ((t + i) mod ?k)) [0..<n]"
  proof (rule map_upt_cong)
    fix i assume "i < n"
    then have "(t + n) mod ?k \<noteq> (t + i) mod ?k"
      using assms by (intro cring_slots_distinct) auto
    then show "buf[(t + n) mod ?k := v] ! ((t + i) mod ?k) = buf ! ((t + i) mod ?k)" by simp
  qed
  moreover have "(t + n) mod ?k < ?k" using assms by (intro mod_less_divisor) linarith
  ultimately show ?thesis by (simp add: cring_list_def)
qed

section \<open>Sequences of fallible steps\<close>

primrec foldM :: "('x \<Rightarrow> 'a \<Rightarrow> 'a option) \<Rightarrow> 'x list \<Rightarrow> 'a \<Rightarrow> 'a option" where
  "foldM f [] a = Some a"
| "foldM f (x # xs) a = do { a \<leftarrow> f x a; foldM f xs a }"

end
