(* ===== verification/CobsCodec.thy ===== *)
theory CobsCodec
  imports SputPrelude
begin

text \<open>
  \<^verbatim>\<open>include/sputteros/comms/protocol/CobsCodec.h\<close>: Consistent Overhead Byte Stuffing.

  The encoder and the decoder are modelled on the caller's buffers, with the write index, the code
  index and the code byte of the source; a store outside the destination is \<open>None\<close>. The reference
  definition \<open>cobs\<close> is the block structure of the encoding as a pure function; the encoder is shown
  to refine it within the capacity the code checks, and the decoder to invert it.
\<close>

definition cobsMaxEncodedLen :: "nat \<Rightarrow> nat" where
  "cobsMaxEncodedLen srcLen = srcLen + srcLen div 254 + 1"

text \<open>The state of the loop of \<^verbatim>\<open>Cobs::encode\<close>.\<close>

record enc_st =
  e_dst :: "byte list"
  e_writeIdx :: nat
  e_codeIdx :: nat
  e_code :: byte

fun encode_loop :: "byte list \<Rightarrow> enc_st \<Rightarrow> enc_st option" where
  "encode_loop [] s = Some s"
| "encode_loop (b # bs) s =
     (if b = 0 then do {
        dst \<leftarrow> wr (e_dst s) (e_codeIdx s) (e_code s);
        encode_loop bs (s\<lparr>e_dst := dst, e_codeIdx := e_writeIdx s,
          e_writeIdx := e_writeIdx s + 1, e_code := 1\<rparr>)
      } else do {
        dst \<leftarrow> wr (e_dst s) (e_writeIdx s) b;
        let code = e_code s + 1;
        if code = 0xFF then do {
          dst \<leftarrow> wr dst (e_codeIdx s) code;
          encode_loop bs (s\<lparr>e_dst := dst, e_codeIdx := e_writeIdx s + 1,
            e_writeIdx := e_writeIdx s + 2, e_code := 1\<rparr>)
        } else
          encode_loop bs (s\<lparr>e_dst := dst, e_writeIdx := e_writeIdx s + 1, e_code := code\<rparr>)
      })"

text \<open>\<^verbatim>\<open>Cobs::encode\<close>: the returned length and the final contents of \<open>dst\<close>.\<close>

definition encode :: "byte list \<Rightarrow> byte list \<Rightarrow> nat \<Rightarrow> (nat \<times> byte list) option" where
  "encode src dst dstCap =
     (if dstCap < cobsMaxEncodedLen (length src) then Some (0, dst)
      else do {
        s \<leftarrow> encode_loop src \<lparr>e_dst = dst, e_writeIdx = 1, e_codeIdx = 0, e_code = 1\<rparr>;
        dst \<leftarrow> wr (e_dst s) (e_codeIdx s) (e_code s);
        Some (e_writeIdx s, dst)
      })"

text \<open>The inner copy loop of \<^verbatim>\<open>Cobs::decode\<close>: \<open>n\<close> data bytes are moved from the unread input to
  \<open>dst\<close>. \<open>Inl\<close> is the early \<^verbatim>\<open>return 0\<close> on a zero byte, with the buffer as it is by then.\<close>

fun decode_copy :: "nat \<Rightarrow> byte list \<Rightarrow> byte list \<Rightarrow> nat \<Rightarrow>
    (byte list + byte list \<times> byte list \<times> nat) option" where
  "decode_copy 0 rest dst w = Some (Inr (rest, dst, w))"
| "decode_copy (Suc n) rest dst w =
     (case rest of
        [] \<Rightarrow> None
      | b # rest' \<Rightarrow>
          if b = 0 then Some (Inl dst)
          else do { dst \<leftarrow> wr dst w b; decode_copy n rest' dst (w + 1) })"

lemma decode_copy_shorter:
  "decode_copy n rest dst w = Some (Inr (rest', dst', w')) \<Longrightarrow> length rest' \<le> length rest"
  by (induction n rest dst w rule: decode_copy.induct)
     (fastforce split: list.splits if_splits bind_splits)+

text \<open>The outer loop of \<^verbatim>\<open>Cobs::decode\<close>; \<open>rest\<close> is the input from \<^verbatim>\<open>readIdx\<close> on, so
  \<^verbatim>\<open>readIdx + dataBytes > srcLen\<close> is \<open>length rest < dataBytes\<close>.\<close>

function decode_loop :: "byte list \<Rightarrow> byte list \<Rightarrow> nat \<Rightarrow> nat \<Rightarrow> (nat \<times> byte list) option" where
  "decode_loop [] dst w dstCap = Some (w, dst)"
| "decode_loop (code # rest) dst w dstCap =
     (if code = 0 then Some (0, dst)
      else
        let dataBytes = unat (code - 1) in
        if length rest < dataBytes then Some (0, dst)
        else if w + dataBytes > dstCap then Some (0, dst)
        else
          (case decode_copy dataBytes rest dst w of
             None \<Rightarrow> None
           | Some (Inl dst) \<Rightarrow> Some (0, dst)
           | Some (Inr (rest, dst, w)) \<Rightarrow>
               if code < 0xFF \<and> rest \<noteq> [] then
                 if w \<ge> dstCap then Some (0, dst)
                 else do { dst \<leftarrow> wr dst w 0; decode_loop rest dst (w + 1) dstCap }
               else decode_loop rest dst w dstCap))"
  by pat_completeness auto
termination
  by (relation "measure (\<lambda>(rest, dst, w, cap). length rest)") (auto dest: decode_copy_shorter)

definition decode :: "byte list \<Rightarrow> byte list \<Rightarrow> nat \<Rightarrow> (nat \<times> byte list) option" where
  "decode src dst dstCap = (if src = [] then Some (0, dst) else decode_loop src dst 0 dstCap)"

section \<open>The reference encoding\<close>

text \<open>\<open>cobs cur bs\<close> encodes \<open>bs\<close> when the bytes \<open>cur\<close> of the current block are already known.\<close>

fun cobs :: "byte list \<Rightarrow> byte list \<Rightarrow> byte list" where
  "cobs cur [] = of_nat (Suc (length cur)) # cur"
| "cobs cur (b # bs) =
     (if b = 0 then of_nat (Suc (length cur)) # cur @ cobs [] bs
      else if length cur = 253 then 255 # cur @ b # cobs [] bs
      else cobs (cur @ [b]) bs)"

definition cobs_block :: "byte list \<Rightarrow> bool" where
  "cobs_block cur \<longleftrightarrow> length cur < 254 \<and> 0 \<notin> set cur"

lemma cobs_block_Nil [simp]: "cobs_block []"
  by (simp add: cobs_block_def)

lemma cobs_block_snoc: "cobs_block cur \<Longrightarrow> b \<noteq> 0 \<Longrightarrow> length cur \<noteq> 253 \<Longrightarrow> cobs_block (cur @ [b])"
  by (auto simp: cobs_block_def)

lemma length_cobs_ge: "length cur + length bs < length (cobs cur bs)"
  by (induction cur bs rule: cobs.induct) auto

lemma length_cobs_le:
  "length cur < 254 \<Longrightarrow>
   length (cobs cur bs) \<le> length cur + length bs + (length cur + length bs) div 254 + 1"
proof (induction cur bs rule: cobs.induct)
  case (1 cur)
  then show ?case by simp
next
  case (2 cur b bs)
  show ?case
  proof (cases "b = 0")
    case True
    have "length bs div 254 \<le> (length cur + Suc (length bs)) div 254"
      by (rule div_le_mono) simp
    with "2.IH"(1) True show ?thesis by simp
  next
    case False
    show ?thesis
    proof (cases "length cur = 253")
      case True
      have "(253 + Suc (length bs)) div 254 = Suc (length bs div 254)"
        by simp
      with "2.IH"(2) False True show ?thesis by simp
    next
      case c: False
      with "2.prems" have "length (cur @ [b]) < 254" by simp
      with "2.IH"(3) False c show ?thesis by simp
    qed
  qed
qed

lemma cobs_no_zero: "cobs_block cur \<Longrightarrow> 0 \<notin> set (cobs cur bs)"
proof (induction cur bs rule: cobs.induct)
  case (1 cur)
  then have "(of_nat (Suc (length cur)) :: byte) \<noteq> of_nat 0"
    by (subst word8_of_nat_inj) (auto simp: cobs_block_def)
  with 1 show ?case by (simp add: cobs_block_def)
next
  case (2 cur b bs)
  then have "(of_nat (Suc (length cur)) :: byte) \<noteq> of_nat 0"
    by (subst word8_of_nat_inj) (auto simp: cobs_block_def)
  moreover have "0 \<notin> set cur" using "2.prems" by (simp add: cobs_block_def)
  ultimately show ?case
    using 2 by (auto simp: cobs_block_snoc)
qed

section \<open>The encoder refines the reference\<close>

text \<open>\<open>enc_rel out cur s\<close>: the destination holds the finished output \<open>out\<close>, one slot reserved for
  the code of the current block, and the data \<open>cur\<close> of that block.\<close>

definition enc_rel :: "byte list \<Rightarrow> byte list \<Rightarrow> enc_st \<Rightarrow> bool" where
  "enc_rel out cur s \<longleftrightarrow>
     cobs_block cur \<and> e_codeIdx s = length out \<and> e_writeIdx s = length out + 1 + length cur \<and>
     e_code s = of_nat (Suc (length cur)) \<and> e_writeIdx s \<le> length (e_dst s) \<and>
     (\<exists>x. take (e_writeIdx s) (e_dst s) = out @ x # cur)"

lemma code_full_iff:
  "length cur < 254 \<Longrightarrow> (of_nat (Suc (length cur)) + 1 :: byte) = 0xFF \<longleftrightarrow> length cur = 253"
proof -
  assume "length cur < 254"
  then have "(of_nat (Suc (Suc (length cur))) :: byte) = of_nat 255 \<longleftrightarrow> length cur = 253"
    by (subst word8_of_nat_inj) auto
  then show ?thesis by (simp add: add.commute)
qed

lemma enc_rel_zero:
  assumes "enc_rel out cur s" "e_writeIdx s < length (e_dst s)"
  shows "\<exists>dst. wr (e_dst s) (e_codeIdx s) (e_code s) = Some dst \<and> length dst = length (e_dst s) \<and>
    take (e_writeIdx s) dst = out @ of_nat (Suc (length cur)) # cur \<and>
    enc_rel (out @ of_nat (Suc (length cur)) # cur) []
      (s\<lparr>e_dst := dst, e_codeIdx := e_writeIdx s, e_writeIdx := e_writeIdx s + 1, e_code := 1\<rparr>)"
proof -
  let ?dst = "(e_dst s)[e_codeIdx s := e_code s]"
  obtain x where x: "take (e_writeIdx s) (e_dst s) = out @ x # cur"
    using assms(1) by (auto simp: enc_rel_def)
  have ok: "e_codeIdx s < length (e_dst s)"
    using assms by (simp add: enc_rel_def)
  have t: "take (e_writeIdx s) ?dst = out @ of_nat (Suc (length cur)) # cur"
    using take_update_split [OF x] assms(1) by (simp add: enc_rel_def)
  then have "take (Suc (e_writeIdx s)) ?dst
      = (out @ of_nat (Suc (length cur)) # cur) @ [?dst ! e_writeIdx s]"
    using assms(2) by (simp add: take_Suc_conv_app_nth)
  with t ok assms show ?thesis
    by (auto simp: wr_def enc_rel_def)
qed

lemma enc_rel_data:
  assumes "enc_rel out cur s" "e_writeIdx s < length (e_dst s)" "b \<noteq> 0" "length cur \<noteq> 253"
  shows "\<exists>dst. wr (e_dst s) (e_writeIdx s) b = Some dst \<and> length dst = length (e_dst s) \<and>
    enc_rel out (cur @ [b]) (s\<lparr>e_dst := dst, e_writeIdx := e_writeIdx s + 1, e_code := e_code s + 1\<rparr>)"
  using assms
  by (auto simp: wr_def enc_rel_def take_Suc_update cobs_block_snoc add.commute)

lemma enc_rel_full:
  assumes "enc_rel out cur s" "Suc (e_writeIdx s) < length (e_dst s)" "b \<noteq> 0" "length cur = 253"
  shows "\<exists>dst1 dst. wr (e_dst s) (e_writeIdx s) b = Some dst1 \<and> wr dst1 (e_codeIdx s) 0xFF = Some dst \<and>
    length dst = length (e_dst s) \<and>
    enc_rel (out @ 255 # cur @ [b]) []
      (s\<lparr>e_dst := dst, e_codeIdx := e_writeIdx s + 1, e_writeIdx := e_writeIdx s + 2, e_code := 1\<rparr>)"
proof -
  let ?dst1 = "(e_dst s)[e_writeIdx s := b]"
  let ?dst = "?dst1[e_codeIdx s := 0xFF]"
  obtain x where x: "take (e_writeIdx s) (e_dst s) = out @ x # cur"
    using assms(1) by (auto simp: enc_rel_def)
  have idx: "e_codeIdx s = length out" "e_codeIdx s < e_writeIdx s" "cobs_block cur"
    using assms(1) by (simp_all add: enc_rel_def)
  have "take (Suc (e_writeIdx s)) ?dst1 = out @ x # cur @ [b]"
    using x assms(2) by (simp add: take_Suc_update)
  then have "take (Suc (e_writeIdx s)) ?dst = out @ 255 # cur @ [b]"
    using take_update_split [of "Suc (e_writeIdx s)" ?dst1 out x "cur @ [b]" "e_codeIdx s"]
      idx assms(2) by simp
  then have "take (e_writeIdx s + 2) ?dst = (out @ 255 # cur @ [b]) @ [?dst ! Suc (e_writeIdx s)]"
    using assms(2) by (simp add: take_Suc_conv_app_nth numeral_2_eq_2)
  with idx assms show ?thesis
    by (simp add: wr_def enc_rel_def)
qed

lemma encode_loop_refines:
  assumes "enc_rel out cur s"
    and "length out + length (cobs cur bs) \<le> length (e_dst s)"
  shows "\<exists>s' dst. encode_loop bs s = Some s' \<and> wr (e_dst s') (e_codeIdx s') (e_code s') = Some dst \<and>
    length dst = length (e_dst s) \<and> e_writeIdx s' = length (out @ cobs cur bs) \<and>
    take (e_writeIdx s') dst = out @ cobs cur bs"
  using assms
proof (induction cur bs arbitrary: out s rule: cobs.induct)
  case (1 cur)
  then obtain x where x: "take (e_writeIdx s) (e_dst s) = out @ x # cur"
    by (auto simp: enc_rel_def)
  have "take (e_writeIdx s) ((e_dst s)[e_codeIdx s := e_code s]) = out @ e_code s # cur"
    by (rule take_update_split [OF x]) (use "1.prems" in \<open>auto simp: enc_rel_def\<close>)
  with "1.prems" show ?case
    by (auto simp: enc_rel_def wr_def)
next
  case (2 cur b bs)
  have blk: "length cur < 254" and w: "e_writeIdx s = length out + 1 + length cur"
    using "2.prems"(1) by (auto simp: enc_rel_def cobs_block_def)
  have more: "e_writeIdx s < length (e_dst s)"
    using "2.prems"(2) w length_cobs_ge [of cur "b # bs"] by simp
  show ?case
  proof (cases "b = 0")
    case True
    from enc_rel_zero [OF "2.prems"(1) more] obtain dst where
      d: "wr (e_dst s) (e_codeIdx s) (e_code s) = Some dst" "length dst = length (e_dst s)"
         "enc_rel (out @ of_nat (Suc (length cur)) # cur) []
           (s\<lparr>e_dst := dst, e_codeIdx := e_writeIdx s, e_writeIdx := e_writeIdx s + 1, e_code := 1\<rparr>)"
      by blast
    from "2.IH"(1) [OF True d(3)] "2.prems"(2) True d(1,2) show ?thesis
      by fastforce
  next
    case False
    show ?thesis
    proof (cases "length cur = 253")
      case full: True
      have "Suc (e_writeIdx s) < length (e_dst s)"
        using "2.prems"(2) False full w length_cobs_ge [of "[]" bs] by simp
      from enc_rel_full [OF "2.prems"(1) this False full] obtain dst1 dst where
        d: "wr (e_dst s) (e_writeIdx s) b = Some dst1" "wr dst1 (e_codeIdx s) 0xFF = Some dst"
           "length dst = length (e_dst s)"
           "enc_rel (out @ 255 # cur @ [b]) [] (s\<lparr>e_dst := dst, e_codeIdx := e_writeIdx s + 1,
              e_writeIdx := e_writeIdx s + 2, e_code := 1\<rparr>)"
        by blast
      have code: "e_code s + 1 = 0xFF"
        using "2.prems"(1) code_full_iff [OF blk] full by (simp add: enc_rel_def)
      from "2.IH"(2) [OF False full d(4)] "2.prems"(2) False full d(1-3) code show ?thesis
        by fastforce
    next
      case part: False
      from enc_rel_data [OF "2.prems"(1) more False part] obtain dst where
        d: "wr (e_dst s) (e_writeIdx s) b = Some dst" "length dst = length (e_dst s)"
           "enc_rel out (cur @ [b])
              (s\<lparr>e_dst := dst, e_writeIdx := e_writeIdx s + 1, e_code := e_code s + 1\<rparr>)"
        by blast
      have code: "e_code s + 1 \<noteq> 0xFF"
        using "2.prems"(1) code_full_iff [OF blk] part by (simp add: enc_rel_def)
      from "2.IH"(3) [OF False part d(3)] "2.prems"(2) False part d(1,2) code show ?thesis
        by fastforce
    qed
  qed
qed

lemma length_cobs_cap: "length (cobs [] src) \<le> cobsMaxEncodedLen (length src)"
  using length_cobs_le [of "[]" src] by (simp add: cobsMaxEncodedLen_def)

lemma encode_cobs:
  assumes "cobsMaxEncodedLen (length src) \<le> dstCap" and "dstCap \<le> length dst"
  shows "\<exists>dst'. encode src dst dstCap = Some (length (cobs [] src), dst') \<and>
     length dst' = length dst \<and> take (length (cobs [] src)) dst' = cobs [] src"
proof -
  let ?s = "\<lparr>e_dst = dst, e_writeIdx = 1, e_codeIdx = 0, e_code = 1\<rparr>"
  have "0 < length dst" using assms unfolding cobsMaxEncodedLen_def by linarith
  then have "enc_rel [] [] ?s"
    by (cases dst) (auto simp: enc_rel_def)
  moreover have "length (cobs [] src) \<le> length dst"
    using length_cobs_cap [of src] assms by linarith
  ultimately show ?thesis
    using encode_loop_refines [of "[]" "[]" ?s src] assms by (fastforce simp: encode_def)
qed

section \<open>The decoder inverts the reference\<close>

lemma decode_copy_ok:
  assumes "0 \<notin> set xs" "w + length xs \<le> length dst"
  shows "decode_copy (length xs) (xs @ rest) dst w
     = Some (Inr (rest, take w dst @ xs @ drop (w + length xs) dst, w + length xs))"
  using assms
proof (induction xs arbitrary: dst w)
  case Nil
  then show ?case by simp
next
  case (Cons x xs)
  then show ?case
    by (simp add: wr_def take_Suc_conv_app_nth)
qed

text \<open>One block of the encoding: its data is appended and, when the block is not full and is
  not the last one, a zero.\<close>

lemma decode_loop_block:
  assumes "0 \<notin> set cur" "length cur < 255" "w + length cur \<le> dstCap" "dstCap \<le> length dst"
    and dst': "dst' = take w dst @ cur @ drop (w + length cur) dst"
  shows "decode_loop (of_nat (Suc (length cur)) # cur @ rest) dst w dstCap =
     (if length cur < 254 \<and> rest \<noteq> [] then
        (if w + length cur \<ge> dstCap then Some (0, dst')
         else decode_loop rest (dst'[w + length cur := 0]) (w + length cur + 1) dstCap)
      else decode_loop rest dst' (w + length cur) dstCap)"
proof -
  let ?c = "of_nat (Suc (length cur)) :: byte"
  have nz: "?c \<noteq> 0"
    using word8_of_nat_inj [of "Suc (length cur)" 0] assms(2) by simp
  have db: "unat (?c - 1) = length cur"
    using assms(2) by (simp add: unat_of_nat8)
  have lt: "?c < 0xFF \<longleftrightarrow> length cur < 254"
    using assms(2) by (simp add: word_less_nat_alt unat_of_nat8 del: of_nat_Suc)
  have "length dst' = length dst" using assms by simp
  then have "w + length cur < dstCap \<Longrightarrow> wr dst' (w + length cur) 0 = Some (dst'[w + length cur := 0])"
    using assms(4) by (simp add: wr_def)
  then show ?thesis
    using nz db lt assms(3,4) decode_copy_ok [OF assms(1), of w dst rest]
    by (simp add: Let_def dst' del: of_nat_Suc split: if_splits)
qed

lemma decode_loop_cobs:
  assumes "cobs_block cur" "w + length cur + length bs \<le> dstCap" "dstCap \<le> length dst"
  shows "\<exists>dst'. decode_loop (cobs cur bs) dst w dstCap = Some (w + length cur + length bs, dst') \<and>
     length dst' = length dst \<and>
     take (w + length cur + length bs) dst' = take w dst @ cur @ bs"
  using assms
proof (induction cur bs arbitrary: w dst rule: cobs.induct)
  case (1 cur)
  then show ?case
    using decode_loop_block [OF _ _ _ _ refl, of cur w dstCap dst "[]"]
    by (auto simp: cobs_block_def)
next
  case (2 cur b bs)
  have blk: "0 \<notin> set cur" "length cur < 254"
    using "2.prems"(1) by (auto simp: cobs_block_def)
  have nonempty: "cobs xs ys \<noteq> []" for xs ys
    using length_cobs_ge [of xs ys] by auto
  consider "b = 0" | "b \<noteq> 0" "length cur = 253" | "b \<noteq> 0" "length cur \<noteq> 253" by blast
  then show ?case
  proof cases
    case 1
    let ?d = "take w dst @ cur @ drop (w + length cur) dst"
    let ?d0 = "?d[w + length cur := 0]"
    have tk: "take (Suc (w + length cur)) ?d0 = take w dst @ cur @ [0]"
      using "2.prems" by (simp add: take_Suc_update)
    have "\<exists>dst'. decode_loop (cobs [] bs) ?d0 (Suc (w + length cur)) dstCap
          = Some (Suc (w + length cur) + length bs, dst') \<and> length dst' = length ?d0 \<and>
        take (Suc (w + length cur) + length bs) dst' = take (Suc (w + length cur)) ?d0 @ bs"
      using "2.IH"(1) [OF 1, of "Suc (w + length cur)" ?d0] "2.prems" by simp
    then show ?thesis
      using decode_loop_block [OF blk(1) _ _ _ refl, of w dstCap dst "cobs [] bs"]
        1 tk blk "2.prems" nonempty by fastforce
  next
    case 2
    let ?c = "cur @ [b]"
    let ?d = "take w dst @ ?c @ drop (w + length ?c) dst"
    have len: "Suc (length dst - Suc 0) = length dst"
      using "2.prems" 2 by simp
    have "\<exists>dst'. decode_loop (cobs [] bs) ?d (w + 254) dstCap = Some (w + 254 + length bs, dst') \<and>
        length dst' = length dst \<and> take (w + 254 + length bs) dst' = take (w + 254) ?d @ bs"
      using "2.IH"(2) [OF 2, of "w + 254" ?d] "2.prems" 2 len by simp
    moreover have "take (w + 254) ?d = take w dst @ ?c"
      using 2 "2.prems" by simp
    moreover have "decode_loop (of_nat (Suc (length ?c)) # ?c @ cobs [] bs) dst w dstCap
        = decode_loop (cobs [] bs) ?d (w + length ?c) dstCap"
      using decode_loop_block [OF _ _ _ _ refl, of ?c w dstCap dst "cobs [] bs"]
        2 blk "2.prems" by simp
    moreover have "cobs cur (b # bs) = of_nat (Suc (length ?c)) # ?c @ cobs [] bs"
      using 2 by simp
    moreover have "w + length cur + length (b # bs) = w + 254 + length bs"
      using 2 by simp
    ultimately show ?thesis
      using 2 "2.prems" by (simp del: of_nat_Suc decode_loop.simps add: ac_simps)
  next
    case 3
    then show ?thesis
      using "2.IH"(3) [OF 3, of w dst] "2.prems" cobs_block_snoc by fastforce
  qed
qed

lemma decode_cobs:
  assumes "length src \<le> dstCap" and "dstCap \<le> length dst"
  shows "\<exists>dst'. decode (cobs [] src) dst dstCap = Some (length src, dst') \<and>
     length dst' = length dst \<and> take (length src) dst' = src"
proof -
  have "cobs [] src \<noteq> []" using length_cobs_ge [of "[]" src] by auto
  then show ?thesis
    using decode_loop_cobs [of "[]" 0 src dstCap dst] assms by (simp add: decode_def)
qed

section \<open>The decoder stays inside the destination\<close>

lemma decode_copy_safe:
  assumes "n \<le> length rest" "w + n \<le> length dst"
  obtains d where "decode_copy n rest dst w = Some (Inl d)" "length d = length dst"
  | rest' d where "decode_copy n rest dst w = Some (Inr (rest', d, w + n))" "length d = length dst"
proof -
  have "(\<exists>d. decode_copy n rest dst w = Some (Inl d) \<and> length d = length dst) \<or>
        (\<exists>rest' d. decode_copy n rest dst w = Some (Inr (rest', d, w + n)) \<and> length d = length dst)"
    using assms
  proof (induction n arbitrary: rest dst w)
    case 0
    then show ?case by simp
  next
    case (Suc n)
    then obtain b rest' where r: "rest = b # rest'" by (cases rest) auto
    show ?case
    proof (cases "b = 0")
      case False
      then show ?thesis
        using Suc.IH [of rest' "Suc w" "dst[w := b]"] Suc.prems r by (simp add: wr_def)
    qed (simp add: r)
  qed
  then show ?thesis using that by blast
qed

lemma decode_loop_safe:
  assumes "w \<le> dstCap" "dstCap \<le> length dst"
  shows "\<exists>n dst'. decode_loop src dst w dstCap = Some (n, dst') \<and> n \<le> dstCap \<and> length dst' = length dst"
  using assms
proof (induction src dst w dstCap rule: decode_loop.induct)
  case (1 dst w dstCap)
  then show ?case by simp
next
  case (2 code rest dst w dstCap)
  let ?n = "unat (code - 1)"
  show ?case
  proof (cases "code = 0 \<or> length rest < ?n \<or> dstCap < w + ?n")
    case True
    then show ?thesis by (auto simp: Let_def)
  next
    case go: False
    then have "?n \<le> length rest" "w + ?n \<le> length dst" using "2.prems" by auto
    then show ?thesis
    proof (cases rule: decode_copy_safe)
      case (1 d)
      with go show ?thesis by (simp add: Let_def)
    next
      case (2 rest' d)
      show ?thesis
      proof (cases "code < 0xFF \<and> rest' \<noteq> []")
        case True
        show ?thesis
        proof (cases "w + ?n \<ge> dstCap")
          case True
          with \<open>code < 0xFF \<and> rest' \<noteq> []\<close> go 2 show ?thesis by (simp add: Let_def)
        next
          case room: False
          then have wr0: "wr d (w + ?n) 0 = Some (d[w + ?n := 0])"
            using "2.prems" 2 by (simp add: wr_def)
          then have "\<exists>n dst'. decode_loop rest' (d[w + ?n := 0]) (w + ?n + 1) dstCap = Some (n, dst')
              \<and> n \<le> dstCap \<and> length dst' = length (d[w + ?n := 0])"
            using True go 2 room "2.prems" by (intro "2.IH"(1)) auto
          then show ?thesis
            using True go 2 room wr0 by (simp add: Let_def)
        qed
      next
        case False
        then show ?thesis
          using go 2 "2.prems" "2.IH"(2) [of ?n] by (auto simp: Let_def)
      qed
    qed
  qed
qed

lemma decode_safe:
  assumes "dstCap \<le> length dst"
  shows "\<exists>n dst'. decode src dst dstCap = Some (n, dst') \<and> n \<le> dstCap \<and> length dst' = length dst"
  using decode_loop_safe [of 0 dstCap dst src] assms by (auto simp: decode_def)

section \<open>The interface of a byte-stuffing codec\<close>

text \<open>What the frame layer relies on: an encoder that writes a zero-free image of its input into any
  destination of sufficient capacity, and a decoder that recovers the input from the image and stays
  inside its destination on every input. \<open>stuffed\<close> is the image as a function.\<close>

locale stuffing_codec =
  fixes stuffed :: "byte list \<Rightarrow> byte list"
    and enc :: "byte list \<Rightarrow> byte list \<Rightarrow> nat \<Rightarrow> (nat \<times> byte list) option"
    and dec :: "byte list \<Rightarrow> byte list \<Rightarrow> nat \<Rightarrow> (nat \<times> byte list) option"
    and bound :: "nat \<Rightarrow> nat"
  assumes stuffed_nonzero: "0 \<notin> set (stuffed src)"
    and stuffed_longer: "length src < length (stuffed src)"
    and stuffed_bound: "length (stuffed src) \<le> bound (length src)"
    and enc_ok: "bound (length src) \<le> cap \<Longrightarrow> cap \<le> length dst \<Longrightarrow>
      \<exists>dst'. enc src dst cap = Some (length (stuffed src), dst') \<and> length dst' = length dst \<and>
        take (length (stuffed src)) dst' = stuffed src"
    and dec_ok: "length src \<le> cap \<Longrightarrow> cap \<le> length dst \<Longrightarrow>
      \<exists>dst'. dec (stuffed src) dst cap = Some (length src, dst') \<and> length dst' = length dst \<and>
        take (length src) dst' = src"
    and dec_safe: "cap \<le> length dst \<Longrightarrow>
      \<exists>n dst'. dec img dst cap = Some (n, dst') \<and> n \<le> cap \<and> length dst' = length dst"
begin

lemma stuffed_nonempty: "stuffed src \<noteq> []"
  using stuffed_longer [of src] by auto

lemma stuffed_inj: "stuffed xs = stuffed ys \<Longrightarrow> xs = ys"
proof -
  assume eq: "stuffed xs = stuffed ys"
  define cap where "cap = max (length xs) (length ys)"
  let ?d = "replicate cap (0 :: byte)"
  obtain d1 where d1: "dec (stuffed xs) ?d cap = Some (length xs, d1)" "take (length xs) d1 = xs"
    using dec_ok [of xs cap ?d] by (auto simp: cap_def)
  obtain d2 where d2: "dec (stuffed ys) ?d cap = Some (length ys, d2)" "take (length ys) d2 = ys"
    using dec_ok [of ys cap ?d] by (auto simp: cap_def)
  from eq d1 d2 show "xs = ys" by simp
qed

lemma enc_dec:
  assumes "bound (length src) \<le> cap" "cap \<le> length dst" "length src \<le> cap2" "cap2 \<le> length dst2"
  shows "\<exists>n dst' dst2'. enc src dst cap = Some (n, dst') \<and> n \<noteq> 0 \<and> 0 \<notin> set (take n dst') \<and>
     dec (take n dst') dst2 cap2 = Some (length src, dst2') \<and> take (length src) dst2' = src"
proof -
  obtain dst' where e: "enc src dst cap = Some (length (stuffed src), dst')"
      "take (length (stuffed src)) dst' = stuffed src"
    using enc_ok [OF assms(1,2)] by blast
  obtain dst2' where d: "dec (stuffed src) dst2 cap2 = Some (length src, dst2')"
      "take (length src) dst2' = src"
    using dec_ok [OF assms(3,4)] by blast
  have "length (stuffed src) \<noteq> 0" using stuffed_nonempty by simp
  then show ?thesis using e d stuffed_nonzero [of src] by auto
qed

end

interpretation cobs_codec: stuffing_codec "cobs []" encode decode cobsMaxEncodedLen
proof
  show "0 \<notin> set (cobs [] src)" for src
    by (rule cobs_no_zero) simp
  show "length src < length (cobs [] src)" for src
    using length_cobs_ge [of "[]" src] by simp
qed (fact length_cobs_cap encode_cobs decode_cobs decode_safe)+

section \<open>Properties\<close>

text \<open>C21: \<^verbatim>\<open>Cobs::encode\<close> writes, inside any destination of at least \<^verbatim>\<open>cobsMaxEncodedLen\<close> bytes, a non-empty
  image with no zero byte, longer than the source and within that bound, and \<^verbatim>\<open>Cobs::decode\<close> of the image
  into a destination with room for the source gives the source back.\<close>

theorem cobs_roundtrip:
  assumes "cobsMaxEncodedLen (length src) \<le> dstCap" "dstCap \<le> length dst"
    and "length src \<le> cap2" "cap2 \<le> length dst2"
  shows "\<exists>n dst' dst2'. encode src dst dstCap = Some (n, dst') \<and> 0 \<notin> set (take n dst') \<and>
     length src < n \<and> n \<le> cobsMaxEncodedLen (length src) \<and>
     decode (take n dst') dst2 cap2 = Some (length src, dst2') \<and> take (length src) dst2' = src"
proof -
  obtain dst' where "encode src dst dstCap = Some (length (cobs [] src), dst')"
      "take (length (cobs [] src)) dst' = cobs [] src"
    using cobs_codec.enc_ok [OF assms(1,2)] by blast
  moreover obtain dst2' where "decode (cobs [] src) dst2 cap2 = Some (length src, dst2')"
      "take (length src) dst2' = src"
    using cobs_codec.dec_ok [OF assms(3,4)] by blast
  ultimately show ?thesis
    using cobs_codec.stuffed_nonzero [of src] cobs_codec.stuffed_longer [of src]
      cobs_codec.stuffed_bound [of src] by auto
qed

theorem cobs_roundtrip_witness:
  "\<exists>n dst' dst2'. encode [0, 1, 0, 0, 255] (replicate 6 9) 6 = Some (n, dst') \<and> 0 \<notin> set (take n dst') \<and>
     length [0, 1, 0, 0, 255 :: byte] < n \<and> n \<le> cobsMaxEncodedLen (length [0, 1, 0, 0, 255 :: byte]) \<and>
     decode (take n dst') (replicate 5 9) 5 = Some (length [0, 1, 0, 0, 255 :: byte], dst2') \<and>
     take (length [0, 1, 0, 0, 255 :: byte]) dst2' = [0, 1, 0, 0, 255]"
  by (rule cobs_roundtrip) (simp_all add: cobsMaxEncodedLen_def)

end
