(* ===== verification/Crc16.thy ===== *)
theory Crc16
  imports SputPrelude
begin

text \<open>
  \<^verbatim>\<open>include/sputteros/comms/protocol/Crc16.h\<close>: the bitwise CRC16-CCITT, and what it detects.

  The shift register step is linear over exclusive or and injective, so no change of one byte, or of
  two adjacent bytes, of a message leaves its checksum unchanged.
\<close>

text \<open>One iteration of the inner loop: \<^verbatim>\<open>crc << 1\<close>, reduced by the polynomial when the top bit was
  set.\<close>

definition crc16_bit :: "u16 \<Rightarrow> u16" where
  "crc16_bit crc = (if crc AND 0x8000 \<noteq> 0 then push_bit 1 crc XOR 0x1021 else push_bit 1 crc)"

definition crc16_byte :: "u16 \<Rightarrow> byte \<Rightarrow> u16" where
  "crc16_byte crc b = (crc16_bit ^^ 8) (crc XOR push_bit 8 (ucast b))"

definition crc16 :: "byte list \<Rightarrow> u16 \<Rightarrow> u16" where
  "crc16 data init = foldl crc16_byte init data"

section \<open>The register step is linear and injective\<close>

lemma mask_top: "(crc AND 0x8000 \<noteq> 0) = bit crc 15" for crc :: u16
  using and_exp_eq_0_iff_not_bit [of crc 15] by simp

lemma crc16_bit_eq: "crc16_bit crc = push_bit 1 crc XOR (if bit crc 15 then 0x1021 else 0)"
  by (simp add: crc16_bit_def mask_top)

lemma push_bit_xor_word: "push_bit n (x XOR y) = push_bit n x XOR push_bit n (y :: 'a::len word)"
  by (rule bit_word_eqI) (simp add: bit_push_bit_iff bit_xor_iff)

lemma crc16_bit_xor: "crc16_bit (x XOR y) = crc16_bit x XOR crc16_bit y"
  by (simp add: crc16_bit_eq push_bit_xor_word bit_xor_iff xor.assoc xor.left_commute)

lemma crc16_bit_pow_xor: "(crc16_bit ^^ n) (x XOR y) = (crc16_bit ^^ n) x XOR (crc16_bit ^^ n) y"
  by (induction n) (simp_all add: crc16_bit_xor)

lemma crc16_bit_eq_0D:
  assumes "crc16_bit x = 0"
  shows "x = 0"
proof (rule bit_word_eqI)
  have b: "bit (crc16_bit x) n = False" for n
    using assms by simp
  have top: "\<not> bit x 15"
    using b [of 0] by (auto simp: crc16_bit_eq bit_xor_iff bit_push_bit_iff bit_0 even_xor_iff split: if_splits)
  fix n assume "n < LENGTH(16)"
  then show "bit x n = bit 0 n"
    using b [of "Suc n"] top
    by (cases "n = 15") (auto simp: crc16_bit_eq mult.commute [of x 2] bit_double_iff)
qed

lemma crc16_bit_pow_eq_0D: "(crc16_bit ^^ n) x = 0 \<Longrightarrow> x = 0"
  by (induction n) (auto dest: crc16_bit_eq_0D)

lemma xor_eq_0_iff_word: "x XOR y = 0 \<longleftrightarrow> x = (y :: 'a::len word)"
  by (metis xor.left_neutral xor.right_neutral xor_self_eq xor.assoc)

lemma crc16_bit_pow_inj: "(crc16_bit ^^ n) x = (crc16_bit ^^ n) y \<longleftrightarrow> x = y"
  by (metis crc16_bit_pow_eq_0D crc16_bit_pow_xor xor_eq_0_iff_word)

section \<open>Feeding bytes\<close>

lemma xor_right_cancel: "x XOR z = y XOR z \<longleftrightarrow> x = (y :: 'a::len word)"
  by (metis xor.assoc xor.right_neutral xor_self_eq)

lemma xor_left_cancel: "z XOR x = z XOR y \<longleftrightarrow> x = (y :: 'a::len word)"
  by (metis xor.commute xor_right_cancel)

lemma push_ucast_inj: "push_bit 8 (ucast a :: u16) = push_bit 8 (ucast b) \<longleftrightarrow> a = (b :: byte)"
proof
  assume eq: "push_bit 8 (ucast a :: u16) = push_bit 8 (ucast b)"
  show "a = b"
  proof (rule bit_word_eqI)
    fix n assume "n < LENGTH(8)"
    then show "bit a n = bit b n"
      using arg_cong [OF eq, of "\<lambda>x. bit x (n + 8)"] by (simp add: bit_push_bit_iff bit_ucast_iff)
  qed
qed simp

lemma crc16_byte_inj_state: "crc16_byte c b = crc16_byte c' b \<longleftrightarrow> c = c'"
  by (simp add: crc16_byte_def crc16_bit_pow_inj xor_right_cancel)

lemma crc16_byte_inj_byte: "crc16_byte c b = crc16_byte c b' \<longleftrightarrow> b = b'"
  by (simp add: crc16_byte_def crc16_bit_pow_inj xor_left_cancel push_ucast_inj)

lemma crc16_append: "crc16 (xs @ ys) init = crc16 ys (crc16 xs init)"
  by (simp add: crc16_def)

lemma crc16_inj_state: "crc16 xs c = crc16 xs c' \<longleftrightarrow> c = c'"
  by (induction xs arbitrary: c c') (simp_all add: crc16_def crc16_byte_inj_state)

lemma crc16_one_byte: "crc16 (xs @ b # ys) init = crc16 (xs @ b' # ys) init \<longleftrightarrow> b = b'"
proof -
  have "crc16 (xs @ x # ys) init = crc16 ys (crc16_byte (crc16 xs init) x)" for x
    by (simp add: crc16_append) (simp add: crc16_def)
  then show ?thesis by (simp add: crc16_inj_state crc16_byte_inj_byte)
qed

section \<open>Two adjacent bytes\<close>

lemma crc16_bit_pow_low:
  "k \<le> 8 \<Longrightarrow> (crc16_bit ^^ k) (ucast (b :: byte)) = push_bit k (ucast b)"
proof (induction k)
  case (Suc k)
  then have "\<not> bit (push_bit k (ucast b :: u16)) 15"
    by (auto simp: bit_push_bit_iff bit_ucast_iff dest: bit_imp_le_length)
  with Suc show ?case by (simp add: crc16_bit_eq push_bit_double)
qed simp

lemma crc16_two_bytes_fold:
  "crc16_byte (crc16_byte c a) b
     = (crc16_bit ^^ 16) (c XOR (push_bit 8 (ucast a) XOR ucast b))"
proof -
  have "crc16_byte (crc16_byte c a) b
      = (crc16_bit ^^ 8) ((crc16_bit ^^ 8) (c XOR push_bit 8 (ucast a)) XOR (crc16_bit ^^ 8) (ucast b))"
    by (simp add: crc16_byte_def crc16_bit_pow_low)
  also have "\<dots> = (crc16_bit ^^ (8 + 8)) (c XOR (push_bit 8 (ucast a) XOR ucast b))"
    unfolding funpow_add by (simp add: crc16_bit_pow_xor xor.assoc)
  finally show ?thesis by simp
qed

lemma two_bytes_inj:
  fixes a b a' b' :: byte
  assumes "push_bit 8 (ucast a :: u16) XOR ucast b = push_bit 8 (ucast a') XOR ucast b'"
  shows "a = a' \<and> b = b'"
proof -
  have bits: "bit (push_bit 8 (ucast a :: u16) XOR ucast b) n
      = bit (push_bit 8 (ucast a' :: u16) XOR ucast b') n" for n
    using assms by simp
  have "bit b n = bit b' n" "bit a n = bit a' n" if "n < 8" for n
    using bits [of n] bits [of "n + 8"] that
    by (auto simp: bit_xor_iff bit_push_bit_iff bit_ucast_iff dest: bit_imp_le_length)
  then show ?thesis by (auto intro!: bit_word_eqI)
qed

lemma crc16_two_bytes:
  "crc16 (xs @ a # b # ys) init = crc16 (xs @ a' # b' # ys) init \<longleftrightarrow> a = a' \<and> b = b'"
proof -
  have "crc16 (xs @ x # y # ys) init = crc16 ys (crc16_byte (crc16_byte (crc16 xs init) x) y)" for x y
    by (simp add: crc16_append) (simp add: crc16_def)
  then show ?thesis
    using two_bytes_inj
    by (auto simp: crc16_inj_state crc16_two_bytes_fold crc16_bit_pow_inj xor_left_cancel)
qed

end
