(* ===== verification/Frame.thy ===== *)
theory Frame
  imports CobsCodec Crc16
begin

text \<open>
  The framed wire protocol: \<^verbatim>\<open>include/sputteros/comms/protocol/\<close> \<^verbatim>\<open>FrameConstants.h\<close>,
  \<^verbatim>\<open>MessageType.h\<close>, \<^verbatim>\<open>FrameEncoder.h\<close> and \<^verbatim>\<open>FrameDecoder.h\<close>.

  \<^verbatim>\<open>MessageType\<close> is an enumeration with a fixed underlying type into which the decoder casts any
  byte, so a message type is a byte and the enumerators are constants. The template argument
  \<^verbatim>\<open>MaxPayload\<close> is the first argument of the operations. The staging buffers that the code leaves
  uninitialised start as zeros; no theorem depends on their initial contents.
\<close>

definition kFrameHeaderSize :: nat where "kFrameHeaderSize = 4"
definition kFrameTrailerSize :: nat where "kFrameTrailerSize = 2"
definition kFrameOverhead :: nat where "kFrameOverhead = kFrameHeaderSize + kFrameTrailerSize"
definition kFrameDelimiter :: byte where "kFrameDelimiter = 0"
definition kProtocolVersion :: u16 where "kProtocolVersion = 1"
definition kHandshakeMagic :: u32 where "kHandshakeMagic = 0x53504F53"

lemmas frame_consts = kFrameHeaderSize_def kFrameTrailerSize_def kFrameOverhead_def kFrameDelimiter_def

definition rawFrameSize :: "nat \<Rightarrow> nat" where
  "rawFrameSize payloadLen = kFrameOverhead + payloadLen"

definition maxWireSize :: "nat \<Rightarrow> nat" where
  "maxWireSize payloadLen = cobsMaxEncodedLen (rawFrameSize payloadLen) + 1"

definition MT_COMMAND :: byte where "MT_COMMAND = 0x01"
definition MT_HANDSHAKE_REQ :: byte where "MT_HANDSHAKE_REQ = 0x02"
definition MT_METRICS_REQ :: byte where "MT_METRICS_REQ = 0x03"
definition MT_EXIT_HANDSHAKE :: byte where "MT_EXIT_HANDSHAKE = 0x04"
definition MT_ACK :: byte where "MT_ACK = 0x81"
definition MT_NACK :: byte where "MT_NACK = 0x82"
definition MT_HANDSHAKE_RESP :: byte where "MT_HANDSHAKE_RESP = 0x83"
definition MT_TELEMETRY :: byte where "MT_TELEMETRY = 0x84"
definition MT_METRICS_RESP :: byte where "MT_METRICS_RESP = 0x85"
definition MT_LOG :: byte where "MT_LOG = 0x86"
definition MT_DATA :: byte where "MT_DATA = 0x87"
definition MT_PERF_DATA :: byte where "MT_PERF_DATA = 0x88"
definition MT_HEARTBEAT :: byte where "MT_HEARTBEAT = 0xF0"

lemmas msgtype_defs = MT_COMMAND_def MT_HANDSHAKE_REQ_def MT_METRICS_REQ_def MT_EXIT_HANDSHAKE_def
  MT_ACK_def MT_NACK_def MT_HANDSHAKE_RESP_def MT_TELEMETRY_def MT_METRICS_RESP_def MT_LOG_def
  MT_DATA_def MT_PERF_DATA_def MT_HEARTBEAT_def

definition isHostMessage :: "byte \<Rightarrow> bool" where
  "isHostMessage t \<longleftrightarrow> t \<ge> 0x01 \<and> t \<le> 0x7F"

definition isDeviceMessage :: "byte \<Rightarrow> bool" where
  "isDeviceMessage t \<longleftrightarrow> t \<ge> 0x81 \<and> t \<le> 0xBF"

definition isBidirectionalMessage :: "byte \<Rightarrow> bool" where
  "isBidirectionalMessage t \<longleftrightarrow> t \<ge> 0xF0"

section \<open>The encoder\<close>

definition kMaxRawSize :: "nat \<Rightarrow> nat" where
  "kMaxRawSize MaxPayload = kFrameOverhead + MaxPayload"

definition kMaxWireSize :: "nat \<Rightarrow> nat" where
  "kMaxWireSize MaxPayload = cobsMaxEncodedLen (kMaxRawSize MaxPayload) + 1"

text \<open>The payload part of the staging buffer: copied only when there is a payload pointer.\<close>

definition put_payload :: "byte list \<Rightarrow> byte list option \<Rightarrow> nat \<Rightarrow> (byte list \<times> nat) option" where
  "put_payload raw payload payloadLen =
     (case payload of
        Some p \<Rightarrow>
          if payloadLen > 0 then
            if length p < payloadLen then None
            else do {
              raw \<leftarrow> wr_many raw kFrameHeaderSize (take payloadLen p);
              Some (raw, kFrameHeaderSize + payloadLen)
            }
          else Some (raw, kFrameHeaderSize)
      | None \<Rightarrow> Some (raw, kFrameHeaderSize))"

text \<open>\<^verbatim>\<open>FrameEncoder::encode\<close>: the returned length and the final contents of \<open>outBuf\<close>.\<close>

definition FrameEncoder_encode :: "nat \<Rightarrow> byte \<Rightarrow> byte \<Rightarrow> byte list option \<Rightarrow> nat \<Rightarrow>
    byte list \<Rightarrow> nat \<Rightarrow> (nat \<times> byte list) option" where
  "FrameEncoder_encode MaxPayload type seqNum payload payloadLen outBuf outCap =
     (if payloadLen > MaxPayload then Some (0, outBuf)
      else
        let rawLen = kFrameOverhead + payloadLen in
        if outCap < cobsMaxEncodedLen rawLen + 1 then Some (0, outBuf)
        else do {
          raw \<leftarrow> wr (replicate (kMaxRawSize MaxPayload) 0) 0 type;
          raw \<leftarrow> wr raw 1 seqNum;
          raw \<leftarrow> wr raw 2 (of_nat (payloadLen mod 256));
          raw \<leftarrow> wr raw 3 (of_nat (payloadLen div 256 mod 256));
          (raw, pos) \<leftarrow> put_payload raw payload payloadLen;
          let crc = crc16 (take pos raw) 0xFFFF;
          raw \<leftarrow> wr raw pos (ucast crc);
          raw \<leftarrow> wr raw (pos + 1) (ucast (drop_bit 8 crc));
          (cobsLen, outBuf) \<leftarrow> encode (take (pos + 2) raw) outBuf (outCap - 1);
          if cobsLen = 0 then Some (0, outBuf)
          else do {
            outBuf \<leftarrow> wr outBuf cobsLen kFrameDelimiter;
            Some (cobsLen + 1, outBuf)
          }
        })"

section \<open>The decoder\<close>

datatype DecoderResult = INCOMPLETE | FRAME_READY | DECODER_ERROR

record FrameDecoder =
  fd_cobsBuf :: "byte list"
  fd_cobsLen :: nat
  fd_msgType :: byte
  fd_seqNum :: byte
  fd_payload :: "byte list"
  fd_payloadLen :: nat

definition kMaxCobsSize :: "nat \<Rightarrow> nat" where
  "kMaxCobsSize MaxPayload = cobsMaxEncodedLen (kMaxRawSize MaxPayload)"

definition FrameDecoder_reset :: "FrameDecoder \<Rightarrow> FrameDecoder" where
  "FrameDecoder_reset d =
     d\<lparr>fd_cobsLen := 0, fd_msgType := MT_HEARTBEAT, fd_seqNum := 0, fd_payloadLen := 0\<rparr>"

definition FrameDecoder_init :: "nat \<Rightarrow> FrameDecoder" where
  "FrameDecoder_init MaxPayload = FrameDecoder_reset
     \<lparr>fd_cobsBuf = replicate (kMaxCobsSize MaxPayload) 0, fd_cobsLen = 0, fd_msgType = 0,
      fd_seqNum = 0, fd_payload = replicate MaxPayload 0, fd_payloadLen = 0\<rparr>"

definition processFrame :: "nat \<Rightarrow> FrameDecoder \<Rightarrow> (DecoderResult \<times> FrameDecoder) option" where
  "processFrame MaxPayload d = do {
     (rawLen, rawBuf) \<leftarrow> decode (take (fd_cobsLen d) (fd_cobsBuf d))
        (replicate (kMaxRawSize MaxPayload) 0) (kMaxRawSize MaxPayload);
     let d = d\<lparr>fd_cobsLen := 0\<rparr>;
     if rawLen < kFrameOverhead then Some (DECODER_ERROR, d)
     else do {
       let crcOffset = rawLen - kFrameTrailerSize;
       lo \<leftarrow> rd rawBuf crcOffset;
       hi \<leftarrow> rd rawBuf (crcOffset + 1);
       let crcExpect = of_le16 lo hi;
       let crcComputed = crc16 (take crcOffset rawBuf) 0xFFFF;
       if crcComputed \<noteq> crcExpect then Some (DECODER_ERROR, d)
       else do {
         r0 \<leftarrow> rd rawBuf 0;
         r1 \<leftarrow> rd rawBuf 1;
         r2 \<leftarrow> rd rawBuf 2;
         r3 \<leftarrow> rd rawBuf 3;
         let d = d\<lparr>fd_msgType := r0, fd_seqNum := r1\<rparr>;
         let pl = of_le16 r2 r3;
         if unat pl \<noteq> crcOffset - kFrameHeaderSize then Some (DECODER_ERROR, d)
         else if unat pl > MaxPayload then Some (DECODER_ERROR, d)
         else do {
           payload \<leftarrow> wr_many (fd_payload d) 0 (take (unat pl) (drop kFrameHeaderSize rawBuf));
           Some (FRAME_READY, d\<lparr>fd_payloadLen := unat pl, fd_payload := payload\<rparr>)
         }
       }
     }
   }"

definition feedByte :: "nat \<Rightarrow> byte \<Rightarrow> FrameDecoder \<Rightarrow> (DecoderResult \<times> FrameDecoder) option" where
  "feedByte MaxPayload b d =
     (if b = kFrameDelimiter then
        if fd_cobsLen d = 0 then Some (INCOMPLETE, d) else processFrame MaxPayload d
      else if fd_cobsLen d < kMaxCobsSize MaxPayload then do {
        buf \<leftarrow> wr (fd_cobsBuf d) (fd_cobsLen d) b;
        Some (INCOMPLETE, d\<lparr>fd_cobsBuf := buf, fd_cobsLen := fd_cobsLen d + 1\<rparr>)
      } else Some (DECODER_ERROR, d\<lparr>fd_cobsLen := 0\<rparr>))"

text \<open>The getters of the last frame, with the payload as the caller reads it.\<close>

definition getPayload :: "FrameDecoder \<Rightarrow> byte list" where
  "getPayload d = take (fd_payloadLen d) (fd_payload d)"

text \<open>The usage loop of the class comment: every byte of a read, with the result of each.\<close>

fun feedBytes :: "nat \<Rightarrow> byte list \<Rightarrow> FrameDecoder \<Rightarrow> (DecoderResult list \<times> FrameDecoder) option" where
  "feedBytes MaxPayload [] d = Some ([], d)"
| "feedBytes MaxPayload (b # bs) d = do {
     (r, d) \<leftarrow> feedByte MaxPayload b d;
     (rs, d) \<leftarrow> feedBytes MaxPayload bs d;
     Some (r # rs, d)
   }"

section \<open>What a frame is\<close>

text \<open>The unstuffed bytes of a frame, and its recogniser: header, payload and checksum.\<close>

definition frame_head :: "byte \<Rightarrow> byte \<Rightarrow> byte list \<Rightarrow> byte list" where
  "frame_head t s p = t # s # le16 (of_nat (length p)) @ p"

definition frame_bytes :: "byte \<Rightarrow> byte \<Rightarrow> byte list \<Rightarrow> byte list" where
  "frame_bytes t s p = frame_head t s p @ le16 (crc16 (frame_head t s p) 0xFFFF)"

definition frame_wire :: "byte \<Rightarrow> byte \<Rightarrow> byte list \<Rightarrow> byte list" where
  "frame_wire t s p = cobs [] (frame_bytes t s p) @ [kFrameDelimiter]"

definition parse_raw :: "nat \<Rightarrow> byte list \<Rightarrow> (byte \<times> byte \<times> byte list) option" where
  "parse_raw MaxPayload raw =
     (if length raw < 6 then None
      else let n = length raw - 2 in
        if crc16 (take n raw) 0xFFFF = of_le16 (raw ! n) (raw ! (n + 1)) \<and>
           unat (of_le16 (raw ! 2) (raw ! 3)) = n - 4 \<and> n - 4 \<le> MaxPayload
        then Some (raw ! 0, raw ! 1, drop 4 (take n raw)) else None)"

definition decoder_ok :: "nat \<Rightarrow> FrameDecoder \<Rightarrow> bool" where
  "decoder_ok MaxPayload d \<longleftrightarrow>
     length (fd_cobsBuf d) = kMaxCobsSize MaxPayload \<and> fd_cobsLen d \<le> kMaxCobsSize MaxPayload \<and>
     length (fd_payload d) = MaxPayload \<and> fd_payloadLen d \<le> MaxPayload"

lemma length_frame_head [simp]: "length (frame_head t s p) = 4 + length p"
  by (simp add: frame_head_def)

lemma length_frame_bytes [simp]: "length (frame_bytes t s p) = 6 + length p"
  by (simp add: frame_bytes_def)

lemma le16_of_nat: "le16 (of_nat n) = [of_nat (n mod 256), of_nat (n div 256 mod 256)]"
proof -
  have "(ucast (of_nat n :: u16) :: byte) = of_nat (n mod 256)"
    by (rule word_unat_eq_iff [THEN iffD2])
       (simp add: unsigned_ucast_eq unat_of_nat take_bit_eq_mod mod_mod_cancel)
  moreover have "(ucast (drop_bit 8 (of_nat n :: u16)) :: byte) = of_nat (n div 256 mod 256)"
    by (rule word_unat_eq_iff [THEN iffD2])
       (use mod_mult2_eq [of n 256 256] in \<open>simp add: unsigned_ucast_eq unat_of_nat take_bit_eq_mod
         drop_bit_eq_div unat_div\<close>)
  ultimately show ?thesis by (simp add: le16_def)
qed

lemma of_le16_inj: "of_le16 a b = of_le16 a' b' \<longleftrightarrow> a = a' \<and> b = b'"
  by (metis le16_of_le16 list.inject)

lemma of_le16_of_nat:
  "n < 65536 \<Longrightarrow> unat (of_le16 (of_nat (n mod 256)) (of_nat (n div 256 mod 256))) = n"
  using of_le16_le16 [of "of_nat n"] by (simp add: le16_of_nat unat_of_nat take_bit_nat_eq_self)

lemma parse_raw_frame_bytes:
  assumes "length p \<le> MaxPayload" "length p < 65536"
  shows "parse_raw MaxPayload (frame_bytes t s p) = Some (t, s, p)"
proof -
  let ?c = "crc16 (frame_head t s p) 0xFFFF"
  have "frame_bytes t s p ! (4 + length p) = le16 ?c ! 0"
    "frame_bytes t s p ! (4 + length p + 1) = le16 ?c ! 1"
    by (simp_all add: frame_bytes_def nth_append)
  moreover have "take (4 + length p) (frame_bytes t s p) = frame_head t s p"
    by (simp add: frame_bytes_def)
  moreover have "frame_bytes t s p ! 0 = t" "frame_bytes t s p ! 1 = s"
    "frame_bytes t s p ! 2 = of_nat (length p mod 256)"
    "frame_bytes t s p ! 3 = of_nat (length p div 256 mod 256)" "drop 4 (frame_head t s p) = p"
    by (simp_all add: frame_bytes_def frame_head_def le16_of_nat)
  ultimately show ?thesis
    using assms of_le16_le16 [of ?c] of_le16_of_nat [OF assms(2)] by (simp add: parse_raw_def)
qed

lemma parse_rawD:
  assumes "parse_raw MaxPayload raw = Some (t, s, p)"
  shows "raw = frame_bytes t s p \<and> length p \<le> MaxPayload \<and> length p < 65536"
proof -
  let ?n = "length raw - 2"
  have n: "6 \<le> length raw" and crc: "crc16 (take ?n raw) 0xFFFF = of_le16 (raw ! ?n) (raw ! (?n + 1))"
    and pl: "unat (of_le16 (raw ! 2) (raw ! 3)) = ?n - 4" "?n - 4 \<le> MaxPayload"
    and tsp: "t = raw ! 0" "s = raw ! 1" "p = drop 4 (take ?n raw)"
    using assms by (auto simp: parse_raw_def Let_def split: if_splits)
  have len: "length p = ?n - 4" using n tsp by simp
  have "of_nat (length p) = of_le16 (raw ! 2) (raw ! 3)"
    using pl(1) [symmetric] len by simp
  then have "le16 (of_nat (length p)) = [raw ! 2, raw ! 3]"
    by (simp add: le16_of_le16)
  moreover have "take ?n raw = [raw ! 0, raw ! 1, raw ! 2, raw ! 3] @ drop 4 (take ?n raw)"
  proof -
    have "take 4 (take ?n raw) = [raw ! 0, raw ! 1, raw ! 2, raw ! 3]"
      using n by (intro nth_equalityI) (auto simp: less_Suc_eq numeral_eq_Suc)
    then show ?thesis by (metis append_take_drop_id)
  qed
  ultimately have head: "take ?n raw = frame_head t s p"
    using tsp by (simp add: frame_head_def)
  have "length (drop ?n raw) = 2" using n by simp
  then obtain a b where "drop ?n raw = [a, b]"
    unfolding length_2_conv by blast
  then have "drop ?n raw = [raw ! ?n, raw ! (?n + 1)]"
    using nth_drop [of ?n raw 0] nth_drop [of ?n raw 1] n by simp
  then have "raw = take ?n raw @ [raw ! ?n, raw ! (?n + 1)]"
    by (metis append_take_drop_id)
  also have "\<dots> = frame_bytes t s p"
    using head crc le16_of_le16 [of "raw ! ?n" "raw ! (?n + 1)"] by (simp add: frame_bytes_def)
  finally have "raw = frame_bytes t s p" .
  moreover have "length p < 65536"
    using pl(1) len unsigned_less [of "of_le16 (raw ! 2) (raw ! 3)", where 'a = nat] by simp
  ultimately show ?thesis
    using pl(2) len by metis
qed

lemma parse_raw_iff:
  "parse_raw MaxPayload raw = Some (t, s, p) \<longleftrightarrow>
     raw = frame_bytes t s p \<and> length p \<le> MaxPayload \<and> length p < 65536"
  using parse_rawD parse_raw_frame_bytes by blast

section \<open>The encoder writes the frame\<close>

lemma replicate_frame:
  "replicate (kMaxRawSize M) x = [x, x, x, x] @ replicate (2 + M) x"
  by (simp add: kMaxRawSize_def frame_consts numeral_eq_Suc)

lemma drop_zeros: "drop n (0 # 0 # replicate (n + k) 0) = 0 # 0 # replicate k 0"
proof -
  have "0 # 0 # replicate (n + k) 0 = replicate (n + (2 + k)) 0" by simp
  then have "drop n (0 # 0 # replicate (n + k) 0) = replicate (2 + k) 0"
    by (metis add_diff_cancel_left' drop_replicate)
  then show ?thesis by simp
qed

lemma take_head4:
  "take (4 + length p) (a # b # c # d # p @ zs) = a # b # c # d # p"
  "take (6 + length p) (a # b # c # d # p @ e # f # zs) = a # b # c # d # p @ [e, f]"
  by (simp_all add: numeral_eq_Suc)

lemma put_payload_Some:
  assumes "length p \<le> M" "length h = 4"
  shows "put_payload (h @ replicate (2 + M) 0) (Some p) (length p)
     = Some (h @ p @ 0 # 0 # replicate (M - length p) 0, 4 + length p)"
proof -
  obtain k where "M = length p + k" using assms(1) le_Suc_ex by blast
  with assms(2) show ?thesis
    by (auto simp: put_payload_def frame_consts wr_many_Some drop_zeros)
qed

lemma FrameEncoder_encode_frame:
  assumes "length p \<le> MaxPayload" "maxWireSize (length p) \<le> outCap" "outCap \<le> length outBuf"
  shows "\<exists>out'. FrameEncoder_encode MaxPayload t s (Some p) (length p) outBuf outCap
        = Some (length (frame_wire t s p), out') \<and> length out' = length outBuf \<and>
      take (length (frame_wire t s p)) out' = frame_wire t s p"
proof -
  let ?raw = "frame_bytes t s p"
  let ?pre = "t # s # of_nat (length p mod 256) # of_nat (length p div 256 mod 256) # p"
  let ?w = "cobs [] ?raw"
  have head: "frame_head t s p = ?pre"
    by (simp add: frame_head_def le16_of_nat)
  have cap: "cobsMaxEncodedLen (length ?raw) \<le> outCap - 1" "outCap - 1 \<le> length outBuf"
      "\<not> outCap < cobsMaxEncodedLen (kFrameOverhead + length p) + 1"
    using assms by (auto simp: maxWireSize_def rawFrameSize_def frame_consts)
  obtain out1 where o1: "encode ?raw outBuf (outCap - 1) = Some (length ?w, out1)"
      "length out1 = length outBuf" "take (length ?w) out1 = ?w"
    using cobs_codec.enc_ok [OF cap(1,2)] by blast
  have lt: "length ?w < length out1"
    using cobs_codec.stuffed_bound [of ?raw] cap assms(3) o1(2) by linarith
  have raw: "?pre @ [ucast (crc16 ?pre 0xFFFF), ucast (drop_bit 8 (crc16 ?pre 0xFFFF))] = ?raw"
    by (simp add: frame_bytes_def head le16_def)
  have "FrameEncoder_encode MaxPayload t s (Some p) (length p) outBuf outCap
      = Some (Suc (length ?w), out1[length ?w := kFrameDelimiter])"
    using assms(1) cap(3) o1 lt raw cobs_codec.stuffed_nonempty [of ?raw]
      put_payload_Some [OF assms(1), of "[t, s, of_nat (length p mod 256), of_nat (length p div 256 mod 256)]"]
    by (simp add: FrameEncoder_encode_def replicate_frame wr_def nth_append list_update_append
        take_head4 Let_def)
  then show ?thesis
    using o1 lt by (simp add: frame_wire_def take_Suc_update)
qed

lemma frame_wire_body_nonzero: "0 \<notin> set (butlast (frame_wire t s p))"
  using cobs_codec.stuffed_nonzero by (simp add: frame_wire_def)

lemma length_frame_wire: "length (frame_wire t s p) \<le> maxWireSize (length p)"
  using cobs_codec.stuffed_bound [of "frame_bytes t s p"]
  by (simp add: frame_wire_def maxWireSize_def rawFrameSize_def frame_consts)

section \<open>The decoder accepts exactly the frames\<close>

definition unstuffed :: "nat \<Rightarrow> byte list \<Rightarrow> byte list" where
  "unstuffed MaxPayload img =
     (case decode img (replicate (kMaxRawSize MaxPayload) 0) (kMaxRawSize MaxPayload) of
        Some (n, buf) \<Rightarrow> take n buf | None \<Rightarrow> [])"

lemma unstuffed_decode:
  obtains buf where
    "decode img (replicate (kMaxRawSize M) 0) (kMaxRawSize M) = Some (length (unstuffed M img), buf)"
    "length buf = kMaxRawSize M" "take (length (unstuffed M img)) buf = unstuffed M img"
    "length (unstuffed M img) \<le> kMaxRawSize M"
proof -
  obtain n buf where d: "decode img (replicate (kMaxRawSize M) 0) (kMaxRawSize M) = Some (n, buf)"
      "n \<le> kMaxRawSize M" "length buf = kMaxRawSize M"
    using cobs_codec.dec_safe [of "kMaxRawSize M" "replicate (kMaxRawSize M) 0" img] by auto
  then have "unstuffed M img = take n buf" by (simp add: unstuffed_def)
  then show ?thesis using d that [of buf] by simp
qed

lemma unstuffed_stuffed:
  assumes "length raw \<le> kMaxRawSize M"
  shows "unstuffed M (cobs [] raw) = raw"
  using cobs_codec.dec_ok [OF assms, of "replicate (kMaxRawSize M) 0"] by (auto simp: unstuffed_def)

lemma processFrame_raw:
  assumes "decoder_ok M d"
    and d: "decode (take (fd_cobsLen d) (fd_cobsBuf d)) (replicate (kMaxRawSize M) 0)
        (kMaxRawSize M) = Some (length raw, buf)"
      "length buf = kMaxRawSize M" "take (length raw) buf = raw" "length raw \<le> kMaxRawSize M"
  shows "\<exists>r d'. processFrame M d = Some (r, d') \<and> decoder_ok M d' \<and> fd_cobsLen d' = 0 \<and>
     (case parse_raw M raw of
        Some (t, s, p) \<Rightarrow>
          r = FRAME_READY \<and> fd_msgType d' = t \<and> fd_seqNum d' = s \<and> getPayload d' = p
      | None \<Rightarrow> r = DECODER_ERROR \<and> getPayload d' = getPayload d)"
proof -
  let ?n = "length raw - 2"
  show ?thesis
  proof (cases "length raw < 6")
    case True
    then show ?thesis
      using d assms
      by (auto simp: processFrame_def parse_raw_def frame_consts decoder_ok_def getPayload_def)
  next
    case False
    have nth: "buf ! i = raw ! i" if "i < length raw" for i
      using that d(3) nth_take by metis
    have sub: "take ?n buf = take ?n raw"
      using d(3) by (metis diff_le_self min.absorb1 take_take)
    have rds: "rd buf i = Some (raw ! i)" if "i < length raw" for i
      using that nth d by (simp add: rd_def)
    have rd0: "rd buf 0 = Some (raw ! 0)"
      using False by (intro rds) auto
    have drp: "take (?n - 4) (drop 4 buf) = drop 4 (take ?n raw)"
      using arg_cong [OF sub, of "drop 4"] by (simp only: drop_take)
    show ?thesis
    proof (cases "crc16 (take ?n raw) 0xFFFF = of_le16 (raw ! ?n) (raw ! (?n + 1))")
      case crc: True
      show ?thesis
      proof (cases "unat (of_le16 (raw ! 2) (raw ! 3)) = ?n - 4 \<and> ?n - 4 \<le> M")
        case True
        have len: "length raw + (M + 6 - length raw) - 6 = M"
          using True False by linarith
        have "length (fd_payload d) = M" using assms by (simp add: decoder_ok_def)
        then have "wr_many (fd_payload d) 0 (drop 4 (take ?n raw))
           = Some (drop 4 (take ?n raw) @ drop (?n - 4) (fd_payload d))"
          using True False d(4) by (simp add: wr_many_Some)
        then show ?thesis
          using d(1) assms False crc True sub rds rd0 drp len
          by (simp add: processFrame_def parse_raw_def frame_consts decoder_ok_def Let_def getPayload_def)
      next
        case bad: False
        then show ?thesis
          using d(1) assms False crc sub rds rd0
          by (auto simp: processFrame_def parse_raw_def frame_consts decoder_ok_def Let_def getPayload_def)
      qed
    next
      case bad: False
      then show ?thesis
        using d(1) assms False sub rds
        by (simp add: processFrame_def parse_raw_def frame_consts decoder_ok_def Let_def getPayload_def)
    qed
  qed
qed

lemma processFrame_spec:
  assumes "decoder_ok M d"
  shows "\<exists>r d'. processFrame M d = Some (r, d') \<and> decoder_ok M d' \<and> fd_cobsLen d' = 0 \<and>
     (case parse_raw M (unstuffed M (take (fd_cobsLen d) (fd_cobsBuf d))) of
        Some (t, s, p) \<Rightarrow>
          r = FRAME_READY \<and> fd_msgType d' = t \<and> fd_seqNum d' = s \<and> getPayload d' = p
      | None \<Rightarrow> r = DECODER_ERROR \<and> getPayload d' = getPayload d)"
  using unstuffed_decode processFrame_raw [OF assms] by metis

lemma feedByte_ok:
  assumes "decoder_ok M d"
  shows "\<exists>r d'. feedByte M b d = Some (r, d') \<and> decoder_ok M d'"
proof (cases "b = kFrameDelimiter \<and> fd_cobsLen d \<noteq> 0")
  case True
  then show ?thesis using processFrame_spec [OF assms] by (auto simp: feedByte_def)
next
  case False
  then show ?thesis using assms by (auto simp: feedByte_def decoder_ok_def wr_def)
qed

lemma feedBytes_ok:
  assumes "decoder_ok M d"
  shows "\<exists>rs d'. feedBytes M bs d = Some (rs, d') \<and> length rs = length bs \<and> decoder_ok M d'"
  using assms
proof (induction bs arbitrary: d)
  case (Cons b bs)
  obtain r d1 where "feedByte M b d = Some (r, d1)" "decoder_ok M d1"
    using feedByte_ok [OF Cons.prems] by blast
  then show ?case using Cons.IH [of d1] by auto
qed simp

lemma decoder_ok_init: "decoder_ok M (FrameDecoder_init M)"
  by (simp add: decoder_ok_def FrameDecoder_init_def FrameDecoder_reset_def)

text \<open>Bytes of a stuffed body accumulate in the buffer.\<close>

lemma feedByte_body:
  assumes "decoder_ok M d" "b \<noteq> 0" "fd_cobsLen d < kMaxCobsSize M"
  shows "\<exists>d'. feedByte M b d = Some (INCOMPLETE, d') \<and> decoder_ok M d' \<and>
     fd_cobsLen d' = Suc (fd_cobsLen d) \<and>
     take (fd_cobsLen d') (fd_cobsBuf d') = take (fd_cobsLen d) (fd_cobsBuf d) @ [b]"
  using assms
  by (auto simp: feedByte_def kFrameDelimiter_def wr_def decoder_ok_def take_Suc_update)

lemma feedBytes_body:
  assumes "decoder_ok M d" "0 \<notin> set bs" "fd_cobsLen d + length bs \<le> kMaxCobsSize M"
  shows "\<exists>d'. feedBytes M bs d = Some (replicate (length bs) INCOMPLETE, d') \<and> decoder_ok M d' \<and>
     fd_cobsLen d' = fd_cobsLen d + length bs \<and>
     take (fd_cobsLen d') (fd_cobsBuf d') = take (fd_cobsLen d) (fd_cobsBuf d) @ bs"
  using assms
proof (induction bs arbitrary: d)
  case (Cons b bs)
  obtain d1 where "feedByte M b d = Some (INCOMPLETE, d1)" "decoder_ok M d1"
      "fd_cobsLen d1 = Suc (fd_cobsLen d)"
      "take (fd_cobsLen d1) (fd_cobsBuf d1) = take (fd_cobsLen d) (fd_cobsBuf d) @ [b]"
    using feedByte_body [of M d b] Cons.prems by auto
  then show ?case using Cons.IH [of d1] Cons.prems by auto
qed simp

lemma feedBytes_append:
  "feedBytes M (xs @ ys) d = do {
     (rs, d1) \<leftarrow> feedBytes M xs d; (rs', d2) \<leftarrow> feedBytes M ys d1; Some (rs @ rs', d2) }"
  by (induction xs arbitrary: d) (auto simp: bind_eq_Some_conv split: Option.bind_splits)

text \<open>The delimiter empties the accumulation buffer whatever it holds.\<close>

lemma feedByte_delim:
  assumes "decoder_ok M d"
  shows "\<exists>r d'. feedByte M 0 d = Some (r, d') \<and> decoder_ok M d' \<and> fd_cobsLen d' = 0"
proof (cases "fd_cobsLen d = 0")
  case False
  then show ?thesis using processFrame_spec [OF assms] by (auto simp: feedByte_def kFrameDelimiter_def)
qed (use assms in \<open>simp add: feedByte_def kFrameDelimiter_def\<close>)

text \<open>A stuffed body and its delimiter, from a decoder with an empty accumulation buffer, are
  accepted exactly when they are a frame.\<close>

lemma feedBytes_stuffed:
  assumes "decoder_ok M d" "fd_cobsLen d = 0" "length raw \<le> kMaxRawSize M"
  shows "\<exists>r d'. feedBytes M (cobs [] raw @ [0]) d
        = Some (replicate (length (cobs [] raw)) INCOMPLETE @ [r], d') \<and> decoder_ok M d' \<and>
      fd_cobsLen d' = 0 \<and>
      (case parse_raw M raw of
         Some (t, s, p) \<Rightarrow>
           r = FRAME_READY \<and> fd_msgType d' = t \<and> fd_seqNum d' = s \<and> getPayload d' = p
       | None \<Rightarrow> r = DECODER_ERROR)"
proof -
  have cap: "length (cobs [] raw) \<le> kMaxCobsSize M"
    using cobs_codec.stuffed_bound [of raw] assms(3) div_le_mono [OF assms(3), of 254]
    unfolding kMaxCobsSize_def cobsMaxEncodedLen_def by linarith
  obtain d1 where d1: "feedBytes M (cobs [] raw) d = Some (replicate (length (cobs [] raw)) INCOMPLETE, d1)"
      "decoder_ok M d1" "fd_cobsLen d1 = length (cobs [] raw)"
      "take (fd_cobsLen d1) (fd_cobsBuf d1) = cobs [] raw"
    using feedBytes_body [OF assms(1), of "cobs [] raw"] cobs_codec.stuffed_nonzero [of raw] cap assms(2)
    by auto
  have "fd_cobsLen d1 \<noteq> 0" using d1(3) cobs_codec.stuffed_nonempty by simp
  moreover obtain r d' where "processFrame M d1 = Some (r, d')" "decoder_ok M d'" "fd_cobsLen d' = 0"
      "case parse_raw M raw of
         Some (t, s, p) \<Rightarrow>
           r = FRAME_READY \<and> fd_msgType d' = t \<and> fd_seqNum d' = s \<and> getPayload d' = p
       | None \<Rightarrow> r = DECODER_ERROR \<and> getPayload d' = getPayload d1"
    using processFrame_spec [OF d1(2)] unfolding d1(4) unstuffed_stuffed [OF assms(3)] by blast
  ultimately show ?thesis
    using d1(1) by (auto simp: feedBytes_append feedByte_def kFrameDelimiter_def split: option.splits)
qed

section \<open>Where a byte of the frame is on the wire\<close>

text \<open>A byte of the frame that is not zero is transmitted as it is, behind what the bytes before it are encoded to; a zero
  is not transmitted, a code byte stands in its place. Exchanging such a byte for another one changes the wire
  image at this position only.\<close>

definition wire_index :: "byte list \<Rightarrow> nat \<Rightarrow> nat" where
  "wire_index raw i = length (cobs [] (take i raw))"

lemma cobs_cur_update: "k < length cur \<Longrightarrow> cobs (cur[k := a]) bs = (cobs cur bs)[Suc k := a]"
proof (induction cur bs rule: cobs.induct)
  case (2 cur b bs)
  then have "(cur @ [b])[k := a] = cur[k := a] @ [b]" "k < length (cur @ [b])" by (simp_all add: list_update_append1)
  with 2(3) 2(4) show ?case by (simp add: list_update_append1)
qed simp

lemma cobs_update:
  "i < length bs \<Longrightarrow> bs ! i \<noteq> 0 \<Longrightarrow> a \<noteq> 0 \<Longrightarrow>
     cobs cur (bs[i := a]) = (cobs cur bs)[length (cobs cur (take i bs)) := a]"
proof (induction cur bs arbitrary: i rule: cobs.induct)
  case (2 cur b bs)
  show ?case
  proof (cases i)
    case 0
    then show ?thesis
      using 2(4-) cobs_cur_update [of "length cur" "cur @ [b]" a bs] by (simp add: list_update_append)
  next
    case (Suc i')
    then show ?thesis
      using 2(4-) 2(1,2,3) [of i'] by (auto simp: list_update_append)
  qed
qed simp

lemma cobs_length_update: "bs ! i \<noteq> 0 \<Longrightarrow> a \<noteq> 0 \<Longrightarrow> length (cobs cur (bs[i := a])) = length (cobs cur bs)"
  by (cases "i < length bs") (simp_all add: cobs_update list_update_beyond)

lemma cobs_take_less: "i < length bs \<Longrightarrow> bs ! i \<noteq> 0 \<Longrightarrow> length (cobs cur (take i bs)) < length (cobs cur bs)"
proof (induction cur bs arbitrary: i rule: cobs.induct)
  case (2 cur b bs)
  then show ?case
    using length_cobs_ge [of "cur @ [b]" bs] by (cases i) auto
qed simp

lemma wire_update:
  "i < length raw \<Longrightarrow> raw ! i \<noteq> 0 \<Longrightarrow> a \<noteq> 0 \<Longrightarrow>
     cobs [] (raw[i := a]) @ rest = (cobs [] raw @ rest)[wire_index raw i := a]"
  using cobs_update [of i raw a "[]"] cobs_take_less [of i raw "[]"]
  by (simp add: wire_index_def list_update_append)

lemma wire_index_update: "raw ! i \<noteq> 0 \<Longrightarrow> a \<noteq> 0 \<Longrightarrow> i < length raw \<Longrightarrow> wire_index (raw[i := a]) j = wire_index raw j"
  by (cases "i < j") (simp_all add: wire_index_def take_update_swap cobs_length_update list_update_beyond)

section \<open>Corrupted frames\<close>

lemma frame_bytes_eqD:
  assumes "xs @ ys = frame_bytes t s p" "length xs = 4 + length p"
  shows "xs = frame_head t s p \<and> ys = le16 (crc16 xs 0xFFFF)"
  using assms by (auto simp: frame_bytes_def)

lemma frame_split_length:
  assumes "xs @ ys = frame_bytes t s p" "length ys = 2"
  shows "length xs = 4 + length p"
proof -
  have "length (xs @ ys) = 6 + length p" using assms(1) by simp
  with assms(2) show ?thesis by simp
qed

lemma corrupt_head:
  assumes "crc16 xs 0xFFFF \<noteq> crc16 (frame_head t s p) 0xFFFF" "length xs = 4 + length p"
  shows "parse_raw M (xs @ le16 (crc16 (frame_head t s p) 0xFFFF)) = None"
proof (rule ccontr)
  assume "\<not> ?thesis"
  then obtain t' s' p' where "parse_raw M (xs @ le16 (crc16 (frame_head t s p) 0xFFFF)) = Some (t', s', p')"
    by auto
  then have eq: "xs @ le16 (crc16 (frame_head t s p) 0xFFFF) = frame_bytes t' s' p'"
    by (simp add: parse_raw_iff)
  then have "length xs = 4 + length p'"
    by (rule frame_split_length) simp
  with eq have "le16 (crc16 (frame_head t s p) 0xFFFF) = le16 (crc16 xs 0xFFFF)"
    using frame_bytes_eqD by blast
  then have "crc16 (frame_head t s p) 0xFFFF = crc16 xs 0xFFFF"
    by (metis of_le16_le16)
  with assms(1) show False by simp
qed

lemma corrupt_trailer:
  assumes "ys \<noteq> le16 (crc16 (frame_head t s p) 0xFFFF)" "length ys = 2"
  shows "parse_raw M (frame_head t s p @ ys) = None"
proof (rule ccontr)
  assume "\<not> ?thesis"
  then obtain t' s' p' where "parse_raw M (frame_head t s p @ ys) = Some (t', s', p')"
    by auto
  then have eq: "frame_head t s p @ ys = frame_bytes t' s' p'"
    by (simp add: parse_raw_iff)
  then have "length (frame_head t s p) = 4 + length p'"
    using assms(2) by (rule frame_split_length)
  with eq assms(1) show False
    using frame_bytes_eqD by blast
qed

lemma corrupt_one_byte:
  assumes "i < length (frame_bytes t s p)" "b \<noteq> frame_bytes t s p ! i"
  shows "parse_raw M ((frame_bytes t s p)[i := b]) = None"
proof (cases "i < 4 + length p")
  case True
  let ?h = "frame_head t s p"
  have split: "?h[i := b] = take i ?h @ b # drop (Suc i) ?h" "?h = take i ?h @ ?h ! i # drop (Suc i) ?h"
    using True by (simp_all add: upd_conv_take_nth_drop id_take_nth_drop [symmetric])
  have "b \<noteq> ?h ! i"
    using True assms(2) by (simp add: frame_bytes_def nth_append)
  then have "crc16 (?h[i := b]) 0xFFFF \<noteq> crc16 ?h 0xFFFF"
    using crc16_one_byte [of "take i ?h" b "drop (Suc i) ?h" _ "?h ! i"] split by metis
  then show ?thesis
    using corrupt_head [of "?h[i := b]"] True by (simp add: frame_bytes_def list_update_append)
next
  case False
  let ?t = "le16 (crc16 (frame_head t s p) 0xFFFF)"
  let ?j = "i - (4 + length p)"
  have "b \<noteq> ?t ! ?j" "?j < length ?t"
    using False assms by (auto simp: frame_bytes_def nth_append)
  then have "?t[?j := b] \<noteq> ?t"
    by (metis nth_list_update_eq)
  then show ?thesis
    using corrupt_trailer [of "?t[?j := b]"] False by (simp add: frame_bytes_def list_update_append)
qed

lemma corrupt_two_bytes:
  assumes "Suc i < 4 + length p" "a \<noteq> frame_bytes t s p ! i \<or> b \<noteq> frame_bytes t s p ! Suc i"
  shows "parse_raw M ((frame_bytes t s p)[i := a, Suc i := b]) = None"
proof -
  let ?h = "frame_head t s p"
  have d: "drop i ?h = ?h ! i # ?h ! Suc i # drop (Suc (Suc i)) ?h"
    using assms(1) by (simp add: Cons_nth_drop_Suc)
  have "?h = take i ?h @ drop i ?h" by simp
  with d have split: "?h = take i ?h @ ?h ! i # ?h ! Suc i # drop (Suc (Suc i)) ?h" by simp
  have len: "length (take i ?h) = i" using assms(1) by simp
  have upd: "?h[i := a, Suc i := b] = take i ?h @ a # b # drop (Suc (Suc i)) ?h"
    using assms(1) by (subst split) (simp add: list_update_append len)
  have "a \<noteq> ?h ! i \<or> b \<noteq> ?h ! Suc i"
    using assms by (auto simp: frame_bytes_def nth_append)
  then have "crc16 (?h[i := a, Suc i := b]) 0xFFFF \<noteq> crc16 ?h 0xFFFF"
    using crc16_two_bytes [of "take i ?h" a b "drop (Suc (Suc i)) ?h" _ "?h ! i" "?h ! Suc i"] split upd
    by metis
  then show ?thesis
    using corrupt_head [of "?h[i := a, Suc i := b]"] assms(1)
    by (simp add: frame_bytes_def list_update_append)
qed

section \<open>Properties\<close>

definition decoder_ready :: "nat \<Rightarrow> FrameDecoder \<Rightarrow> bool" where
  "decoder_ready M d \<longleftrightarrow> decoder_ok M d \<and> fd_cobsLen d = 0"

lemma decoder_ready_init: "decoder_ready M (FrameDecoder_init M)"
  by (simp add: decoder_ready_def decoder_ok_init)
     (simp add: FrameDecoder_init_def FrameDecoder_reset_def)

text \<open>C7: a message encoded by \<^verbatim>\<open>FrameEncoder::encode\<close> into a buffer of the size \<^verbatim>\<open>maxWireSize\<close> asks for and
  fed byte by byte to a \<^verbatim>\<open>FrameDecoder\<close> with the same \<^verbatim>\<open>MaxPayload\<close> that is between frames is reported
  \<^verbatim>\<open>INCOMPLETE\<close> on every byte but the last, then \<^verbatim>\<open>FRAME_READY\<close> with the same type, sequence number and
  payload; no store leaves its buffer, and the decoder is between frames again.\<close>

theorem frame_roundtrip:
  assumes "decoder_ready M d" "length p \<le> M" "length p < 65536"
    and "maxWireSize (length p) \<le> outCap" "outCap \<le> length outBuf"
  shows "\<exists>n out d'. FrameEncoder_encode M t s (Some p) (length p) outBuf outCap = Some (Suc n, out) \<and>
     feedBytes M (take (Suc n) out) d = Some (replicate n INCOMPLETE @ [FRAME_READY], d') \<and>
     fd_msgType d' = t \<and> fd_seqNum d' = s \<and> getPayload d' = p \<and> decoder_ready M d'"
proof -
  obtain out where out: "FrameEncoder_encode M t s (Some p) (length p) outBuf outCap
        = Some (length (frame_wire t s p), out)"
      "take (length (frame_wire t s p)) out = frame_wire t s p"
    using FrameEncoder_encode_frame [OF assms(2,4,5)] by blast
  have "length (frame_bytes t s p) \<le> kMaxRawSize M"
    using assms(2) by (simp add: kMaxRawSize_def frame_consts)
  then obtain d' where "feedBytes M (frame_wire t s p) d
        = Some (replicate (length (cobs [] (frame_bytes t s p))) INCOMPLETE @ [FRAME_READY], d')"
      "decoder_ready M d'" "fd_msgType d' = t" "fd_seqNum d' = s" "getPayload d' = p"
    using feedBytes_stuffed [of M d "frame_bytes t s p"] assms(1) parse_raw_frame_bytes [OF assms(2,3)]
    by (auto simp: decoder_ready_def frame_wire_def kFrameDelimiter_def)
  moreover have "length (frame_wire t s p) = Suc (length (cobs [] (frame_bytes t s p)))"
    by (simp add: frame_wire_def)
  ultimately show ?thesis using out by auto
qed

theorem frame_roundtrip_witness:
  "\<exists>n out d'. FrameEncoder_encode 8 MT_ACK 5 (Some [1, 0, 2]) (length [1, 0, 2 :: byte]) (replicate 32 0) 32
       = Some (Suc n, out) \<and>
     feedBytes 8 (take (Suc n) out) (FrameDecoder_init 8)
       = Some (replicate n INCOMPLETE @ [FRAME_READY], d') \<and>
     fd_msgType d' = MT_ACK \<and> fd_seqNum d' = 5 \<and> getPayload d' = [1, 0, 2] \<and> decoder_ready 8 d'"
  by (rule frame_roundtrip)
     (simp_all add: decoder_ready_init maxWireSize_def rawFrameSize_def frame_consts cobsMaxEncodedLen_def)

text \<open>C18: whatever a decoder has been fed, it re-synchronises at the next delimiter: after arbitrary
  bytes and one zero byte, the wire image of any frame within \<^verbatim>\<open>MaxPayload\<close> is delivered intact.\<close>

theorem frame_resync:
  assumes "decoder_ok M d" "length p \<le> M" "length p < 65536"
  shows "\<exists>rs d'. feedBytes M (junk @ 0 # frame_wire t s p) d = Some (rs @ [FRAME_READY], d') \<and>
     fd_msgType d' = t \<and> fd_seqNum d' = s \<and> getPayload d' = p"
proof -
  obtain rs1 d1 where d1: "feedBytes M junk d = Some (rs1, d1)" "decoder_ok M d1"
    using feedBytes_ok [OF assms(1)] by blast
  obtain r d2 where d2: "feedByte M 0 d1 = Some (r, d2)" "decoder_ok M d2" "fd_cobsLen d2 = 0"
    using feedByte_delim [OF d1(2)] by blast
  have "length (frame_bytes t s p) \<le> kMaxRawSize M"
    using assms(2) by (simp add: kMaxRawSize_def frame_consts)
  then obtain rs2 d' where "feedBytes M (frame_wire t s p) d2 = Some (rs2 @ [FRAME_READY], d')"
      "fd_msgType d' = t" "fd_seqNum d' = s" "getPayload d' = p"
    using feedBytes_stuffed [OF d2(2,3), of "frame_bytes t s p"] parse_raw_frame_bytes [OF assms(2,3)]
    by (auto simp: frame_wire_def kFrameDelimiter_def)
  then have "feedBytes M (junk @ 0 # frame_wire t s p) d = Some ((rs1 @ r # rs2) @ [FRAME_READY], d')"
    using d1 d2 by (simp add: feedBytes_append)
  then show ?thesis
    using \<open>fd_msgType d' = t\<close> \<open>fd_seqNum d' = s\<close> \<open>getPayload d' = p\<close> by blast
qed

theorem frame_resync_witness:
  "\<exists>rs d'. feedBytes 8 ([7, 0, 9, 9, 3] @ 0 # frame_wire MT_COMMAND 1 [4]) (FrameDecoder_init 8)
      = Some (rs @ [FRAME_READY], d') \<and>
     fd_msgType d' = MT_COMMAND \<and> fd_seqNum d' = 1 \<and> getPayload d' = [4]"
  by (rule frame_resync) (simp_all add: decoder_ok_init)

text \<open>C20: the decoder is memory safe on every input: no byte sequence makes \<^verbatim>\<open>feedByte\<close> store or read
  outside \<^verbatim>\<open>m_cobsBuf\<close>, \<^verbatim>\<open>rawBuf\<close> or \<^verbatim>\<open>m_payload\<close>, every byte gets a result, and the indices stay within
  the buffers.\<close>

theorem decoder_memory_safe:
  "\<exists>rs d. feedBytes M bytes (FrameDecoder_init M) = Some (rs, d) \<and> length rs = length bytes \<and>
     fd_cobsLen d \<le> kMaxCobsSize M \<and> fd_payloadLen d \<le> M \<and> length (getPayload d) = fd_payloadLen d"
  using feedBytes_ok [OF decoder_ok_init, of M bytes] by (auto simp: decoder_ok_def getPayload_def)

text \<open>C17: a frame body between two delimiters is accepted exactly when its unstuffed bytes are a header, a
  payload of the announced length within \<^verbatim>\<open>MaxPayload\<close>, and the checksum of both; otherwise the
  result is \<^verbatim>\<open>ERROR\<close> and the payload seen through the getters is still the previous one.\<close>

theorem decoder_accepts_iff:
  assumes "decoder_ok M d" "fd_cobsLen d \<noteq> 0"
  shows "\<exists>r d'. feedByte M kFrameDelimiter d = Some (r, d') \<and>
     (r = FRAME_READY \<longleftrightarrow> (\<exists>t s p. length p \<le> M \<and> length p < 65536 \<and>
        unstuffed M (take (fd_cobsLen d) (fd_cobsBuf d)) = frame_bytes t s p)) \<and>
     (r \<noteq> FRAME_READY \<longrightarrow> r = DECODER_ERROR \<and> getPayload d' = getPayload d) \<and> fd_cobsLen d' = 0"
proof -
  let ?raw = "unstuffed M (take (fd_cobsLen d) (fd_cobsBuf d))"
  obtain r d' where p: "processFrame M d = Some (r, d')" "fd_cobsLen d' = 0"
    "case parse_raw M ?raw of
       Some (t, s, p) \<Rightarrow>
         r = FRAME_READY \<and> fd_msgType d' = t \<and> fd_seqNum d' = s \<and> getPayload d' = p
     | None \<Rightarrow> r = DECODER_ERROR \<and> getPayload d' = getPayload d"
    using processFrame_spec [OF assms(1)] by blast
  have "(\<exists>t s p. length p \<le> M \<and> length p < 65536 \<and> ?raw = frame_bytes t s p)
      \<longleftrightarrow> (\<exists>t s p. parse_raw M ?raw = Some (t, s, p))"
    by (auto simp: parse_raw_iff)
  moreover have "feedByte M kFrameDelimiter d = Some (r, d')"
    using p(1) assms(2) by (simp add: feedByte_def)
  ultimately show ?thesis
    using p(2,3) by (cases "parse_raw M ?raw") (auto split: option.splits)
qed

theorem decoder_accepts_iff_witness:
  "\<exists>r d'. feedByte 8 kFrameDelimiter
       ((FrameDecoder_init 8)\<lparr>fd_cobsBuf := [2, 1] @ replicate 13 0, fd_cobsLen := 2\<rparr>) = Some (r, d') \<and>
     (r = FRAME_READY \<longleftrightarrow> (\<exists>t s p. length p \<le> 8 \<and> length p < 65536 \<and>
        unstuffed 8 (take 2 ([2, 1] @ replicate 13 0)) = frame_bytes t s p)) \<and>
     (r \<noteq> FRAME_READY \<longrightarrow> r = DECODER_ERROR \<and> getPayload d' = []) \<and> fd_cobsLen d' = 0"
proof -
  let ?d = "(FrameDecoder_init 8)\<lparr>fd_cobsBuf := [2, 1] @ replicate 13 0, fd_cobsLen := 2\<rparr>"
  have "decoder_ok 8 ?d"
    by (simp add: decoder_ok_def FrameDecoder_init_def FrameDecoder_reset_def kMaxCobsSize_def
        kMaxRawSize_def frame_consts cobsMaxEncodedLen_def)
  from decoder_accepts_iff [OF this] show ?thesis
    by (simp add: getPayload_def FrameDecoder_init_def FrameDecoder_reset_def)
qed

text \<open>C19: A transmitted frame in which a data byte of its wire image was changed, to another byte that is not the
  delimiter, is rejected by the decoder, wherever the byte is (header, payload or checksum) and whatever it was changed to;
  the same holds when the wire images of two adjacent bytes of header and payload were changed. (The bytes zero of a frame
  are carried by the code bytes of the stuffing; for those there is no such guarantee, see the example below.)\<close>

theorem corrupted_frame_rejected:
  assumes "decoder_ready M d" "length p \<le> M" "raw = frame_bytes t s p"
    and "(i < length raw \<and> raw ! i \<noteq> 0 \<and> a \<notin> {0, raw ! i} \<and>
            wire' = (frame_wire t s p)[wire_index raw i := a]) \<or>
         (Suc i < 4 + length p \<and> raw ! i \<noteq> 0 \<and> raw ! Suc i \<noteq> 0 \<and> a \<notin> {0, raw ! i} \<and> b \<notin> {0, raw ! Suc i} \<and>
            wire' = (frame_wire t s p)[wire_index raw i := a, wire_index raw (Suc i) := b])"
  shows "\<exists>rs d'. feedBytes M wire' d = Some (rs @ [DECODER_ERROR], d') \<and> FRAME_READY \<notin> set rs \<and> decoder_ready M d'"
proof -
  obtain raw' where raw': "wire' = cobs [] raw' @ [kFrameDelimiter]" "length raw' = length raw" "parse_raw M raw' = None"
    using assms(4)
  proof (elim disjE conjE)
    assume *: "i < length raw" "raw ! i \<noteq> 0" "a \<notin> {0, raw ! i}" "wire' = (frame_wire t s p)[wire_index raw i := a]"
    then have "wire' = cobs [] (raw[i := a]) @ [kFrameDelimiter]"
      using wire_update [of i raw a] assms(3) by (simp add: frame_wire_def)
    with * assms(3) that [of "raw[i := a]"] corrupt_one_byte [of i t s p a M] show thesis by simp
  next
    assume *: "Suc i < 4 + length p" "raw ! i \<noteq> 0" "raw ! Suc i \<noteq> 0" "a \<notin> {0, raw ! i}" "b \<notin> {0, raw ! Suc i}"
      "wire' = (frame_wire t s p)[wire_index raw i := a, wire_index raw (Suc i) := b]"
    then have "wire' = cobs [] (raw[i := a, Suc i := b]) @ [kFrameDelimiter]"
      using wire_update [of i raw a] wire_update [of "Suc i" "raw[i := a]" b] wire_index_update [of raw i a "Suc i"] assms(3)
      by (simp add: frame_wire_def)
    with * assms(3) that [of "raw[i := a, Suc i := b]"] corrupt_two_bytes [of i p a t s b M] show thesis by simp
  qed
  have "length raw' \<le> kMaxRawSize M"
    using raw'(2) assms(2,3) by (simp add: kMaxRawSize_def frame_consts)
  then show ?thesis
    using feedBytes_stuffed [of M d raw'] assms(1) raw'(1,3)
    by (auto simp: decoder_ready_def kFrameDelimiter_def)
qed

text \<open>The payload byte 1, on the wire behind the code byte at index 4, changed to 9.\<close>

theorem corrupted_frame_rejected_witness:
  "\<exists>rs d'. feedBytes 8 ((frame_wire MT_COMMAND 7 [1, 2])[5 := 9]) (FrameDecoder_init 8) = Some (rs @ [DECODER_ERROR], d') \<and>
     FRAME_READY \<notin> set rs \<and> decoder_ready 8 d'"
proof (rule corrupted_frame_rejected [where i = 4 and p = "[1, 2]" and a = 9 and t = MT_COMMAND and s = 7])
  let ?raw = "frame_bytes MT_COMMAND 7 [1, 2]"
  have "wire_index ?raw 4 = 5" "?raw ! 4 = 1"
    by (simp_all add: wire_index_def frame_bytes_def frame_head_def le16_def MT_COMMAND_def numeral_eq_Suc)
  then show "(4 < length ?raw \<and> ?raw ! 4 \<noteq> 0 \<and> 9 \<notin> {0, ?raw ! 4} \<and>
        (frame_wire MT_COMMAND 7 [1, 2])[5 := 9] = (frame_wire MT_COMMAND 7 [1, 2])[wire_index ?raw 4 := 9]) \<or>
      (Suc 4 < 4 + length [1, 2 :: byte] \<and> ?raw ! 4 \<noteq> 0 \<and> ?raw ! Suc 4 \<noteq> 0 \<and> 9 \<notin> {0, ?raw ! 4} \<and>
        b \<notin> {0, ?raw ! Suc 4} \<and> (frame_wire MT_COMMAND 7 [1, 2])[5 := 9] =
          (frame_wire MT_COMMAND 7 [1, 2])[wire_index ?raw 4 := 9, wire_index ?raw (Suc 4) := b])" for b
    by simp
qed (simp_all add: decoder_ready_init)

text \<open>A changed code byte moves the zeros of the frame instead of changing a byte, and the checksum need not notice: this
  one changed byte turns the wire image of a frame into that of another one, which no receiver can tell from it.\<close>

lemma code_byte_corruption:
  "(frame_wire 5 49 [0, 4, 2, 0, 1, 1, 2, 0, 0, 5, 40])[4 := 6] = frame_wire 5 49 [3, 4, 2, 4, 1, 0, 0, 1, 0, 5, 40]"
proof -
  have eight: "(f ^^ 8) x = f (f (f (f (f (f (f (f x)))))))" for f :: "u16 \<Rightarrow> u16" and x
    by (simp add: numeral_eq_Suc)
  have "crc16 [5, 49, 11, 0, 0, 4, 2, 0, 1, 1, 2, 0, 0, 5, 40] 0xFFFF = 0x17A4"
    "crc16 [5, 49, 11, 0, 3, 4, 2, 4, 1, 0, 0, 1, 0, 5, 40] 0xFFFF = 0x17A4"
    by (simp_all add: crc16_def crc16_byte_def eight crc16_bit_def)
  then show ?thesis by (simp add: frame_wire_def frame_bytes_def frame_head_def le16_def kFrameDelimiter_def)
qed

end
