(* ===== verification/LockFreeQueue.thy ===== *)
theory LockFreeQueue
  imports SputPrelude
begin

text \<open>
  \<^verbatim>\<open>include/sputteros/osal/sync/LockFreeQueue.h\<close> (the single-producer single-consumer command ring
  behind \<^verbatim>\<open>IMessageQueue\<close>) and \<^verbatim>\<open>AtomicDoubleBuffer.h\<close>.

  The operations are modelled twice: as whole calls, which the tasks of one core see, and at the
  granularity of their loads, stores and index publications, interleaved in every order between one
  producer and one consumer. The step relation is the sequentially consistent one; the
  acquire/release pairs of the code order exactly the accesses it relies on.

  The locale \<open>bounded_queue\<close> is what clients of \<^verbatim>\<open>ICommandProducer\<close> and \<^verbatim>\<open>ICommandConsumer\<close> rely on.
\<close>

section \<open>The queue\<close>

record 'c lf_queue =
  q_buf :: "'c list"
  q_head :: nat
  q_tail :: nat

definition kSlots :: "nat \<Rightarrow> nat" where
  "kSlots Capacity = Capacity + 1"

definition LockFreeQueue_init :: "nat \<Rightarrow> 'c \<Rightarrow> 'c lf_queue" where
  "LockFreeQueue_init Capacity dflt = \<lparr>q_buf = replicate (kSlots Capacity) dflt, q_head = 0, q_tail = 0\<rparr>"

definition try_push :: "nat \<Rightarrow> 'c \<Rightarrow> 'c lf_queue \<Rightarrow> bool \<times> 'c lf_queue" where
  "try_push Capacity cmd q =
     (let head = q_head q; next = (head + 1) mod kSlots Capacity in
      if next = q_tail q then (False, q)
      else (True, q\<lparr>q_buf := (q_buf q)[head := cmd], q_head := next\<rparr>))"

definition push :: "nat \<Rightarrow> 'c \<Rightarrow> millis \<Rightarrow> 'c lf_queue \<Rightarrow> bool \<times> 'c lf_queue" where
  "push Capacity cmd timeoutMs q = try_push Capacity cmd q"

text \<open>\<open>None\<close> is the result \<^verbatim>\<open>false\<close>, which leaves the caller's command untouched.\<close>

definition try_pop :: "nat \<Rightarrow> 'c lf_queue \<Rightarrow> 'c option \<times> 'c lf_queue" where
  "try_pop Capacity q =
     (let tail = q_tail q in
      if tail = q_head q then (None, q)
      else (Some (q_buf q ! tail), q\<lparr>q_tail := (tail + 1) mod kSlots Capacity\<rparr>))"

definition pop :: "nat \<Rightarrow> millis \<Rightarrow> 'c lf_queue \<Rightarrow> 'c option \<times> 'c lf_queue" where
  "pop Capacity timeoutMs q = try_pop Capacity q"

definition queue_size :: "nat \<Rightarrow> 'c lf_queue \<Rightarrow> nat" where
  "queue_size Capacity q =
     (if q_head q \<ge> q_tail q then q_head q - q_tail q
      else kSlots Capacity - q_tail q + q_head q)"

definition queue_clear :: "'c lf_queue \<Rightarrow> 'c lf_queue" where
  "queue_clear q = q\<lparr>q_tail := q_head q\<rparr>"

section \<open>One producer and one consumer, interleaved\<close>

datatype 'c producer_pc = PIdle | PStore 'c nat | PPublish 'c nat
datatype 'c consumer_pc = CIdle | CRead nat | CPublish 'c nat

text \<open>The shared queue, the two program counters with the locals of \<^verbatim>\<open>try_push\<close> and \<^verbatim>\<open>try_pop\<close>, and the
  histories of the commands whose push, respectively pop, has been published.\<close>

record 'c spsc =
  sp_q :: "'c lf_queue"
  sp_prod :: "'c producer_pc"
  sp_cons :: "'c consumer_pc"
  sp_pushed :: "'c list"
  sp_popped :: "'c list"

inductive spsc_step :: "nat \<Rightarrow> 'c spsc \<Rightarrow> 'c spsc \<Rightarrow> bool" for Capacity where
  push_full: "sp_prod s = PIdle \<Longrightarrow> (q_head (sp_q s) + 1) mod kSlots Capacity = q_tail (sp_q s) \<Longrightarrow>
    spsc_step Capacity s s"
| push_check: "sp_prod s = PIdle \<Longrightarrow> (q_head (sp_q s) + 1) mod kSlots Capacity \<noteq> q_tail (sp_q s) \<Longrightarrow>
    spsc_step Capacity s (s\<lparr>sp_prod := PStore cmd (q_head (sp_q s))\<rparr>)"
| push_store: "sp_prod s = PStore cmd head \<Longrightarrow>
    spsc_step Capacity s (s\<lparr>sp_q := (sp_q s)\<lparr>q_buf := (q_buf (sp_q s))[head := cmd]\<rparr>,
      sp_prod := PPublish cmd head\<rparr>)"
| push_publish: "sp_prod s = PPublish cmd head \<Longrightarrow>
    spsc_step Capacity s (s\<lparr>sp_q := (sp_q s)\<lparr>q_head := (head + 1) mod kSlots Capacity\<rparr>,
      sp_prod := PIdle, sp_pushed := sp_pushed s @ [cmd]\<rparr>)"
| pop_empty: "sp_cons s = CIdle \<Longrightarrow> q_tail (sp_q s) = q_head (sp_q s) \<Longrightarrow> spsc_step Capacity s s"
| pop_check: "sp_cons s = CIdle \<Longrightarrow> q_tail (sp_q s) \<noteq> q_head (sp_q s) \<Longrightarrow>
    spsc_step Capacity s (s\<lparr>sp_cons := CRead (q_tail (sp_q s))\<rparr>)"
| pop_read: "sp_cons s = CRead tail \<Longrightarrow>
    spsc_step Capacity s (s\<lparr>sp_cons := CPublish (q_buf (sp_q s) ! tail) tail\<rparr>)"
| pop_publish: "sp_cons s = CPublish cmd tail \<Longrightarrow>
    spsc_step Capacity s (s\<lparr>sp_q := (sp_q s)\<lparr>q_tail := (tail + 1) mod kSlots Capacity\<rparr>,
      sp_cons := CIdle, sp_popped := sp_popped s @ [cmd]\<rparr>)"

inductive_cases spsc_stepE: "spsc_step Capacity s s'"

definition spsc_init :: "nat \<Rightarrow> 'c \<Rightarrow> 'c spsc" where
  "spsc_init Capacity dflt = \<lparr>sp_q = LockFreeQueue_init Capacity dflt, sp_prod = PIdle,
     sp_cons = CIdle, sp_pushed = [], sp_popped = []\<rparr>"

section \<open>The double buffer\<close>

text \<open>A value occupies several memory cells that are copied one after the other.\<close>

record 'v double_buffer =
  db_buffers0 :: "'v list"
  db_buffers1 :: "'v list"
  db_writeIndex :: nat

definition db_slot :: "'v double_buffer \<Rightarrow> nat \<Rightarrow> 'v list" where
  "db_slot b i = (if i = 0 then db_buffers0 b else db_buffers1 b)"

definition db_set_slot :: "nat \<Rightarrow> 'v list \<Rightarrow> 'v double_buffer \<Rightarrow> 'v double_buffer" where
  "db_set_slot i v b = (if i = 0 then b\<lparr>db_buffers0 := v\<rparr> else b\<lparr>db_buffers1 := v\<rparr>)"

definition db_init :: "'v list \<Rightarrow> 'v double_buffer" where
  "db_init dflt = \<lparr>db_buffers0 = dflt, db_buffers1 = dflt, db_writeIndex = 0\<rparr>"

definition db_write :: "'v list \<Rightarrow> 'v double_buffer \<Rightarrow> 'v double_buffer" where
  "db_write value b =
     (let next = (if db_writeIndex b = 0 then 1 else 0) in
      (db_set_slot next value b)\<lparr>db_writeIndex := next\<rparr>)"

definition db_read :: "'v double_buffer \<Rightarrow> 'v list" where
  "db_read b = db_slot b (db_writeIndex b)"

text \<open>A \<^verbatim>\<open>read()\<close> that copies cell by cell while whole \<^verbatim>\<open>write()\<close> calls happen in between: \<open>ws\<close> gives
  the values written after each cell has been copied.\<close>

fun db_read_cells :: "nat \<Rightarrow> nat \<Rightarrow> nat \<Rightarrow> 'v list list list \<Rightarrow> 'v double_buffer \<Rightarrow> 'v list" where
  "db_read_cells idx i 0 ws b = []"
| "db_read_cells idx i (Suc n) ws b =
     db_slot b idx ! i #
       (case ws of [] \<Rightarrow> db_read_cells idx (Suc i) n [] b
        | vs # ws' \<Rightarrow> db_read_cells idx (Suc i) n ws' (fold db_write vs b))"

definition db_read_during :: "nat \<Rightarrow> 'v list list list \<Rightarrow> 'v double_buffer \<Rightarrow> 'v list" where
  "db_read_during cells ws b = db_read_cells (db_writeIndex b) 0 cells ws b"

text \<open>Sequences of calls, whatever the queue: \<^verbatim>\<open>try_push\<close>, \<^verbatim>\<open>try_pop\<close>, \<^verbatim>\<open>size\<close> and \<^verbatim>\<open>clear\<close> in any order, with what each
  of them returns; and the same calls on a list that holds at most \<open>cap\<close> commands.\<close>

datatype 'c queue_op = QPush 'c | QPop | QSize | QClear
datatype 'c queue_result = Pushed bool | Popped "'c option" | Sized nat | Cleared

fun queue_call :: "('c \<Rightarrow> 'q \<Rightarrow> bool \<times> 'q) \<Rightarrow> ('q \<Rightarrow> 'c option \<times> 'q) \<Rightarrow> ('q \<Rightarrow> nat) \<Rightarrow> ('q \<Rightarrow> 'q) \<Rightarrow>
    'c queue_op \<Rightarrow> 'q \<Rightarrow> 'c queue_result \<times> 'q" where
  "queue_call push_op pop_op size_op clear_op (QPush c) q = map_prod Pushed id (push_op c q)"
| "queue_call push_op pop_op size_op clear_op QPop q = map_prod Popped id (pop_op q)"
| "queue_call push_op pop_op size_op clear_op QSize q = (Sized (size_op q), q)"
| "queue_call push_op pop_op size_op clear_op QClear q = (Cleared, clear_op q)"

fun run_calls :: "('o \<Rightarrow> 'q \<Rightarrow> 'r \<times> 'q) \<Rightarrow> 'o list \<Rightarrow> 'q \<Rightarrow> 'r list \<times> 'q" where
  "run_calls call [] q = ([], q)"
| "run_calls call (oper # opers) q =
     (let (r, q) = call oper q; (rs, q) = run_calls call opers q in (r # rs, q))"

fun list_call :: "nat \<Rightarrow> 'c queue_op \<Rightarrow> 'c list \<Rightarrow> 'c queue_result \<times> 'c list" where
  "list_call cap (QPush c) cs = (if length cs < cap then (Pushed True, cs @ [c]) else (Pushed False, cs))"
| "list_call cap QPop [] = (Popped None, [])"
| "list_call cap QPop (c # cs) = (Popped (Some c), cs)"
| "list_call cap QSize cs = (Sized (length cs), cs)"
| "list_call cap QClear cs = (Cleared, [])"

section \<open>The interface of a bounded queue\<close>

locale bounded_queue =
  fixes inv :: "'q \<Rightarrow> bool"
    and contents :: "'q \<Rightarrow> 'c list"
    and cap :: nat
    and push_op :: "'c \<Rightarrow> 'q \<Rightarrow> bool \<times> 'q"
    and pop_op :: "'q \<Rightarrow> 'c option \<times> 'q"
    and size_op :: "'q \<Rightarrow> nat"
    and clear_op :: "'q \<Rightarrow> 'q"
  assumes length_contents: "inv q \<Longrightarrow> length (contents q) \<le> cap"
    and push_full: "inv q \<Longrightarrow> length (contents q) = cap \<Longrightarrow> push_op c q = (False, q)"
    and push_room: "inv q \<Longrightarrow> length (contents q) < cap \<Longrightarrow>
      \<exists>q'. push_op c q = (True, q') \<and> inv q' \<and> contents q' = contents q @ [c]"
    and pop_empty: "inv q \<Longrightarrow> contents q = [] \<Longrightarrow> pop_op q = (None, q)"
    and pop_some: "inv q \<Longrightarrow> contents q = c # cs \<Longrightarrow>
      \<exists>q'. pop_op q = (Some c, q') \<and> inv q' \<and> contents q' = cs"
    and size_contents: "inv q \<Longrightarrow> size_op q = length (contents q)"
    and clear_ok: "inv q \<Longrightarrow> inv (clear_op q) \<and> contents (clear_op q) = []"
begin

lemma push_iff:
  assumes "inv q"
  shows "\<exists>q'. push_op c q = (length (contents q) < cap, q') \<and> inv q' \<and>
    contents q' = (if length (contents q) < cap then contents q @ [c] else contents q)"
  using push_full [OF assms, of c] push_room [OF assms, of c] length_contents [OF assms] assms
  by (cases "length (contents q) < cap") auto

lemma call_refines:
  assumes "inv q"
  shows "\<exists>q'. queue_call push_op pop_op size_op clear_op oper q = (fst (list_call cap oper (contents q)), q') \<and>
    inv q' \<and> contents q' = snd (list_call cap oper (contents q))"
proof (cases oper)
  case (QPush c)
  then show ?thesis using push_iff [OF assms, of c] by auto
next
  case QPop
  then show ?thesis
    using pop_empty [OF assms] pop_some [OF assms] assms by (cases "contents q") fastforce+
qed (use assms size_contents clear_ok in simp_all)

lemma run_refines:
  assumes "inv q"
  shows "\<exists>q'. run_calls (queue_call push_op pop_op size_op clear_op) opers q
      = (fst (run_calls (list_call cap) opers (contents q)), q') \<and>
    inv q' \<and> contents q' = snd (run_calls (list_call cap) opers (contents q))"
  using assms
proof (induction opers arbitrary: q)
  case (Cons oper opers)
  obtain q1 where q1: "queue_call push_op pop_op size_op clear_op oper q = (fst (list_call cap oper (contents q)), q1)"
      "inv q1" "contents q1 = snd (list_call cap oper (contents q))"
    using call_refines [OF Cons.prems] by blast
  with Cons.IH [OF q1(2)] show ?case by (auto simp: split_beta Let_def)
qed simp

end

section \<open>The ring implements it\<close>

definition queue_ok :: "nat \<Rightarrow> 'c lf_queue \<Rightarrow> bool" where
  "queue_ok Capacity q \<longleftrightarrow>
     length (q_buf q) = kSlots Capacity \<and> q_head q < kSlots Capacity \<and> q_tail q < kSlots Capacity"

definition queue_list :: "'c lf_queue \<Rightarrow> 'c list" where
  "queue_list q = ring_list (q_buf q) (q_head q) (q_tail q)"

lemma queue_ok_init: "queue_ok Capacity (LockFreeQueue_init Capacity d)"
  by (simp add: queue_ok_def LockFreeQueue_init_def kSlots_def)

lemma queue_list_init [simp]: "queue_list (LockFreeQueue_init Capacity d) = []"
  by (simp add: queue_list_def LockFreeQueue_init_def)

lemma queue_full_iff:
  assumes "queue_ok Capacity q"
  shows "Suc (q_head q) mod kSlots Capacity = q_tail q \<longleftrightarrow> length (queue_list q) = Capacity"
  using assms ring_used_full_iff [of "q_head q" "kSlots Capacity" "q_tail q"]
  by (simp add: queue_ok_def queue_list_def kSlots_def)

interpretation lfq: bounded_queue "queue_ok Capacity" queue_list Capacity "try_push Capacity"
  "try_pop Capacity" "queue_size Capacity" queue_clear for Capacity :: nat
proof
  fix q :: "'c lf_queue" and c cs
  assume ok: "queue_ok Capacity q"
  show "length (queue_list q) \<le> Capacity"
    using ok ring_used_less [of "q_head q" "kSlots Capacity" "q_tail q"]
    by (simp add: queue_ok_def queue_list_def kSlots_def)
  show "length (queue_list q) = Capacity \<Longrightarrow> try_push Capacity c q = (False, q)"
    using queue_full_iff [OF ok] by (simp add: try_push_def)
  show "length (queue_list q) < Capacity \<Longrightarrow>
      \<exists>q'. try_push Capacity c q = (True, q') \<and> queue_ok Capacity q' \<and> queue_list q' = queue_list q @ [c]"
    using queue_full_iff [OF ok] ok ring_list_push [of "q_head q" "q_buf q" "q_tail q" c]
    by (simp add: try_push_def queue_ok_def queue_list_def Let_def kSlots_def)
  show "queue_list q = [] \<Longrightarrow> try_pop Capacity q = (None, q)"
    using ok ring_list_empty_iff [of "q_head q" "q_buf q" "q_tail q"]
    by (simp add: try_pop_def queue_ok_def queue_list_def)
  show "queue_list q = c # cs \<Longrightarrow>
      \<exists>q'. try_pop Capacity q = (Some c, q') \<and> queue_ok Capacity q' \<and> queue_list q' = cs"
    using ok ring_list_empty_iff [of "q_head q" "q_buf q" "q_tail q"]
      ring_list_pop [of "q_head q" "q_buf q" "q_tail q"]
    by (auto simp: try_pop_def queue_ok_def queue_list_def Let_def kSlots_def)
  show "queue_size Capacity q = length (queue_list q)"
    using ok by (auto simp: queue_size_def queue_ok_def queue_list_def ring_used_def)
  show "queue_ok Capacity (queue_clear q) \<and> queue_list (queue_clear q) = []"
    using ok by (simp add: queue_clear_def queue_ok_def queue_list_def)
qed

section \<open>Every interleaving is first-in first-out\<close>

definition spsc_inv :: "nat \<Rightarrow> 'c spsc \<Rightarrow> bool" where
  "spsc_inv Capacity s \<longleftrightarrow>
     (let q = sp_q s in
      queue_ok Capacity q \<and> sp_pushed s = sp_popped s @ queue_list q \<and>
      (case sp_prod s of
         PIdle \<Rightarrow> True
       | PStore c h \<Rightarrow> h = q_head q \<and> Suc h mod kSlots Capacity \<noteq> q_tail q
       | PPublish c h \<Rightarrow> h = q_head q \<and> Suc h mod kSlots Capacity \<noteq> q_tail q \<and> q_buf q ! h = c) \<and>
      (case sp_cons s of
         CIdle \<Rightarrow> True
       | CRead t \<Rightarrow> t = q_tail q \<and> q_head q \<noteq> t
       | CPublish c t \<Rightarrow> t = q_tail q \<and> q_head q \<noteq> t \<and> c = q_buf q ! t))"

lemma spsc_inv_init: "spsc_inv Capacity (spsc_init Capacity d)"
  by (simp add: spsc_inv_def spsc_init_def queue_ok_init Let_def)

lemma spsc_inv_store:
  assumes "spsc_inv Capacity s" "sp_prod s = PStore cmd head"
  shows "spsc_inv Capacity (s\<lparr>sp_q := (sp_q s)\<lparr>q_buf := (q_buf (sp_q s))[head := cmd]\<rparr>,
      sp_prod := PPublish cmd head\<rparr>)"
  using assms ring_list_store [of "q_head (sp_q s)" "q_buf (sp_q s)" "q_tail (sp_q s)" cmd]
  by (auto simp: spsc_inv_def Let_def queue_ok_def queue_list_def kSlots_def split: consumer_pc.splits)

lemma spsc_inv_publish_push:
  assumes "spsc_inv Capacity s" "sp_prod s = PPublish cmd head"
  shows "spsc_inv Capacity (s\<lparr>sp_q := (sp_q s)\<lparr>q_head := (head + 1) mod kSlots Capacity\<rparr>,
      sp_prod := PIdle, sp_pushed := sp_pushed s @ [cmd]\<rparr>)"
  using assms ring_list_advance [of "q_head (sp_q s)" "q_buf (sp_q s)" "q_tail (sp_q s)"]
  by (auto simp: spsc_inv_def Let_def queue_ok_def queue_list_def kSlots_def split: consumer_pc.splits)

lemma spsc_inv_publish_pop:
  assumes "spsc_inv Capacity s" "sp_cons s = CPublish cmd tail"
  shows "spsc_inv Capacity (s\<lparr>sp_q := (sp_q s)\<lparr>q_tail := (tail + 1) mod kSlots Capacity\<rparr>,
      sp_cons := CIdle, sp_popped := sp_popped s @ [cmd]\<rparr>)"
  using assms ring_list_pop [of "q_head (sp_q s)" "q_buf (sp_q s)" "q_tail (sp_q s)"]
    ring_next_neq [of "q_head (sp_q s)" "kSlots Capacity" "q_tail (sp_q s)"]
  by (auto simp: spsc_inv_def Let_def queue_ok_def queue_list_def kSlots_def split: producer_pc.splits)

lemma spsc_inv_step:
  assumes "spsc_step Capacity s s'" "spsc_inv Capacity s"
  shows "spsc_inv Capacity s'"
  using assms
proof (cases rule: spsc_step.cases)
  case push_check
  with assms(2) show ?thesis by (simp add: spsc_inv_def Let_def)
next
  case pop_check
  with assms(2) show ?thesis by (auto simp: spsc_inv_def Let_def)
next
  case pop_read
  with assms(2) show ?thesis by (simp add: spsc_inv_def Let_def)
qed (use assms(2) spsc_inv_store spsc_inv_publish_push spsc_inv_publish_pop in auto)

lemma spsc_inv_reachable:
  assumes "(spsc_step Capacity)\<^sup>*\<^sup>* (spsc_init Capacity d) s"
  shows "spsc_inv Capacity s"
  using assms by (induction rule: rtranclp_induct) (auto intro: spsc_inv_init spsc_inv_step)

lemma db_read_cells_one_write:
  assumes "length (concat ws) \<le> 1" "concat ws \<noteq> [] \<longrightarrow> db_writeIndex b = idx" "idx \<in> {0, 1}"
  shows "db_read_cells idx i n ws b = map (\<lambda>k. db_slot b idx ! (i + k)) [0..<n]"
  using assms
proof (induction n arbitrary: i ws b)
  case (Suc n)
  have upt: "[0..<Suc n] = 0 # map Suc [0..<n]"
    by (simp add: upt_conv_Cons map_Suc_upt del: upt_Suc)
  show ?case
  proof (cases ws)
    case Nil
    then show ?thesis using Suc.IH [of "[]" b "Suc i"] Suc.prems by (simp add: upt comp_def del: upt_Suc)
  next
    case ws: (Cons vs ws')
    show ?thesis
    proof (cases vs)
      case Nil
      then show ?thesis
        using Suc.IH [of ws' b "Suc i"] Suc.prems ws by (simp add: upt comp_def del: upt_Suc)
    next
      case (Cons v vs')
      with Suc.prems ws have nil: "vs' = []" "concat ws' = []" and idx: "db_writeIndex b = idx" by auto
      have "db_slot (db_write v b) idx = db_slot b idx"
        using Suc.prems idx by (auto simp: db_write_def db_slot_def db_set_slot_def)
      then have "db_read_cells idx (Suc i) n ws' (db_write v b)
          = map (\<lambda>k. db_slot b idx ! (Suc i + k)) [0..<n]"
        using Suc.IH [of ws' "db_write v b" "Suc i"] Suc.prems(3) nil(2) by (simp del: concat_eq_Nil_conv)
      then show ?thesis
        using Cons ws nil by (simp add: upt comp_def del: upt_Suc)
    qed
  qed
qed simp

section \<open>Properties\<close>

text \<open>C9: \<^verbatim>\<open>LockFreeQueue\<close> refines a bounded first-in first-out list. For every sequence of \<^verbatim>\<open>try_push\<close>, \<^verbatim>\<open>try_pop\<close>,
  \<^verbatim>\<open>size\<close> and \<^verbatim>\<open>clear\<close> calls from the empty queue, of any length, so with the indices wrapping around any number of
  times, every call returns what it returns on a list of at most \<^verbatim>\<open>Capacity\<close> commands, the commands still stored are
  that list's, and both indices stay inside the array.\<close>

theorem queue_fifo:
  "\<exists>q. run_calls (queue_call (try_push Capacity) (try_pop Capacity) (queue_size Capacity) queue_clear) opers
         (LockFreeQueue_init Capacity d) = (fst (run_calls (list_call Capacity) opers []), q) \<and>
     queue_list q = snd (run_calls (list_call Capacity) opers []) \<and>
     length (q_buf q) = Capacity + 1 \<and> q_head q < length (q_buf q) \<and> q_tail q < length (q_buf q)"
  using lfq.run_refines [OF queue_ok_init, of Capacity opers d] by (auto simp: queue_ok_def kSlots_def)

text \<open>C8: with one producer and one consumer running concurrently, in every interleaving of their loads,
  stores and index publications, the published pops are a prefix of the published pushes (no command
  is lost, duplicated, reordered or read before it is complete), and at most \<^verbatim>\<open>Capacity\<close> commands are in
  the queue.\<close>

theorem spsc_fifo:
  assumes "(spsc_step Capacity)\<^sup>*\<^sup>* (spsc_init Capacity d) s"
  shows "sp_pushed s = sp_popped s @ queue_list (sp_q s) \<and>
     length (sp_pushed s) \<le> length (sp_popped s) + Capacity \<and>
     q_head (sp_q s) < length (q_buf (sp_q s)) \<and> q_tail (sp_q s) < length (q_buf (sp_q s))"
proof -
  have inv: "spsc_inv Capacity s" by (rule spsc_inv_reachable [OF assms])
  then have "queue_ok Capacity (sp_q s)" by (simp add: spsc_inv_def Let_def)
  with inv lfq.length_contents [of Capacity "sp_q s"] show ?thesis
    by (auto simp: spsc_inv_def Let_def queue_ok_def)
qed

theorem spsc_fifo_witness:
  "\<exists>s. (spsc_step 1)\<^sup>*\<^sup>* (spsc_init 1 (0 :: nat)) s \<and> sp_pushed s = [5] \<and>
     sp_pushed s = sp_popped s @ queue_list (sp_q s) \<and>
     length (sp_pushed s) \<le> length (sp_popped s) + 1 \<and>
     q_head (sp_q s) < length (q_buf (sp_q s)) \<and> q_tail (sp_q s) < length (q_buf (sp_q s))"
proof -
  let ?s0 = "spsc_init 1 (0 :: nat)"
  let ?s1 = "?s0\<lparr>sp_prod := PStore 5 (q_head (sp_q ?s0))\<rparr>"
  let ?s2 = "?s1\<lparr>sp_q := (sp_q ?s1)\<lparr>q_buf := (q_buf (sp_q ?s1))[0 := 5]\<rparr>, sp_prod := PPublish 5 0\<rparr>"
  let ?s3 = "?s2\<lparr>sp_q := (sp_q ?s2)\<lparr>q_head := (0 + 1) mod kSlots 1\<rparr>, sp_prod := PIdle,
    sp_pushed := sp_pushed ?s2 @ [5]\<rparr>"
  have s1: "spsc_step 1 ?s0 ?s1"
    by (rule push_check) (simp_all add: spsc_init_def LockFreeQueue_init_def kSlots_def)
  have s2: "spsc_step 1 ?s1 ?s2"
    by (rule push_store) (simp add: spsc_init_def LockFreeQueue_init_def)
  have s3: "spsc_step 1 ?s2 ?s3"
    by (rule push_publish) simp
  have r: "(spsc_step 1)\<^sup>*\<^sup>* ?s0 ?s3"
    by (rule converse_rtranclp_into_rtranclp [where r = "spsc_step 1", OF s1], rule converse_rtranclp_into_rtranclp [where r = "spsc_step 1", OF s2],
        rule r_into_rtranclp [where r = "spsc_step 1", OF s3])
  have "sp_pushed ?s3 = [5]" by (simp add: spsc_init_def)
  then show ?thesis
    using r spsc_fifo [OF r] by blast
qed

text \<open>\<^verbatim>\<open>AtomicDoubleBuffer::read\<close> returns the last value written; a read that overlaps at most one
  \<^verbatim>\<open>write\<close> returns, whole, the value published when it began.\<close>

theorem double_buffer_read:
  assumes "db_writeIndex b \<in> {0, 1}" "length (db_read b) = n" "length (concat ws) \<le> 1"
  shows "db_read_during n ws b = db_read b \<and> db_read (db_write v b) = v"
proof -
  have "db_read_during n ws b = map (\<lambda>k. db_slot b (db_writeIndex b) ! (0 + k)) [0..<n]"
    unfolding db_read_during_def by (rule db_read_cells_one_write) (use assms in auto)
  also have "\<dots> = db_read b"
    using assms(2) map_nth [of "db_read b"] by (simp add: db_read_def)
  finally have "db_read_during n ws b = db_read b" .
  moreover have "db_read (db_write v b) = v"
    by (simp add: db_read_def db_write_def db_slot_def db_set_slot_def)
  ultimately show ?thesis by simp
qed

theorem double_buffer_read_witness:
  "db_read_during 2 [[[7, 8]]] (db_write [3, 4] (db_init [0, 0 :: nat])) = [3, 4] \<and>
   db_read (db_write [1, 2] (db_write [3, 4] (db_init [0, 0 :: nat]))) = [1, 2]"
  using double_buffer_read [of "db_write [3, 4] (db_init [0, 0 :: nat])" 2 "[[[7, 8]]]" "[1, 2]"]
  by (simp add: db_write_def db_init_def db_read_def db_slot_def db_set_slot_def)

text \<open>The bound of one overlapping write is needed: when two \<^verbatim>\<open>write\<close> calls complete while a
  two-cell value is being copied, \<^verbatim>\<open>read\<close> can return a mixture that was never written.\<close>

theorem double_buffer_tear:
  "db_read_during 2 [[[5, 6], [7, 8]]] (db_init [1, 2 :: nat]) = [1, 8]"
  by code_simp

end
