(* ===== verification/Float32.thy ===== *)
theory Float32
  imports SputPrelude
begin

text \<open>
  IEEE binary32 arithmetic on bit patterns, round to nearest, ties to even: what the sources use of
  the language's \<^verbatim>\<open>float\<close>. Every finite value is an integer multiple of \<open>2^-150\<close>, so a value is its
  scaled integer and each operation is one rounding of an exact fraction. A not-a-number result is
  the default quiet pattern; the sources never inspect a payload.
\<close>

definition f32_neg :: "f32 \<Rightarrow> bool" where
  "f32_neg x \<longleftrightarrow> bit x 31"

definition f32_expo :: "f32 \<Rightarrow> int" where
  "f32_expo x = uint (drop_bit 23 x AND 0xFF)"

definition f32_mant :: "f32 \<Rightarrow> int" where
  "f32_mant x = uint (x AND 0x7FFFFF)"

definition f32_isnan :: "f32 \<Rightarrow> bool" where
  "f32_isnan x \<longleftrightarrow> f32_expo x = 255 \<and> f32_mant x \<noteq> 0"

definition f32_isinf :: "f32 \<Rightarrow> bool" where
  "f32_isinf x \<longleftrightarrow> f32_expo x = 255 \<and> f32_mant x = 0"

definition f32_isfinite :: "f32 \<Rightarrow> bool" where
  "f32_isfinite x \<longleftrightarrow> f32_expo x \<noteq> 255"

text \<open>The magnitude of a finite value in units of \<open>2^-150\<close>, and the signed value.\<close>

definition f32_mag :: "f32 \<Rightarrow> int" where
  "f32_mag x = (if f32_expo x = 0 then 2 * f32_mant x else (2 ^ 23 + f32_mant x) * 2 ^ nat (f32_expo x))"

definition f32_int :: "f32 \<Rightarrow> int" where
  "f32_int x = (if f32_neg x then - f32_mag x else f32_mag x)"

definition f32_nan :: f32 where "f32_nan = 0x7FC00000"
definition f32_inf :: "bool \<Rightarrow> f32" where "f32_inf neg = (if neg then 0xFF800000 else 0x7F800000)"
definition f32_zero :: "bool \<Rightarrow> f32" where "f32_zero neg = (if neg then 0x80000000 else 0)"

text \<open>Rounding of the fraction \<open>a / b\<close>.\<close>

definition round_he :: "int \<Rightarrow> int \<Rightarrow> int" where
  "round_he a b =
     (let q = a div b; r = a mod b in
      if 2 * r < b then q else if 2 * r > b then q + 1 else if even q then q else q + 1)"

function int_log2 :: "int \<Rightarrow> int" where
  "int_log2 n = (if n < 2 then 0 else 1 + int_log2 (n div 2))"
  by auto
termination
  by (relation "measure nat") auto

declare int_log2.simps [simp del]

definition frac_log2 :: "int \<Rightarrow> int \<Rightarrow> int" where
  "frac_log2 a b =
     (let k = int_log2 a - int_log2 b in
      if a * 2 ^ nat (- k) \<ge> b * 2 ^ nat k then k else k - 1)"

definition f32_round :: "bool \<Rightarrow> int \<Rightarrow> int \<Rightarrow> f32" where
  "f32_round neg a b =
     (if a = 0 then f32_zero neg
      else
        let e = max (frac_log2 a b) (- 126);
            m = round_he (a * 2 ^ nat (23 - e)) (b * 2 ^ nat (e - 23));
            bits = (e + 126) * 2 ^ 23 + m in
        if bits \<ge> 255 * 2 ^ 23 then f32_inf neg
        else (if neg then 0x80000000 else 0) + of_int bits)"

definition f32_of_nat :: "nat \<Rightarrow> f32" where
  "f32_of_nat n = f32_round False (int n) 1"

text \<open>The conversion of an unsigned 64-bit integer.\<close>

definition f32_of_u64 :: "u64 \<Rightarrow> f32" where
  "f32_of_u64 w = f32_round False (uint w) 1"

definition f32_of_u32 :: "u32 \<Rightarrow> f32" where
  "f32_of_u32 w = f32_round False (uint w) 1"

definition f32_of_scaled :: "bool \<Rightarrow> int \<Rightarrow> int \<Rightarrow> f32" where
  "f32_of_scaled neg0 i b = (if i = 0 then f32_zero neg0 else f32_round (i < 0) \<bar>i\<bar> b)"

definition f32_uminus :: "f32 \<Rightarrow> f32" where
  "f32_uminus x = x XOR 0x80000000"

definition f32_add :: "f32 \<Rightarrow> f32 \<Rightarrow> f32" where
  "f32_add x y =
     (if f32_isnan x \<or> f32_isnan y then f32_nan
      else if f32_isinf x then
        (if f32_isinf y \<and> f32_neg x \<noteq> f32_neg y then f32_nan else x)
      else if f32_isinf y then y
      else f32_of_scaled (f32_neg x \<and> f32_neg y) (f32_int x + f32_int y) (2 ^ 150))"

definition f32_sub :: "f32 \<Rightarrow> f32 \<Rightarrow> f32" where
  "f32_sub x y = (if f32_isnan y then f32_nan else f32_add x (f32_uminus y))"

definition f32_mul :: "f32 \<Rightarrow> f32 \<Rightarrow> f32" where
  "f32_mul x y =
     (let neg = (f32_neg x \<noteq> f32_neg y) in
      if f32_isnan x \<or> f32_isnan y then f32_nan
      else if f32_isinf x \<or> f32_isinf y then
        (if f32_isfinite x \<and> f32_mag x = 0 \<or> f32_isfinite y \<and> f32_mag y = 0 then f32_nan
         else f32_inf neg)
      else f32_round neg (f32_mag x * f32_mag y) (2 ^ 300))"

definition f32_div :: "f32 \<Rightarrow> f32 \<Rightarrow> f32" where
  "f32_div x y =
     (let neg = (f32_neg x \<noteq> f32_neg y) in
      if f32_isnan x \<or> f32_isnan y then f32_nan
      else if f32_isinf x then (if f32_isinf y then f32_nan else f32_inf neg)
      else if f32_isinf y then f32_zero neg
      else if f32_mag y = 0 then (if f32_mag x = 0 then f32_nan else f32_inf neg)
      else f32_round neg (f32_mag x) (f32_mag y))"

text \<open>Comparisons, false on not-a-number; infinities compare as the largest magnitudes.\<close>

definition f32_key :: "f32 \<Rightarrow> int" where
  "f32_key x =
     (let m = (if f32_isinf x then 2 ^ 300 else f32_mag x) in if f32_neg x then - m else m)"

definition f32_less :: "f32 \<Rightarrow> f32 \<Rightarrow> bool" where
  "f32_less x y \<longleftrightarrow> \<not> f32_isnan x \<and> \<not> f32_isnan y \<and> f32_key x < f32_key y"

definition f32_le :: "f32 \<Rightarrow> f32 \<Rightarrow> bool" where
  "f32_le x y \<longleftrightarrow> \<not> f32_isnan x \<and> \<not> f32_isnan y \<and> f32_key x \<le> f32_key y"

definition f32_eq :: "f32 \<Rightarrow> f32 \<Rightarrow> bool" where
  "f32_eq x y \<longleftrightarrow> \<not> f32_isnan x \<and> \<not> f32_isnan y \<and> f32_key x = f32_key y"

text \<open>Truncation towards zero of a finite value (the conversions to integer types).\<close>

definition f32_trunc :: "f32 \<Rightarrow> int" where
  "f32_trunc x =
     (let q = f32_mag x div 2 ^ 150 in if f32_neg x then - q else q)"

section \<open>Order\<close>

lemma f32_le_less_iff: "f32_le x y \<longleftrightarrow> f32_less x y \<or> f32_eq x y"
  by (auto simp: f32_le_def f32_less_def f32_eq_def)

lemma f32_less_irrefl: "\<not> f32_less x x"
  by (simp add: f32_less_def)

lemma f32_not_less: "\<not> f32_isnan x \<Longrightarrow> \<not> f32_isnan y \<Longrightarrow> \<not> f32_less x y \<longleftrightarrow> f32_le y x"
  by (auto simp: f32_less_def f32_le_def)

lemma f32_le_trans: "f32_le x y \<Longrightarrow> f32_le y z \<Longrightarrow> f32_le x z"
  by (auto simp: f32_le_def)

lemma f32_lessD: "f32_less x y \<Longrightarrow> \<not> f32_isnan x \<and> \<not> f32_isnan y"
  by (simp add: f32_less_def)

end
