(* ===== verification/Metrics.thy ===== *)
theory Metrics
  imports Float32
begin

text \<open>
  The measurement components the kernel owns: \<^verbatim>\<open>osal/SputterTime.h\<close> (\<^verbatim>\<open>SystemTimer\<close>),
  \<^verbatim>\<open>kernel/metrics/\<close> (\<^verbatim>\<open>TaskTimer\<close>, \<^verbatim>\<open>DeadlineTracker\<close>, \<^verbatim>\<open>CoreUtilizationTracker\<close>,
  \<^verbatim>\<open>SchedulerHealthMetrics\<close>) and \<^verbatim>\<open>utils/QueueDepthMonitor.h\<close>.

  The platform clock is a parameter \<open>clk\<close> that takes the world and returns a reading and the world
  after it; a \<^verbatim>\<open>MicrosecondSource\<close> member is whether that pointer has been set. Counters keep their
  width, so they wrap as in the code.

  The three rolling-window components share one contract, the locale \<open>rolling_window\<close>: they refine a
  window that holds the samples of the current period and of the last complete one.
\<close>

type_synonym 'w clock = "'w \<Rightarrow> micros \<times> 'w"

definition read_source :: "'w clock \<Rightarrow> bool \<Rightarrow> 'w \<Rightarrow> micros \<times> 'w" where
  "read_source clk isSet w = (if isSet then clk w else (0, w))"

section \<open>SystemTimer\<close>

record SystemTimer =
  st_source :: bool
  st_epoch :: micros

definition SystemTimer_init :: SystemTimer where
  "SystemTimer_init = \<lparr>st_source = False, st_epoch = 0\<rparr>"

definition SystemTimer_setClockSource :: "'w clock \<Rightarrow> bool \<Rightarrow> 'w \<Rightarrow> SystemTimer \<Rightarrow> SystemTimer \<times> 'w" where
  "SystemTimer_setClockSource clk src w t =
     (let (e, w) = read_source clk src w in (t\<lparr>st_source := src, st_epoch := e\<rparr>, w))"

definition nowMicros :: "'w clock \<Rightarrow> SystemTimer \<Rightarrow> 'w \<Rightarrow> micros \<times> 'w" where
  "nowMicros clk t w =
     (if st_source t then (let (now, w) = clk w in (now - st_epoch t, w)) else (0, w))"

section \<open>TaskTimer\<close>

definition kHistogramBuckets :: nat where "kHistogramBuckets = 8"
definition kHistogramBucketWidthUs :: micros where "kHistogramBucketWidthUs = 512"
definition kDefaultWindowUs :: micros where "kDefaultWindowUs = 60000000"

record TaskTimer =
  tt_clockSource :: bool
  tt_lastDuration :: micros
  tt_minDuration :: micros
  tt_maxDuration :: micros
  tt_start :: micros
  tt_sumDurationUs :: u64
  tt_sampleCount :: u32
  tt_overrunCount :: u32
  tt_deadlineMissCount :: u32
  tt_histogram :: "u32 list"
  tt_windowUs :: micros
  tt_windowStartUs :: micros
  tt_reportedSampleCount :: u32
  tt_reportedMinDuration :: micros
  tt_reportedMaxDuration :: micros
  tt_reportedAvgUs :: f32
  tt_reportedOverruns :: u32
  tt_reportedMisses :: u32
  tt_reportedHistogram :: "u32 list"

definition TaskTimer_init :: TaskTimer where
  "TaskTimer_init = \<lparr>tt_clockSource = False, tt_lastDuration = 0, tt_minDuration = - 1,
     tt_maxDuration = 0, tt_start = 0, tt_sumDurationUs = 0, tt_sampleCount = 0, tt_overrunCount = 0,
     tt_deadlineMissCount = 0, tt_histogram = replicate kHistogramBuckets 0,
     tt_windowUs = kDefaultWindowUs, tt_windowStartUs = 0, tt_reportedSampleCount = 0,
     tt_reportedMinDuration = - 1, tt_reportedMaxDuration = 0, tt_reportedAvgUs = 0,
     tt_reportedOverruns = 0, tt_reportedMisses = 0,
     tt_reportedHistogram = replicate kHistogramBuckets 0\<rparr>"

definition TaskTimer_setClockSource :: "bool \<Rightarrow> TaskTimer \<Rightarrow> TaskTimer" where
  "TaskTimer_setClockSource src t = t\<lparr>tt_clockSource := src\<rparr>"

definition TaskTimer_setMetricsWindowUs :: "micros \<Rightarrow> TaskTimer \<Rightarrow> TaskTimer" where
  "TaskTimer_setMetricsWindowUs windowUs t = t\<lparr>tt_windowUs := windowUs\<rparr>"

definition TaskTimer_start :: "'w clock \<Rightarrow> TaskTimer \<Rightarrow> 'w \<Rightarrow> TaskTimer \<times> 'w" where
  "TaskTimer_start clk t w =
     (let (now, w) = read_source clk (tt_clockSource t) w in (t\<lparr>tt_start := now\<rparr>, w))"

definition avg_f32 :: "u64 \<Rightarrow> u32 \<Rightarrow> f32" where
  "avg_f32 tot n = (if n > 0 then f32_div (f32_of_u64 tot) (f32_of_u32 n) else 0)"

definition TaskTimer_rotateWindow :: "micros \<Rightarrow> TaskTimer \<Rightarrow> TaskTimer" where
  "TaskTimer_rotateWindow now t =
     t\<lparr>tt_reportedSampleCount := tt_sampleCount t, tt_reportedMinDuration := tt_minDuration t,
       tt_reportedMaxDuration := tt_maxDuration t,
       tt_reportedAvgUs := avg_f32 (tt_sumDurationUs t) (tt_sampleCount t),
       tt_reportedOverruns := tt_overrunCount t, tt_reportedMisses := tt_deadlineMissCount t,
       tt_reportedHistogram := tt_histogram t, tt_histogram := replicate kHistogramBuckets 0,
       tt_minDuration := - 1, tt_maxDuration := 0, tt_sumDurationUs := 0, tt_sampleCount := 0,
       tt_overrunCount := 0, tt_deadlineMissCount := 0, tt_windowStartUs := now\<rparr>"

definition hist_bucket :: "micros \<Rightarrow> nat" where
  "hist_bucket elapsed =
     (let bucket = unat (elapsed div kHistogramBucketWidthUs) in
      if bucket \<ge> kHistogramBuckets then kHistogramBuckets - 1 else bucket)"

text \<open>The part of \<^verbatim>\<open>stop()\<close> that updates the accumulators with one duration.\<close>

definition TaskTimer_add :: "micros \<Rightarrow> TaskTimer \<Rightarrow> TaskTimer" where
  "TaskTimer_add elapsed t =
     (let b = hist_bucket elapsed in
      t\<lparr>tt_lastDuration := elapsed,
        tt_maxDuration := (if elapsed > tt_maxDuration t then elapsed else tt_maxDuration t),
        tt_minDuration := (if elapsed < tt_minDuration t then elapsed else tt_minDuration t),
        tt_sumDurationUs := tt_sumDurationUs t + elapsed,
        tt_sampleCount := tt_sampleCount t + 1,
        tt_histogram := (tt_histogram t)[b := tt_histogram t ! b + 1]\<rparr>)"

definition TaskTimer_stop_at :: "micros \<Rightarrow> TaskTimer \<Rightarrow> TaskTimer" where
  "TaskTimer_stop_at now t =
     (let elapsed = (if now \<ge> tt_start t then now - tt_start t else 0);
          t = TaskTimer_add elapsed t in
      if tt_windowUs t > 0 \<and> now \<ge> tt_windowStartUs t \<and> now - tt_windowStartUs t \<ge> tt_windowUs t
      then TaskTimer_rotateWindow now t else t)"

definition TaskTimer_stop :: "'w clock \<Rightarrow> TaskTimer \<Rightarrow> 'w \<Rightarrow> TaskTimer \<times> 'w" where
  "TaskTimer_stop clk t w =
     (let (now, w) = read_source clk (tt_clockSource t) w in (TaskTimer_stop_at now t, w))"

definition minDuration :: "TaskTimer \<Rightarrow> micros" where
  "minDuration t = (if tt_reportedSampleCount t > 0 then tt_reportedMinDuration t else tt_minDuration t)"

definition maxDuration :: "TaskTimer \<Rightarrow> micros" where
  "maxDuration t = (if tt_reportedSampleCount t > 0 then tt_reportedMaxDuration t else tt_maxDuration t)"

definition getAverageDurationUs :: "TaskTimer \<Rightarrow> f32" where
  "getAverageDurationUs t =
     (if tt_reportedSampleCount t > 0 then tt_reportedAvgUs t
      else if tt_sampleCount t = 0 then 0
      else f32_div (f32_of_u64 (tt_sumDurationUs t)) (f32_of_u32 (tt_sampleCount t)))"

definition TaskTimer_sampleCount :: "TaskTimer \<Rightarrow> u32" where
  "TaskTimer_sampleCount t =
     (if tt_reportedSampleCount t > 0 then tt_reportedSampleCount t else tt_sampleCount t)"

definition isOverBudget :: "micros \<Rightarrow> TaskTimer \<Rightarrow> bool" where
  "isOverBudget budgetUs t \<longleftrightarrow> tt_lastDuration t > budgetUs"

definition overrunCount :: "TaskTimer \<Rightarrow> u32" where
  "overrunCount t = (if tt_reportedSampleCount t > 0 then tt_reportedOverruns t else tt_overrunCount t)"

definition deadlineMissCount :: "TaskTimer \<Rightarrow> u32" where
  "deadlineMissCount t =
     (if tt_reportedSampleCount t > 0 then tt_reportedMisses t else tt_deadlineMissCount t)"

definition recordOverrun :: "TaskTimer \<Rightarrow> TaskTimer" where
  "recordOverrun t = t\<lparr>tt_overrunCount := tt_overrunCount t + 1\<rparr>"

definition recordDeadlineMiss :: "TaskTimer \<Rightarrow> TaskTimer" where
  "recordDeadlineMiss t = t\<lparr>tt_deadlineMissCount := tt_deadlineMissCount t + 1\<rparr>"

definition histogram :: "TaskTimer \<Rightarrow> u32 list" where
  "histogram t = (if tt_reportedSampleCount t > 0 then tt_reportedHistogram t else tt_histogram t)"

text \<open>\<^verbatim>\<open>percentileUs\<close>: the walk over the buckets; \<open>i\<close> is the bucket index, \<open>hs\<close> the remaining counts.\<close>

fun percentile_walk :: "f32 \<Rightarrow> micros \<Rightarrow> nat \<Rightarrow> u32 \<Rightarrow> u32 list \<Rightarrow> micros" where
  "percentile_walk targetRank maxDur i cumulative [] = maxDur"
| "percentile_walk targetRank maxDur i cumulative (h # hs) =
     (let cumulative = cumulative + h in
      if f32_le targetRank (f32_of_u32 cumulative) then
        let prevCumulative = cumulative - h;
            fraction = (if h > 0
              then f32_div (f32_sub targetRank (f32_of_u32 prevCumulative)) (f32_of_u32 h) else 0);
            bucketLow = of_nat i * kHistogramBucketWidthUs;
            bucketHigh = (if i < kHistogramBuckets - 1
              then (of_nat i + 1) * kHistogramBucketWidthUs else maxDur);
            bucketHigh = (if bucketHigh < bucketLow then bucketLow else bucketHigh) in
        bucketLow + of_int (f32_trunc (f32_mul fraction (f32_of_u64 (bucketHigh - bucketLow))))
      else percentile_walk targetRank maxDur (Suc i) cumulative hs)"

definition percentileUs :: "f32 \<Rightarrow> TaskTimer \<Rightarrow> micros" where
  "percentileUs p t =
     (let samples = TaskTimer_sampleCount t; maxDur = maxDuration t in
      if samples = 0 \<or> f32_le p 0 then 0
      else if f32_le (f32_of_nat 1) p then maxDur
      else percentile_walk (f32_mul p (f32_of_u32 samples)) maxDur 0 0 (histogram t))"

definition TaskTimer_reset :: "TaskTimer \<Rightarrow> TaskTimer" where
  "TaskTimer_reset t =
     t\<lparr>tt_lastDuration := 0, tt_minDuration := - 1, tt_maxDuration := 0, tt_sumDurationUs := 0,
       tt_sampleCount := 0, tt_overrunCount := 0, tt_deadlineMissCount := 0,
       tt_histogram := replicate kHistogramBuckets 0, tt_windowStartUs := 0,
       tt_reportedSampleCount := 0, tt_reportedMinDuration := - 1, tt_reportedMaxDuration := 0,
       tt_reportedAvgUs := 0, tt_reportedOverruns := 0, tt_reportedMisses := 0,
       tt_reportedHistogram := replicate kHistogramBuckets 0\<rparr>"

section \<open>DeadlineTracker\<close>

record DeadlineTracker =
  dt_nextActivation :: micros
  dt_periodUs :: micros
  dt_phaseOffsetUs :: micros

definition DeadlineTracker_init :: "micros \<Rightarrow> DeadlineTracker \<Rightarrow> DeadlineTracker" where
  "DeadlineTracker_init startTime d = d\<lparr>dt_nextActivation := startTime + dt_phaseOffsetUs d\<rparr>"

definition isDue :: "micros \<Rightarrow> DeadlineTracker \<Rightarrow> bool" where
  "isDue now d \<longleftrightarrow> now \<ge> dt_nextActivation d"

text \<open>The catch-up loop of \<^verbatim>\<open>advance\<close>, which may not return: \<open>None\<close> is not returning.\<close>

partial_function (option) advance_loop :: "micros \<Rightarrow> micros \<Rightarrow> micros \<Rightarrow> micros option" where
  "advance_loop now periodUs next =
     (if next \<le> now then advance_loop now periodUs (next + periodUs) else Some next)"

definition DeadlineTracker_advance :: "micros \<Rightarrow> DeadlineTracker \<Rightarrow> DeadlineTracker option" where
  "DeadlineTracker_advance now d =
     map_option (\<lambda>n. d\<lparr>dt_nextActivation := n\<rparr>)
       (advance_loop now (dt_periodUs d) (dt_nextActivation d + dt_periodUs d))"

definition timeUntilNext :: "micros \<Rightarrow> DeadlineTracker \<Rightarrow> micros" where
  "timeUntilNext now d =
     (if dt_nextActivation d > now then dt_nextActivation d - now else 0)"

section \<open>CoreUtilizationTracker\<close>

definition kWindowTicks :: u32 where "kWindowTicks = 1000"

record CoreUtilizationTracker =
  cu_tickStart :: micros
  cu_busyUs :: micros
  cu_totalUs :: micros
  cu_tickCount :: u32
  cu_reportedBusyUs :: micros
  cu_reportedTotalUs :: micros
  cu_reportedTicks :: u32

definition CoreUtilizationTracker_init :: CoreUtilizationTracker where
  "CoreUtilizationTracker_init = \<lparr>cu_tickStart = 0, cu_busyUs = 0, cu_totalUs = 0, cu_tickCount = 0,
     cu_reportedBusyUs = 0, cu_reportedTotalUs = 0, cu_reportedTicks = 0\<rparr>"

definition CoreUtilizationTracker_reset :: "CoreUtilizationTracker \<Rightarrow> CoreUtilizationTracker" where
  "CoreUtilizationTracker_reset u =
     u\<lparr>cu_tickStart := 0, cu_busyUs := 0, cu_totalUs := 0, cu_tickCount := 0,
       cu_reportedBusyUs := 0, cu_reportedTotalUs := 0, cu_reportedTicks := 0\<rparr>"

definition recordTickStart :: "micros \<Rightarrow> CoreUtilizationTracker \<Rightarrow> CoreUtilizationTracker" where
  "recordTickStart now u = u\<lparr>cu_tickStart := now\<rparr>"

definition recordTickEnd :: "micros \<Rightarrow> micros \<Rightarrow> CoreUtilizationTracker \<Rightarrow> CoreUtilizationTracker" where
  "recordTickEnd now busyDuration u =
     (let wallTime = (if now \<ge> cu_tickStart u then now - cu_tickStart u else 0);
          u = u\<lparr>cu_busyUs := cu_busyUs u + busyDuration, cu_totalUs := cu_totalUs u + wallTime,
                cu_tickCount := cu_tickCount u + 1\<rparr> in
      if cu_tickCount u \<ge> kWindowTicks then
        u\<lparr>cu_reportedBusyUs := cu_busyUs u, cu_reportedTotalUs := cu_totalUs u,
          cu_reportedTicks := cu_tickCount u, cu_busyUs := 0, cu_totalUs := 0, cu_tickCount := 0\<rparr>
      else u)"

definition getUtilization :: "CoreUtilizationTracker \<Rightarrow> f32" where
  "getUtilization u =
     (let busy = (if cu_reportedTotalUs u > 0 then cu_reportedBusyUs u else cu_busyUs u);
          total = (if cu_reportedTotalUs u > 0 then cu_reportedTotalUs u else cu_totalUs u) in
      if total = 0 then 0 else f32_div (f32_of_u64 busy) (f32_of_u64 total))"

definition getWindowUs :: "CoreUtilizationTracker \<Rightarrow> micros" where
  "getWindowUs u = (if cu_reportedTotalUs u > 0 then cu_reportedTotalUs u else cu_totalUs u)"

definition getBusyUs :: "CoreUtilizationTracker \<Rightarrow> micros" where
  "getBusyUs u = (if cu_reportedTotalUs u > 0 then cu_reportedBusyUs u else cu_busyUs u)"

definition getTickCount :: "CoreUtilizationTracker \<Rightarrow> u32" where
  "getTickCount u = (if cu_reportedTotalUs u > 0 then cu_reportedTicks u else cu_tickCount u)"

section \<open>SchedulerHealthMetrics\<close>

record SchedulerHealthMetrics =
  sh_totalGapUs :: micros
  sh_maxGapUs :: micros
  sh_tickCount :: u32
  sh_totalOverruns :: u32
  sh_totalDeadlineMisses :: u32
  sh_windowUs :: micros
  sh_windowStartUs :: micros
  sh_reportedTotalGapUs :: micros
  sh_reportedMaxGapUs :: micros
  sh_reportedAvgGapUs :: f32
  sh_reportedTickCount :: u32

definition SchedulerHealthMetrics_init :: SchedulerHealthMetrics where
  "SchedulerHealthMetrics_init = \<lparr>sh_totalGapUs = 0, sh_maxGapUs = 0, sh_tickCount = 0,
     sh_totalOverruns = 0, sh_totalDeadlineMisses = 0, sh_windowUs = kDefaultWindowUs,
     sh_windowStartUs = 0, sh_reportedTotalGapUs = 0, sh_reportedMaxGapUs = 0,
     sh_reportedAvgGapUs = 0, sh_reportedTickCount = 0\<rparr>"

definition SchedulerHealthMetrics_setMetricsWindowUs ::
    "micros \<Rightarrow> SchedulerHealthMetrics \<Rightarrow> SchedulerHealthMetrics" where
  "SchedulerHealthMetrics_setMetricsWindowUs windowUs m = m\<lparr>sh_windowUs := windowUs\<rparr>"

definition SchedulerHealthMetrics_rotateWindow ::
    "micros \<Rightarrow> SchedulerHealthMetrics \<Rightarrow> SchedulerHealthMetrics" where
  "SchedulerHealthMetrics_rotateWindow nowUs m =
     m\<lparr>sh_reportedTotalGapUs := sh_totalGapUs m, sh_reportedMaxGapUs := sh_maxGapUs m,
       sh_reportedTickCount := sh_tickCount m,
       sh_reportedAvgGapUs := avg_f32 (sh_totalGapUs m) (sh_tickCount m),
       sh_totalGapUs := 0, sh_maxGapUs := 0, sh_tickCount := 0, sh_windowStartUs := nowUs\<rparr>"

definition recordGap :: "micros \<Rightarrow> micros \<Rightarrow> SchedulerHealthMetrics \<Rightarrow> SchedulerHealthMetrics" where
  "recordGap gapUs nowUs m =
     (let m = m\<lparr>sh_maxGapUs := (if gapUs > sh_maxGapUs m then gapUs else sh_maxGapUs m),
                sh_totalGapUs := sh_totalGapUs m + gapUs, sh_tickCount := sh_tickCount m + 1\<rparr> in
      if sh_windowUs m > 0 \<and> nowUs \<ge> sh_windowStartUs m \<and> nowUs - sh_windowStartUs m \<ge> sh_windowUs m
      then SchedulerHealthMetrics_rotateWindow nowUs m else m)"

definition setAggregates :: "u32 \<Rightarrow> u32 \<Rightarrow> SchedulerHealthMetrics \<Rightarrow> SchedulerHealthMetrics" where
  "setAggregates overruns misses m =
     m\<lparr>sh_totalOverruns := overruns, sh_totalDeadlineMisses := misses\<rparr>"

definition totalGapUs :: "SchedulerHealthMetrics \<Rightarrow> micros" where
  "totalGapUs m = (if sh_reportedTickCount m > 0 then sh_reportedTotalGapUs m else sh_totalGapUs m)"

definition maxGapUs :: "SchedulerHealthMetrics \<Rightarrow> micros" where
  "maxGapUs m = (if sh_reportedTickCount m > 0 then sh_reportedMaxGapUs m else sh_maxGapUs m)"

definition averageGapUs :: "SchedulerHealthMetrics \<Rightarrow> f32" where
  "averageGapUs m =
     (if sh_reportedTickCount m > 0 then sh_reportedAvgGapUs m
      else if sh_tickCount m = 0 then 0
      else f32_div (f32_of_u64 (sh_totalGapUs m)) (f32_of_u32 (sh_tickCount m)))"

definition tickCount :: "SchedulerHealthMetrics \<Rightarrow> u32" where
  "tickCount m = (if sh_reportedTickCount m > 0 then sh_reportedTickCount m else sh_tickCount m)"

definition SchedulerHealthMetrics_reset :: "SchedulerHealthMetrics \<Rightarrow> SchedulerHealthMetrics" where
  "SchedulerHealthMetrics_reset m =
     m\<lparr>sh_totalGapUs := 0, sh_maxGapUs := 0, sh_tickCount := 0, sh_totalOverruns := 0,
       sh_totalDeadlineMisses := 0, sh_windowStartUs := 0, sh_reportedTotalGapUs := 0,
       sh_reportedMaxGapUs := 0, sh_reportedAvgGapUs := 0, sh_reportedTickCount := 0\<rparr>"

section \<open>QueueDepthMonitor\<close>

record QueueDepthMonitor =
  qd_lastDepth :: nat
  qd_maxDepth :: nat
  qd_sumDepth :: u64
  qd_sampleCount :: u32
  qd_windowUs :: micros
  qd_windowStartUs :: micros
  qd_reportedMaxDepth :: nat
  qd_reportedAvgDepth :: f32
  qd_reportedSampleCount :: u32

definition QueueDepthMonitor_init :: QueueDepthMonitor where
  "QueueDepthMonitor_init = \<lparr>qd_lastDepth = 0, qd_maxDepth = 0, qd_sumDepth = 0, qd_sampleCount = 0,
     qd_windowUs = kDefaultWindowUs, qd_windowStartUs = 0, qd_reportedMaxDepth = 0,
     qd_reportedAvgDepth = 0, qd_reportedSampleCount = 0\<rparr>"

definition QueueDepthMonitor_setMetricsWindowUs :: "micros \<Rightarrow> QueueDepthMonitor \<Rightarrow> QueueDepthMonitor" where
  "QueueDepthMonitor_setMetricsWindowUs windowUs m = m\<lparr>qd_windowUs := windowUs\<rparr>"

definition QueueDepthMonitor_rotateWindow :: "micros \<Rightarrow> QueueDepthMonitor \<Rightarrow> QueueDepthMonitor" where
  "QueueDepthMonitor_rotateWindow nowUs m =
     m\<lparr>qd_reportedMaxDepth := qd_maxDepth m, qd_reportedSampleCount := qd_sampleCount m,
       qd_reportedAvgDepth := avg_f32 (qd_sumDepth m) (qd_sampleCount m),
       qd_maxDepth := 0, qd_sumDepth := 0, qd_sampleCount := 0, qd_windowStartUs := nowUs\<rparr>"

definition sample :: "nat \<Rightarrow> micros \<Rightarrow> QueueDepthMonitor \<Rightarrow> QueueDepthMonitor" where
  "sample currentDepth nowUs m =
     (let m = m\<lparr>qd_lastDepth := currentDepth,
                qd_maxDepth := (if currentDepth > qd_maxDepth m then currentDepth else qd_maxDepth m),
                qd_sumDepth := qd_sumDepth m + of_nat currentDepth,
                qd_sampleCount := qd_sampleCount m + 1\<rparr> in
      if qd_windowUs m > 0 \<and> nowUs \<ge> qd_windowStartUs m \<and> nowUs - qd_windowStartUs m \<ge> qd_windowUs m
      then QueueDepthMonitor_rotateWindow nowUs m else m)"

definition maxDepth :: "QueueDepthMonitor \<Rightarrow> nat" where
  "maxDepth m = (if qd_reportedSampleCount m > 0 then qd_reportedMaxDepth m else qd_maxDepth m)"

definition averageDepth :: "QueueDepthMonitor \<Rightarrow> f32" where
  "averageDepth m =
     (if qd_reportedSampleCount m > 0 then qd_reportedAvgDepth m
      else if qd_sampleCount m = 0 then 0
      else f32_div (f32_of_u64 (qd_sumDepth m)) (f32_of_u32 (qd_sampleCount m)))"

definition QueueDepthMonitor_sampleCount :: "QueueDepthMonitor \<Rightarrow> u32" where
  "QueueDepthMonitor_sampleCount m =
     (if qd_reportedSampleCount m > 0 then qd_reportedSampleCount m else qd_sampleCount m)"

definition QueueDepthMonitor_reset :: "QueueDepthMonitor \<Rightarrow> QueueDepthMonitor" where
  "QueueDepthMonitor_reset m =
     m\<lparr>qd_lastDepth := 0, qd_maxDepth := 0, qd_sumDepth := 0, qd_sampleCount := 0,
       qd_windowStartUs := 0, qd_reportedMaxDepth := 0, qd_reportedAvgDepth := 0,
       qd_reportedSampleCount := 0\<rparr>"

section \<open>The abstract rolling window\<close>

text \<open>The samples of the period in progress and of the last complete one, with their times.\<close>

record 's window =
  wn_cur :: "('s \<times> micros) list"
  wn_rep :: "('s \<times> micros) list"
  wn_len :: micros
  wn_start :: micros

definition window_init :: "micros \<Rightarrow> 's window" where
  "window_init len = \<lparr>wn_cur = [], wn_rep = [], wn_len = len, wn_start = 0\<rparr>"

definition window_add :: "'s \<Rightarrow> micros \<Rightarrow> 's window \<Rightarrow> 's window" where
  "window_add x now a =
     (let a = a\<lparr>wn_cur := wn_cur a @ [(x, now)]\<rparr> in
      if wn_len a > 0 \<and> now \<ge> wn_start a \<and> now - wn_start a \<ge> wn_len a
      then a\<lparr>wn_rep := wn_cur a, wn_cur := [], wn_start := now\<rparr> else a)"

definition window_shown :: "'s window \<Rightarrow> ('s \<times> micros) list" where
  "window_shown a = (if wn_rep a \<noteq> [] then wn_rep a else wn_cur a)"

definition window_adds :: "('s \<times> micros) list \<Rightarrow> 's window \<Rightarrow> 's window" where
  "window_adds xs a = fold (\<lambda>(x, now) a. window_add x now a) xs a"

lemma window_adds_Cons: "window_adds ((x, now) # xs) a = window_adds xs (window_add x now a)"
  by (simp add: window_adds_def)

lemma window_add_len: "length (wn_cur (window_add x now a)) \<le> Suc (length (wn_cur a)) \<and>
    length (wn_rep (window_add x now a)) \<le> max (length (wn_rep a)) (Suc (length (wn_cur a)))"
  by (simp add: window_add_def Let_def)

lemma window_adds_len:
  "length (wn_cur (window_adds xs a)) \<le> length (wn_cur a) + length xs \<and>
   length (wn_rep (window_adds xs a)) \<le> max (length (wn_rep a)) (length (wn_cur a) + length xs)"
proof (induction xs arbitrary: a)
  case (Cons y ys)
  obtain x now where y: "y = (x, now)" by fastforce
  show ?case
    using Cons.IH [of "window_add x now a"] window_add_len [of x now a]
    unfolding y window_adds_Cons by auto
qed (simp add: window_adds_def)

text \<open>A component whose operation \<open>add\<close> refines \<open>window_add\<close>.\<close>

locale rolling_window =
  fixes rel :: "'m \<Rightarrow> 's window \<Rightarrow> bool"
    and add :: "'s \<Rightarrow> micros \<Rightarrow> 'm \<Rightarrow> 'm"
    and start :: "micros \<Rightarrow> 'm"
    and count :: "'m \<Rightarrow> u32"
  assumes rel_start: "rel (start len) (window_init len)"
    and rel_add: "rel m a \<Longrightarrow> rel (add x now m) (window_add x now a)"
    and rel_count: "rel m a \<Longrightarrow> length (wn_cur a) < 2 ^ 32 \<Longrightarrow> length (wn_rep a) < 2 ^ 32 \<Longrightarrow>
      count m = of_nat (length (window_shown a))"
begin

lemma rel_adds: "rel m a \<Longrightarrow> rel (fold (\<lambda>(x, now). add x now) xs m) (window_adds xs a)"
proof (induction xs arbitrary: m a)
  case (Cons y ys)
  obtain x now where y: "y = (x, now)" by fastforce
  show ?case
    using Cons.IH [OF rel_add [OF Cons.prems, of x now]] unfolding y window_adds_Cons by simp
qed (simp add: window_adds_def)

lemma rel_run: "rel (fold (\<lambda>(x, now). add x now) xs (start len)) (window_adds xs (window_init len))"
  by (rule rel_adds [OF rel_start])

lemma count_run:
  assumes "length xs < 2 ^ 32"
  shows "unat (count (fold (\<lambda>(x, now). add x now) xs (start len)))
    = length (window_shown (window_adds xs (window_init len)))"
proof -
  let ?a = "window_adds xs (window_init len)"
  have len: "length (wn_cur ?a) < 2 ^ 32" "length (wn_rep ?a) < 2 ^ 32"
    using window_adds_len [of xs "window_init len"] assms by (auto simp: window_init_def)
  then have "length (window_shown ?a) < 2 ^ 32" by (simp add: window_shown_def)
  then show ?thesis
    using rel_count [OF rel_run len] by (simp add: unat_of_nat take_bit_nat_eq_self)
qed

end

section \<open>The components refine it\<close>

lemma of_nat_0_iff_u32:
  assumes "n < 2 ^ 32"
  shows "0 < (of_nat n :: u32) \<longleftrightarrow> n \<noteq> 0"
proof -
  have "(of_nat n :: u32) = 0 \<longleftrightarrow> n = 0"
    using assms nat_dvd_not_less [of n "2 ^ 32"] by (auto simp: word_of_nat_eq_0_iff)
  then show ?thesis by (simp add: word_greater_zero_iff)
qed

text \<open>What the accumulators hold for a list of durations.\<close>

definition dur_max :: "micros list \<Rightarrow> micros" where
  "dur_max ds = fold max ds 0"

definition dur_min :: "micros list \<Rightarrow> micros" where
  "dur_min ds = fold min ds (- 1)"

definition dur_hist :: "micros list \<Rightarrow> u32 list" where
  "dur_hist ds = map (\<lambda>b. of_nat (length (filter (\<lambda>d. hist_bucket d = b) ds))) [0..<kHistogramBuckets]"

lemma dur_snoc [simp]:
  "dur_max (ds @ [d]) = max d (dur_max ds)" "dur_min (ds @ [d]) = min d (dur_min ds)"
  by (simp_all add: dur_max_def dur_min_def)

lemma dur_Nil [simp]: "dur_max [] = 0" "dur_min [] = - 1" "dur_hist [] = replicate kHistogramBuckets 0"
  by (simp_all add: dur_max_def dur_min_def dur_hist_def map_replicate_trivial)

lemma hist_bucket_less: "hist_bucket d < kHistogramBuckets"
  by (simp add: hist_bucket_def kHistogramBuckets_def Let_def)

lemma dur_hist_snoc [simp]:
  "dur_hist (ds @ [d]) = (dur_hist ds)[hist_bucket d := dur_hist ds ! hist_bucket d + 1]"
  using hist_bucket_less [of d]
  by (intro nth_equalityI) (auto simp: dur_hist_def nth_list_update add.commute)

definition tick_dur :: "micros \<times> micros \<Rightarrow> micros" where
  "tick_dur x = (case x of (st, now) \<Rightarrow> if now \<ge> st then now - st else 0)"

definition timer_rel :: "TaskTimer \<Rightarrow> micros window \<Rightarrow> bool" where
  "timer_rel t a \<longleftrightarrow>
     (let ds = map tick_dur (wn_cur a); rs = map tick_dur (wn_rep a) in
      tt_windowUs t = wn_len a \<and> tt_windowStartUs t = wn_start a \<and>
      tt_sampleCount t = of_nat (length ds) \<and> tt_sumDurationUs t = sum_list ds \<and>
      tt_maxDuration t = dur_max ds \<and> tt_minDuration t = dur_min ds \<and> tt_histogram t = dur_hist ds \<and>
      tt_reportedSampleCount t = of_nat (length rs) \<and> tt_reportedMaxDuration t = dur_max rs \<and>
      tt_reportedMinDuration t = dur_min rs \<and> tt_reportedHistogram t = dur_hist rs \<and>
      tt_reportedAvgUs t = avg_f32 (sum_list rs) (of_nat (length rs)))"

text \<open>One tick measured from \<open>st\<close> to \<open>now\<close>.\<close>

definition timer_tick :: "micros \<Rightarrow> micros \<Rightarrow> TaskTimer \<Rightarrow> TaskTimer" where
  "timer_tick st now t = TaskTimer_stop_at now (t\<lparr>tt_start := st\<rparr>)"

lemma timer_rel_push:
  assumes "timer_rel t a"
  shows "timer_rel (TaskTimer_add (tick_dur (st, now)) (t\<lparr>tt_start := st\<rparr>))
    (a\<lparr>wn_cur := wn_cur a @ [(st, now)]\<rparr>)"
proof -
  have max_min: "(if m < d then d else m) = max d m" "(if d < m' then d else m') = min d m'" for d m m' :: micros
    by (auto simp: max_def min_def)
  show ?thesis
    using assms by (simp add: timer_rel_def TaskTimer_add_def Let_def max_min add.commute)
qed

lemma timer_rel_rotate:
  "timer_rel t a \<Longrightarrow>
   timer_rel (TaskTimer_rotateWindow now t) (a\<lparr>wn_rep := wn_cur a, wn_cur := [], wn_start := now\<rparr>)"
  by (simp add: timer_rel_def TaskTimer_rotateWindow_def Let_def)

lemma timer_rel_add:
  assumes "timer_rel t a"
  shows "timer_rel (timer_tick st now t) (window_add st now a)"
proof -
  let ?t = "TaskTimer_add (tick_dur (st, now)) (t\<lparr>tt_start := st\<rparr>)"
  let ?a = "a\<lparr>wn_cur := wn_cur a @ [(st, now)]\<rparr>"
  have "timer_rel ?t ?a" by (rule timer_rel_push [OF assms])
  moreover from this have "tt_windowUs ?t = wn_len ?a" "tt_windowStartUs ?t = wn_start ?a"
    by (simp_all add: timer_rel_def Let_def)
  moreover have "timer_tick st now t =
      (if tt_windowUs ?t > 0 \<and> now \<ge> tt_windowStartUs ?t \<and> now - tt_windowStartUs ?t \<ge> tt_windowUs ?t
       then TaskTimer_rotateWindow now ?t else ?t)"
    by (auto simp: timer_tick_def TaskTimer_stop_at_def tick_dur_def Let_def)
  ultimately show ?thesis
    using timer_rel_rotate [of ?t ?a now] by (simp add: window_add_def Let_def)
qed

interpretation task_timer: rolling_window timer_rel timer_tick
  "\<lambda>len. TaskTimer_setMetricsWindowUs len TaskTimer_init" TaskTimer_sampleCount
proof
  show "timer_rel (TaskTimer_setMetricsWindowUs len TaskTimer_init) (window_init len)" for len
    by (simp add: timer_rel_def TaskTimer_setMetricsWindowUs_def TaskTimer_init_def window_init_def
        avg_f32_def Let_def)
  show "timer_rel m a \<Longrightarrow> timer_rel (timer_tick x now m) (window_add x now a)" for m a x now
    by (rule timer_rel_add)
  fix m a assume "timer_rel m a" "length (wn_cur a) < 2 ^ 32" "length (wn_rep a) < 2 ^ 32"
  then show "TaskTimer_sampleCount m = of_nat (length (window_shown a))"
    by (simp add: timer_rel_def TaskTimer_sampleCount_def window_shown_def of_nat_0_iff_u32 Let_def)
qed

definition health_rel :: "SchedulerHealthMetrics \<Rightarrow> micros window \<Rightarrow> bool" where
  "health_rel m a \<longleftrightarrow>
     (let ds = map fst (wn_cur a); rs = map fst (wn_rep a) in
      sh_windowUs m = wn_len a \<and> sh_windowStartUs m = wn_start a \<and>
      sh_tickCount m = of_nat (length ds) \<and> sh_totalGapUs m = sum_list ds \<and> sh_maxGapUs m = dur_max ds \<and>
      sh_reportedTickCount m = of_nat (length rs) \<and> sh_reportedTotalGapUs m = sum_list rs \<and>
      sh_reportedMaxGapUs m = dur_max rs \<and>
      sh_reportedAvgGapUs m = avg_f32 (sum_list rs) (of_nat (length rs)))"

interpretation scheduler_health: rolling_window health_rel recordGap
  "\<lambda>len. SchedulerHealthMetrics_setMetricsWindowUs len SchedulerHealthMetrics_init" tickCount
proof
  show "health_rel (SchedulerHealthMetrics_setMetricsWindowUs len SchedulerHealthMetrics_init)
      (window_init len)" for len
    by (simp add: health_rel_def SchedulerHealthMetrics_setMetricsWindowUs_def
        SchedulerHealthMetrics_init_def window_init_def avg_f32_def Let_def)
  have max: "(if m < d then d else m) = max d m" for d m :: micros
    by (auto simp: max_def)
  show "health_rel m a \<Longrightarrow> health_rel (recordGap x now m) (window_add x now a)" for m a x now
    by (simp add: health_rel_def recordGap_def window_add_def SchedulerHealthMetrics_rotateWindow_def
        Let_def max add.commute)
  fix m a assume "health_rel m a" "length (wn_cur a) < 2 ^ 32" "length (wn_rep a) < 2 ^ 32"
  then show "tickCount m = of_nat (length (window_shown a))"
    by (simp add: health_rel_def tickCount_def window_shown_def of_nat_0_iff_u32 Let_def)
qed

definition depth_max :: "nat list \<Rightarrow> nat" where
  "depth_max ds = fold max ds 0"

definition depth_rel :: "QueueDepthMonitor \<Rightarrow> nat window \<Rightarrow> bool" where
  "depth_rel m a \<longleftrightarrow>
     (let ds = map fst (wn_cur a); rs = map fst (wn_rep a) in
      qd_windowUs m = wn_len a \<and> qd_windowStartUs m = wn_start a \<and>
      qd_sampleCount m = of_nat (length ds) \<and> qd_sumDepth m = of_nat (sum_list ds) \<and>
      qd_maxDepth m = depth_max ds \<and>
      qd_reportedSampleCount m = of_nat (length rs) \<and> qd_reportedMaxDepth m = depth_max rs \<and>
      qd_reportedAvgDepth m = avg_f32 (of_nat (sum_list rs)) (of_nat (length rs)))"

interpretation queue_depth: rolling_window depth_rel sample
  "\<lambda>len. QueueDepthMonitor_setMetricsWindowUs len QueueDepthMonitor_init" QueueDepthMonitor_sampleCount
proof
  show "depth_rel (QueueDepthMonitor_setMetricsWindowUs len QueueDepthMonitor_init) (window_init len)" for len
    by (simp add: depth_rel_def QueueDepthMonitor_setMetricsWindowUs_def QueueDepthMonitor_init_def
        window_init_def depth_max_def avg_f32_def Let_def)
  have max: "(if m < d then d else m) = max d m" for d m :: nat
    by (auto simp: max_def)
  show "depth_rel m a \<Longrightarrow> depth_rel (sample x now m) (window_add x now a)" for m a x now
    by (simp add: depth_rel_def sample_def window_add_def QueueDepthMonitor_rotateWindow_def
        depth_max_def Let_def max add.commute)
  fix m a assume "depth_rel m a" "length (wn_cur a) < 2 ^ 32" "length (wn_rep a) < 2 ^ 32"
  then show "QueueDepthMonitor_sampleCount m = of_nat (length (window_shown a))"
    by (simp add: depth_rel_def QueueDepthMonitor_sampleCount_def window_shown_def of_nat_0_iff_u32 Let_def)
qed

section \<open>The catch-up loop of the deadline tracker\<close>

text \<open>Distance to the first activation after \<open>now\<close>, counted in periods.\<close>

lemma advance_loop_steps:
  assumes "p > 0" "n \<le> now \<Longrightarrow> n + k * p > now \<and> n + (k - 1) * p \<le> now" "n > now \<Longrightarrow> k = 0"
    and "n + k * p < 2 ^ 64"
  shows "advance_loop (of_nat now) (of_nat p) (of_nat n) = Some (of_nat (n + k * p))"
  using assms
proof (induction k arbitrary: n)
  case 0
  then have gt: "n > now" by (cases "n \<le> now") auto
  with "0.prems" have "\<not> (of_nat n :: micros) \<le> of_nat now"
    by (simp add: word_le_nat_alt unat_of_nat take_bit_nat_eq_self)
  then show ?case by (subst advance_loop.simps) simp
next
  case (Suc k)
  have le: "n \<le> now" using Suc.prems by (cases "n \<le> now") auto
  have small: "n < 2 ^ 64" "now < 2 ^ 64"
    using Suc.prems le by auto
  then have wle: "(of_nat n :: micros) \<le> of_nat now"
    using le by (simp add: word_le_nat_alt unat_of_nat take_bit_nat_eq_self)
  have "n + p \<le> now \<Longrightarrow> (n + p) + k * p > now \<and> (n + p) + (k - 1) * p \<le> now"
    using Suc.prems(2) [OF le] by (cases k) auto
  moreover have "n + p > now \<Longrightarrow> k = 0"
  proof (rule ccontr)
    assume "n + p > now" "k \<noteq> 0"
    then have "n + k * p > now" by (cases k) auto
    with Suc.prems(2) [OF le] show False by simp
  qed
  ultimately have "advance_loop (of_nat now) (of_nat p) (of_nat (n + p)) = Some (of_nat (n + p + k * p))"
    using Suc.IH [of "n + p"] Suc.prems by (simp add: add.assoc)
  then show ?case
    using wle by (subst advance_loop.simps) (simp add: algebra_simps)
qed

lemma periods_ahead:
  fixes n p now :: nat
  assumes "p > 0" "n \<le> now"
  obtains k where "n + k * p > now" "n + (k - 1) * p \<le> now" "n + k * p \<le> now + p" "k > 0"
proof -
  define q r where "q = (now - n) div p" and "r = (now - n) mod p"
  have "now - n = q * p + r" "r < p"
    using assms(1) by (simp_all add: q_def r_def)
  then have "n + Suc q * p > now" "n + (Suc q - 1) * p \<le> now" "n + Suc q * p \<le> now + p"
    using assms(2) by auto
  then show ?thesis using that [of "Suc q"] by simp
qed

lemma advance_loop_ok:
  assumes "0 < unat p" "unat now + unat p < 2 ^ 64" "unat n \<le> unat now + unat p"
  shows "\<exists>r k. advance_loop now p n = Some r \<and> unat r = unat n + k * unat p \<and>
    unat now < unat r \<and> unat r \<le> unat now + unat p"
proof (cases "unat n \<le> unat now")
  case True
  obtain k where k: "unat n + k * unat p > unat now" "unat n + (k - 1) * unat p \<le> unat now"
      "unat n + k * unat p \<le> unat now + unat p"
    using periods_ahead [OF assms(1) True] by blast
  have lt: "unat n + k * unat p < 2 ^ 64" using k(3) assms(2) by linarith
  then have "advance_loop (of_nat (unat now)) (of_nat (unat p)) (of_nat (unat n))
      = Some (of_nat (unat n + k * unat p))"
    using advance_loop_steps [of "unat p" "unat n" "unat now" k] assms(1) k(1,2) True by simp
  moreover have "unat (of_nat (unat n + k * unat p) :: micros) = unat n + k * unat p"
    using lt by (simp only: unat_of_nat) (simp add: take_bit_nat_eq_self)
  moreover have "of_nat (unat now) = now" "of_nat (unat p) = p" "of_nat (unat n) = n"
    by simp_all
  ultimately show ?thesis
    using k by metis
next
  case False
  then have "advance_loop now p n = Some n"
    by (subst advance_loop.simps) (simp add: word_le_nat_alt)
  then show ?thesis using False assms(3) by auto
qed

text \<open>A zero period: the loop does not return.\<close>

lemma advance_loop_zero_aux:
  assumes "advance_loop now p n = Some r"
  shows "p = 0 \<longrightarrow> n > now"
  by (rule advance_loop.raw_induct [OF _ assms]) (auto split: if_splits)

section \<open>Properties\<close>

lemma fold_max_word: "ds \<noteq> [] \<Longrightarrow> dur_max ds = Max (set ds)"
proof (induction ds rule: rev_nonempty_induct)
  case (snoc x xs)
  then show ?case by (simp add: Max_insert)
qed (simp add: dur_max_def max_def)

lemma fold_min_word: "ds \<noteq> [] \<Longrightarrow> dur_min ds = Min (set ds)"
proof (induction ds rule: rev_nonempty_induct)
  case (snoc x xs)
  then show ?case by (simp add: Min_insert)
next
  case (single x)
  have "x \<le> - 1" by (rule word_n1_ge)
  then show ?case by (simp add: dur_min_def min_def)
qed

lemma sum_list_buckets:
  assumes "\<And>d. d \<in> set ds \<Longrightarrow> f d < n"
  shows "(\<Sum>b\<leftarrow>[0..<n]. length (filter (\<lambda>d. f d = b) ds)) = length ds"
  using assms
proof (induction ds)
  case (Cons d ds)
  have "(\<Sum>b\<leftarrow>[0..<n]. if f d = b then 1 else 0) = (1::nat)"
    using Cons.prems [of d] by (simp add: sum_list_map_eq_sum_count2 interv_sum_list_conv_sum_set_nat)
  moreover have "(\<lambda>b. length (filter (\<lambda>d. f d = b) (d # ds)))
      = (\<lambda>b. (if f d = b then 1 else 0) + length (filter (\<lambda>d. f d = b) ds))"
    by auto
  ultimately show ?case using Cons by (simp only: sum_list_addf) simp
qed simp

text \<open>C30: \<^verbatim>\<open>TaskTimer\<close> statistics are exact. After any ticks (fewer than \<open>2^32\<close>) on a timer with any window
  length, the getters describe the durations of the last complete window, or of the window in
  progress when none is complete: their number, their maximum and minimum, and for each of the eight
  buckets how many fall into it, which add up to the number of samples.\<close>

theorem timer_statistics:
  assumes "length ticks < 2 ^ 32"
    and "t = fold (\<lambda>(st, now). timer_tick st now) ticks (TaskTimer_setMetricsWindowUs len TaskTimer_init)"
    and "ds = map tick_dur (window_shown (window_adds ticks (window_init len)))"
  shows "unat (TaskTimer_sampleCount t) = length ds \<and>
     (ds \<noteq> [] \<longrightarrow> maxDuration t = Max (set ds) \<and> minDuration t = Min (set ds)) \<and>
     (\<forall>b < kHistogramBuckets. unat (histogram t ! b) = length (filter (\<lambda>d. hist_bucket d = b) ds)) \<and>
     (\<Sum>b\<leftarrow>[0..<kHistogramBuckets]. unat (histogram t ! b)) = unat (TaskTimer_sampleCount t)"
proof -
  let ?a = "window_adds ticks (window_init len)"
  have rel: "timer_rel t ?a" using task_timer.rel_run assms(2) by simp
  have len: "length (wn_cur ?a) < 2 ^ 32" "length (wn_rep ?a) < 2 ^ 32"
    using window_adds_len [of ticks "window_init len"] assms(1) by (auto simp: window_init_def)
  have rep: "0 < tt_reportedSampleCount t \<longleftrightarrow> wn_rep ?a \<noteq> []"
    using rel len(2) by (simp add: timer_rel_def Let_def of_nat_0_iff_u32)
  have count: "unat (TaskTimer_sampleCount t) = length ds"
    using task_timer.count_run [OF assms(1), of len] assms(2,3) by simp
  have shown: "maxDuration t = dur_max ds" "minDuration t = dur_min ds" "histogram t = dur_hist ds"
    using rel rep by (simp_all add: timer_rel_def Let_def maxDuration_def minDuration_def histogram_def
        window_shown_def assms(3))
  have bucket: "unat (histogram t ! b) = length (filter (\<lambda>d. hist_bucket d = b) ds)"
    if "b < kHistogramBuckets" for b
  proof -
    have "length (filter (\<lambda>d. hist_bucket d = b) ds) < 2 ^ 32"
      by (rule le_less_trans [OF length_filter_le]) (use len in \<open>simp add: assms(3) window_shown_def\<close>)
    then show ?thesis
      using that by (simp add: shown dur_hist_def unat_of_nat take_bit_nat_eq_self)
  qed
  have "map (\<lambda>b. unat (histogram t ! b)) [0..<kHistogramBuckets]
      = map (\<lambda>b. length (filter (\<lambda>d. hist_bucket d = b) ds)) [0..<kHistogramBuckets]"
    by (rule map_upt_cong) (rule bucket)
  then have "(\<Sum>b\<leftarrow>[0..<kHistogramBuckets]. unat (histogram t ! b)) = length ds"
    using sum_list_buckets [of ds hist_bucket kHistogramBuckets] hist_bucket_less by metis
  then show ?thesis
    using count bucket shown fold_max_word [of ds] fold_min_word [of ds] by simp
qed

theorem timer_statistics_witness:
  "\<exists>t ds. t = fold (\<lambda>(st, now). timer_tick st now) [(10, 30), (50, 2000)]
       (TaskTimer_setMetricsWindowUs 0 TaskTimer_init) \<and> ds = [20, 1950] \<and>
     unat (TaskTimer_sampleCount t) = length ds \<and>
     (ds \<noteq> [] \<longrightarrow> maxDuration t = Max (set ds) \<and> minDuration t = Min (set ds)) \<and>
     (\<forall>b < kHistogramBuckets. unat (histogram t ! b) = length (filter (\<lambda>d. hist_bucket d = b) ds)) \<and>
     (\<Sum>b\<leftarrow>[0..<kHistogramBuckets]. unat (histogram t ! b)) = unat (TaskTimer_sampleCount t)"
proof -
  have "[20, 1950] = map tick_dur (window_shown (window_adds [(10, 30), (50, 2000)] (window_init 0)))"
    by (simp add: window_adds_def window_add_def window_init_def window_shown_def tick_dur_def)
  from timer_statistics [OF _ refl this] show ?thesis by auto
qed

text \<open>\<^verbatim>\<open>DeadlineTracker::advance\<close> returns for every non-zero period that does not overflow the 64-bit
  clock, and then the next activation lies strictly after \<^verbatim>\<open>now\<close>, at most one period later, on the grid
  of periods of the old activation (at least one of them ahead); the task is then not due.\<close>

theorem advance_next_activation:
  assumes "0 < dt_periodUs d" "unat now + unat (dt_periodUs d) < 2 ^ 64" "isDue now d"
  shows "\<exists>d' k. DeadlineTracker_advance now d = Some d' \<and> 0 < k \<and>
     unat (dt_nextActivation d') = unat (dt_nextActivation d) + k * unat (dt_periodUs d) \<and>
     unat now < unat (dt_nextActivation d') \<and>
     unat (dt_nextActivation d') \<le> unat now + unat (dt_periodUs d) \<and> \<not> isDue now d'"
proof -
  let ?n = "dt_nextActivation d" and ?p = "dt_periodUs d"
  have p: "0 < unat ?p" using assms(1) by (simp add: word_less_nat_alt)
  have due: "unat ?n \<le> unat now" using assms(3) by (simp add: isDue_def word_le_nat_alt)
  have add: "unat (?n + ?p) = unat ?n + unat ?p"
    using due assms(2) by (simp add: unat_plus_simple [THEN iffD1] no_olen_add_nat)
  obtain r k where "advance_loop now ?p (?n + ?p) = Some r"
      "unat r = unat (?n + ?p) + k * unat ?p" "unat now < unat r" "unat r \<le> unat now + unat ?p"
    using advance_loop_ok [OF p assms(2), of "?n + ?p"] due add by auto
  then show ?thesis
    using add by (intro exI [of _ "d\<lparr>dt_nextActivation := r\<rparr>"] exI [of _ "Suc k"])
      (simp add: DeadlineTracker_advance_def isDue_def word_le_nat_alt)
qed

theorem advance_next_activation_witness:
  "\<exists>d' k. DeadlineTracker_advance 1000 \<lparr>dt_nextActivation = 100, dt_periodUs = 250, dt_phaseOffsetUs = 0\<rparr>
       = Some d' \<and> 0 < k \<and>
     unat (dt_nextActivation d') = unat (100 :: micros) + k * unat (250 :: micros) \<and>
     unat (1000 :: micros) < unat (dt_nextActivation d') \<and>
     unat (dt_nextActivation d') \<le> unat (1000 :: micros) + unat (250 :: micros) \<and> \<not> isDue 1000 d'"
  using advance_next_activation
    [of "\<lparr>dt_nextActivation = 100, dt_periodUs = 250, dt_phaseOffsetUs = 0\<rparr>" 1000]
  by (simp add: isDue_def)

text \<open>With a zero period \<^verbatim>\<open>DeadlineTracker::advance\<close> of a task that is due never returns.\<close>

theorem advance_zero_period_diverges:
  assumes "dt_periodUs d = 0" "isDue now d"
  shows "DeadlineTracker_advance now d = None"
  using advance_loop_zero_aux [of now 0 "dt_nextActivation d"] assms
  by (cases "advance_loop now 0 (dt_nextActivation d)") (auto simp: DeadlineTracker_advance_def isDue_def)

theorem advance_zero_period_diverges_witness:
  "DeadlineTracker_advance 5 \<lparr>dt_nextActivation = 3, dt_periodUs = 0, dt_phaseOffsetUs = 0\<rparr> = None"
  by (rule advance_zero_period_diverges) (simp_all add: isDue_def)

end
