(* ===== verification/Sync.thy ===== *)
theory Sync
  imports SputPrelude
begin

text \<open>
  \<^verbatim>\<open>osal/sync/MultiCoreSync.h\<close> (startup and shutdown barriers), its single-core stub
  \<^verbatim>\<open>NoOpMultiCoreSync\<close> of \<^verbatim>\<open>kernel/System.h\<close>, and \<^verbatim>\<open>osal/sync/WatchdogSync.h\<close> (heartbeats).

  What the other cores do while a core is inside a barrier is the argument \<open>peers\<close>: \<open>peers k\<close> changes
  the vector of core states before the \<open>k\<close>-th atomic load from it. The queries \<^verbatim>\<open>anyError\<close>, \<^verbatim>\<open>allInState\<close> and
  \<^verbatim>\<open>allTerminated\<close> load the states one core after the other, so that every other core may move between two loads
  of one query; they return the number of the next load with their result. The calls of the error handler are
  recorded in order. \<^verbatim>\<open>pollDelay\<close> is a pure delay.
\<close>

section \<open>MultiCoreSync\<close>

datatype CoreState = UNBORN | INIT | READY | CORE_ERROR | CORE_SHUTDOWN

fun core_state_num :: "CoreState \<Rightarrow> nat" where
  "core_state_num UNBORN = 0"
| "core_state_num INIT = 1"
| "core_state_num READY = 2"
| "core_state_num CORE_ERROR = 3"
| "core_state_num CORE_SHUTDOWN = 4"

record MultiCoreSync =
  mc_states :: "CoreState list"
  mc_errorHandler :: bool
  mc_calls :: "(nat \<times> string) list"

definition MultiCoreSync_init :: "nat \<Rightarrow> bool \<Rightarrow> MultiCoreSync" where
  "MultiCoreSync_init N_CORES handler =
     \<lparr>mc_states = replicate N_CORES UNBORN, mc_errorHandler = handler, mc_calls = []\<rparr>"

definition set_state :: "nat \<Rightarrow> CoreState \<Rightarrow> MultiCoreSync \<Rightarrow> MultiCoreSync" where
  "set_state coreId st m = m\<lparr>mc_states := (mc_states m)[coreId := st]\<rparr>"

definition setInit :: "nat \<Rightarrow> MultiCoreSync \<Rightarrow> MultiCoreSync" where
  "setInit coreId = set_state coreId INIT"

definition setReady :: "nat \<Rightarrow> MultiCoreSync \<Rightarrow> MultiCoreSync" where
  "setReady coreId = set_state coreId READY"

definition setError :: "nat \<Rightarrow> string \<Rightarrow> MultiCoreSync \<Rightarrow> MultiCoreSync" where
  "setError coreId reason m =
     (let m = set_state coreId CORE_ERROR m in
      if mc_errorHandler m then m\<lparr>mc_calls := mc_calls m @ [(coreId, reason)]\<rparr> else m)"

definition setShutdown :: "nat \<Rightarrow> MultiCoreSync \<Rightarrow> MultiCoreSync" where
  "setShutdown coreId = set_state coreId CORE_SHUTDOWN"

definition peer_step :: "(nat \<Rightarrow> CoreState list \<Rightarrow> CoreState list) \<Rightarrow> nat \<Rightarrow> MultiCoreSync \<Rightarrow> MultiCoreSync" where
  "peer_step peers k m = m\<lparr>mc_states := peers k (mc_states m)\<rparr>"

text \<open>The loop the queries share: load the states of the \<open>n\<close> cores from \<open>i\<close> on and leave at the first one that
  satisfies \<open>stop\<close>.\<close>

fun scan_cores :: "(nat \<Rightarrow> CoreState list \<Rightarrow> CoreState list) \<Rightarrow> (CoreState \<Rightarrow> bool) \<Rightarrow> nat \<Rightarrow> nat \<Rightarrow> nat \<Rightarrow> MultiCoreSync \<Rightarrow>
    bool \<times> nat \<times> MultiCoreSync" where
  "scan_cores peers stop i 0 k m = (False, k, m)"
| "scan_cores peers stop i (Suc n) k m =
     (let m = peer_step peers k m in
      if stop (mc_states m ! i) then (True, Suc k, m) else scan_cores peers stop (Suc i) n (Suc k) m)"

definition anyError :: "(nat \<Rightarrow> CoreState list \<Rightarrow> CoreState list) \<Rightarrow> nat \<Rightarrow> MultiCoreSync \<Rightarrow> bool \<times> nat \<times> MultiCoreSync" where
  "anyError peers k m = scan_cores peers (\<lambda>s. s = CORE_ERROR) 0 (length (mc_states m)) k m"

definition allInState ::
    "(nat \<Rightarrow> CoreState list \<Rightarrow> CoreState list) \<Rightarrow> CoreState \<Rightarrow> nat \<Rightarrow> MultiCoreSync \<Rightarrow> bool \<times> nat \<times> MultiCoreSync" where
  "allInState peers target k m =
     (let (found, k, m) = scan_cores peers (\<lambda>s. s \<noteq> target) 0 (length (mc_states m)) k m in (\<not> found, k, m))"

definition allReady :: "(nat \<Rightarrow> CoreState list \<Rightarrow> CoreState list) \<Rightarrow> nat \<Rightarrow> MultiCoreSync \<Rightarrow> bool \<times> nat \<times> MultiCoreSync" where
  "allReady peers k m = allInState peers READY k m"

definition allTerminated :: "(nat \<Rightarrow> CoreState list \<Rightarrow> CoreState list) \<Rightarrow> nat \<Rightarrow> MultiCoreSync \<Rightarrow> bool \<times> nat \<times> MultiCoreSync" where
  "allTerminated peers k m =
     (let (found, k, m) =
        scan_cores peers (\<lambda>s. s \<noteq> CORE_SHUTDOWN \<and> s \<noteq> CORE_ERROR) 0 (length (mc_states m)) k m in (\<not> found, k, m))"

text \<open>The polling loops; \<open>None\<close> is not returning (a zero poll interval).\<close>

partial_function (option) startup_loop ::
    "(nat \<Rightarrow> CoreState list \<Rightarrow> CoreState list) \<Rightarrow> nat \<Rightarrow> millis \<Rightarrow> millis \<Rightarrow> millis \<Rightarrow> nat \<Rightarrow> MultiCoreSync \<Rightarrow>
     (bool \<times> MultiCoreSync) option" where
  "startup_loop peers coreId timeoutMs pollIntervalMs elapsed k m =
     (if elapsed < timeoutMs then
        let (err, k, m) = anyError peers k m in
        if err then Some (False, setError coreId ''Peer entered ERROR during startup barrier'' m)
        else
          let (ready, k, m) = allInState peers READY k m in
          if ready then Some (True, m)
          else startup_loop peers coreId timeoutMs pollIntervalMs (elapsed + pollIntervalMs) k m
      else Some (False, setError coreId ''Startup barrier timeout'' m))"

definition startupBarrier ::
    "(nat \<Rightarrow> CoreState list \<Rightarrow> CoreState list) \<Rightarrow> nat \<Rightarrow> millis \<Rightarrow> millis \<Rightarrow> MultiCoreSync \<Rightarrow>
     (bool \<times> MultiCoreSync) option" where
  "startupBarrier peers coreId timeoutMs pollIntervalMs m =
     startup_loop peers coreId timeoutMs pollIntervalMs 0 0 (setReady coreId m)"

partial_function (option) shutdown_loop ::
    "(nat \<Rightarrow> CoreState list \<Rightarrow> CoreState list) \<Rightarrow> millis \<Rightarrow> millis \<Rightarrow> millis \<Rightarrow> nat \<Rightarrow> MultiCoreSync \<Rightarrow>
     (bool \<times> MultiCoreSync) option" where
  "shutdown_loop peers timeoutMs pollIntervalMs elapsed k m =
     (if elapsed < timeoutMs then
        let (terminated, k, m) = allTerminated peers k m in
        if terminated then Some (True, m)
        else shutdown_loop peers timeoutMs pollIntervalMs (elapsed + pollIntervalMs) k m
      else Some (False, m))"

definition shutdownBarrier ::
    "(nat \<Rightarrow> CoreState list \<Rightarrow> CoreState list) \<Rightarrow> nat \<Rightarrow> millis \<Rightarrow> millis \<Rightarrow> MultiCoreSync \<Rightarrow>
     (bool \<times> MultiCoreSync) option" where
  "shutdownBarrier peers coreId timeoutMs pollIntervalMs m =
     shutdown_loop peers timeoutMs pollIntervalMs 0 0 (setShutdown coreId m)"

partial_function (option) wait_loop ::
    "(nat \<Rightarrow> CoreState list \<Rightarrow> CoreState list) \<Rightarrow> nat \<Rightarrow> CoreState \<Rightarrow> millis \<Rightarrow> millis \<Rightarrow> millis \<Rightarrow> nat \<Rightarrow>
     MultiCoreSync \<Rightarrow> (bool \<times> MultiCoreSync) option" where
  "wait_loop peers peerId targetState timeoutMs pollIntervalMs elapsed k m =
     (if elapsed < timeoutMs then
        let m = peer_step peers k m in
        if core_state_num (mc_states m ! peerId) \<ge> core_state_num targetState then Some (True, m)
        else wait_loop peers peerId targetState timeoutMs pollIntervalMs (elapsed + pollIntervalMs) (k + 1) m
      else Some (False, m))"

definition waitForCore ::
    "(nat \<Rightarrow> CoreState list \<Rightarrow> CoreState list) \<Rightarrow> nat \<Rightarrow> CoreState \<Rightarrow> millis \<Rightarrow> millis \<Rightarrow> MultiCoreSync \<Rightarrow>
     (bool \<times> MultiCoreSync) option" where
  "waitForCore peers peerId targetState timeoutMs pollIntervalMs m =
     wait_loop peers peerId targetState timeoutMs pollIntervalMs 0 0 m"

text \<open>\<^verbatim>\<open>NoOpMultiCoreSync\<close>: both barriers return true at once and nothing is stored.\<close>

definition noop_startupBarrier :: bool where "noop_startupBarrier = True"
definition noop_shutdownBarrier :: bool where "noop_shutdownBarrier = True"

section \<open>WatchdogSync\<close>

record WatchdogSync =
  wd_lastKick :: "u64 list"
  wd_alive :: "bool list"

definition WatchdogSync_init :: "nat \<Rightarrow> WatchdogSync" where
  "WatchdogSync_init N_CORES = \<lparr>wd_lastKick = replicate N_CORES 0, wd_alive = replicate N_CORES False\<rparr>"

definition kick :: "nat \<Rightarrow> micros \<Rightarrow> WatchdogSync \<Rightarrow> WatchdogSync" where
  "kick coreId systemTimeMicros w =
     w\<lparr>wd_lastKick := (wd_lastKick w)[coreId := systemTimeMicros], wd_alive := (wd_alive w)[coreId := True]\<rparr>"

definition isStale :: "nat \<Rightarrow> micros \<Rightarrow> micros \<Rightarrow> WatchdogSync \<Rightarrow> bool" where
  "isStale coreId systemTimeMicros timeout w \<longleftrightarrow>
     wd_alive w ! coreId \<and> systemTimeMicros - wd_lastKick w ! coreId > timeout"

definition lastKickTime :: "nat \<Rightarrow> WatchdogSync \<Rightarrow> micros" where
  "lastKickTime coreId w = wd_lastKick w ! coreId"

definition hasStarted :: "nat \<Rightarrow> WatchdogSync \<Rightarrow> bool" where
  "hasStarted coreId w \<longleftrightarrow> wd_alive w ! coreId"

section \<open>The history of the core states\<close>

text \<open>The vector of states after the first \<open>k\<close> moves of the other cores, from the vector \<open>s\<close>; load number \<open>k\<close> sees
  \<open>states_at peers s (Suc k)\<close>.\<close>

fun states_at :: "(nat \<Rightarrow> CoreState list \<Rightarrow> CoreState list) \<Rightarrow> CoreState list \<Rightarrow> nat \<Rightarrow> CoreState list" where
  "states_at peers s 0 = s"
| "states_at peers s (Suc k) = peers k (states_at peers s k)"

definition own_kept :: "(nat \<Rightarrow> CoreState list \<Rightarrow> CoreState list) \<Rightarrow> nat \<Rightarrow> bool" where
  "own_kept peers coreId \<longleftrightarrow>
     (\<forall>k s. length (peers k s) = length s \<and> (coreId < length s \<longrightarrow> peers k s ! coreId = s ! coreId))"

lemma length_states_at: "own_kept peers c \<Longrightarrow> length (states_at peers s k) = length s"
  by (induction k) (simp_all add: own_kept_def)

lemma peer_step_states_at:
  "peer_step peers k (m\<lparr>mc_states := states_at peers s k\<rparr>) = m\<lparr>mc_states := states_at peers s (Suc k)\<rparr>"
  by (simp add: peer_step_def)

lemma scan_cores_stops:
  assumes "stop (states_at peers s (Suc (k + j)) ! (i + j))" "j < n"
    and "\<And>l. l < j \<Longrightarrow> \<not> stop (states_at peers s (Suc (k + l)) ! (i + l))"
  shows "scan_cores peers stop i n k (m\<lparr>mc_states := states_at peers s k\<rparr>)
    = (True, Suc (k + j), m\<lparr>mc_states := states_at peers s (Suc (k + j))\<rparr>)"
  using assms
proof (induction n arbitrary: i j k)
  case (Suc n)
  show ?case
  proof (cases j)
    case 0
    with Suc.prems(1) show ?thesis by (simp add: peer_step_states_at Let_def del: states_at.simps)
  next
    case (Suc j')
    have "\<not> stop (states_at peers s (Suc k) ! i)" using Suc.prems(3) [of 0] Suc by simp
    moreover have "scan_cores peers stop (Suc i) n (Suc k) (m\<lparr>mc_states := states_at peers s (Suc k)\<rparr>)
        = (True, Suc (Suc k + j'), m\<lparr>mc_states := states_at peers s (Suc (Suc k + j'))\<rparr>)"
      using Suc.prems Suc.prems(3) [of "Suc _"] Suc by (intro Suc.IH) auto
    ultimately show ?thesis
      using Suc by (simp add: peer_step_states_at Let_def del: states_at.simps)
  qed
qed simp

lemma scan_cores_through:
  assumes "\<And>l. l < n \<Longrightarrow> \<not> stop (states_at peers s (Suc (k + l)) ! (i + l))"
  shows "scan_cores peers stop i n k (m\<lparr>mc_states := states_at peers s k\<rparr>)
    = (False, k + n, m\<lparr>mc_states := states_at peers s (k + n)\<rparr>)"
  using assms
proof (induction n arbitrary: i k)
  case (Suc n)
  have "\<not> stop (states_at peers s (Suc k) ! i)" using Suc.prems [of 0] by simp
  moreover have "scan_cores peers stop (Suc i) n (Suc k) (m\<lparr>mc_states := states_at peers s (Suc k)\<rparr>)
      = (False, Suc k + n, m\<lparr>mc_states := states_at peers s (Suc k + n)\<rparr>)"
    using Suc.prems [of "Suc _"] by (intro Suc.IH) auto
  ultimately show ?case by (simp add: peer_step_states_at Let_def del: states_at.simps)
qed simp

text \<open>A query either meets a core that ends it, at one of its loads, or has loaded every core.\<close>

lemma scan_cores_cases:
  obtains (stopped) j where "j < n" "stop (states_at peers s (Suc (k + j)) ! (i + j))"
      "scan_cores peers stop i n k (m\<lparr>mc_states := states_at peers s k\<rparr>)
        = (True, Suc (k + j), m\<lparr>mc_states := states_at peers s (Suc (k + j))\<rparr>)"
  | (through) "\<And>l. l < n \<Longrightarrow> \<not> stop (states_at peers s (Suc (k + l)) ! (i + l))"
      "scan_cores peers stop i n k (m\<lparr>mc_states := states_at peers s k\<rparr>)
        = (False, k + n, m\<lparr>mc_states := states_at peers s (k + n)\<rparr>)"
proof (cases "\<exists>j<n. stop (states_at peers s (Suc (k + j)) ! (i + j))")
  case True
  define j where "j = (LEAST j. j < n \<and> stop (states_at peers s (Suc (k + j)) ! (i + j)))"
  have j: "j < n" "stop (states_at peers s (Suc (k + j)) ! (i + j))"
    using LeastI_ex [OF True] by (simp_all add: j_def)
  have "\<not> stop (states_at peers s (Suc (k + l)) ! (i + l))" if "l < j" for l
    using not_less_Least [OF that [unfolded j_def]] that j(1) by auto
  with stopped [OF j] scan_cores_stops [of stop peers s k j i n m] j show ?thesis by blast
next
  case False
  then show ?thesis using through scan_cores_through [of n stop peers s k i m] by blast
qed

section \<open>The polling loops return\<close>

lemma setError_state:
  "coreId < length (mc_states m) \<Longrightarrow> mc_states (setError coreId r m) ! coreId = CORE_ERROR"
  by (simp add: setError_def set_state_def Let_def)

lemma length_setError [simp]: "length (mc_states (setError coreId r m)) = length (mc_states m)"
  by (simp add: setError_def set_state_def Let_def)

lemma elapsed_unat:
  "unat e < unat t \<Longrightarrow> unat t + unat p < 2 ^ 32 \<Longrightarrow> unat (e + p) = unat e + unat (p :: millis)"
  by (simp add: unat_plus_simple [THEN iffD1] no_olen_add_nat)

lemma poll_decreases:
  assumes "0 < pollIntervalMs" "unat timeoutMs + unat pollIntervalMs < 2 ^ 32" "elapsed < (timeoutMs :: millis)"
  shows "unat timeoutMs - unat (elapsed + pollIntervalMs) < unat timeoutMs - unat elapsed"
  using elapsed_unat [OF _ assms(2), of elapsed] assms by (simp add: word_less_nat_alt)

text \<open>How the startup loop leaves: after a poll that loaded every core twice, or with the caller in ERROR.\<close>

definition startup_exit :: "(nat \<Rightarrow> CoreState list) \<Rightarrow> nat \<Rightarrow> nat \<Rightarrow> MultiCoreSync \<Rightarrow> bool \<times> MultiCoreSync \<Rightarrow> bool" where
  "startup_exit hist N coreId m res \<longleftrightarrow> (case res of
     (True, m') \<Rightarrow> \<exists>K. m' = m\<lparr>mc_states := hist (K + 2 * N)\<rparr> \<and>
       (\<forall>i<N. hist (Suc (K + i)) ! i \<noteq> CORE_ERROR \<and> hist (Suc (K + N + i)) ! i = READY)
   | (False, m') \<Rightarrow> \<exists>K. m' = setError coreId ''Startup barrier timeout'' (m\<lparr>mc_states := hist K\<rparr>) \<or>
       m' = setError coreId ''Peer entered ERROR during startup barrier'' (m\<lparr>mc_states := hist K\<rparr>) \<and>
       (\<exists>i<N. hist K ! i = CORE_ERROR))"

text \<open>One poll.\<close>

lemma startup_poll:
  fixes peers :: "nat \<Rightarrow> CoreState list \<Rightarrow> CoreState list" and s :: "CoreState list" and m :: MultiCoreSync
  defines "hist \<equiv> states_at peers s" and "N \<equiv> length s" and "L \<equiv> \<lambda>k. m\<lparr>mc_states := states_at peers s k\<rparr>"
  assumes "own_kept peers coreId" "elapsed < timeoutMs"
  obtains (err) i K where "i < N" "hist K ! i = CORE_ERROR"
      "startup_loop peers coreId timeoutMs pollIntervalMs elapsed k (L k)
        = Some (False, setError coreId ''Peer entered ERROR during startup barrier'' (L K))"
  | (ready) "\<And>i. i < N \<Longrightarrow> hist (Suc (k + i)) ! i \<noteq> CORE_ERROR \<and> hist (Suc (k + N + i)) ! i = READY"
      "startup_loop peers coreId timeoutMs pollIntervalMs elapsed k (L k) = Some (True, L (k + 2 * N))"
  | (again) j where "j < N" "hist (Suc (k + N + j)) ! j \<noteq> READY"
      "startup_loop peers coreId timeoutMs pollIntervalMs elapsed k (L k)
        = startup_loop peers coreId timeoutMs pollIntervalMs (elapsed + pollIntervalMs) (Suc (k + N + j)) (L (Suc (k + N + j)))"
proof -
  have len: "length (mc_states (L k)) = N" for k
    using length_states_at [OF assms(4)] by (simp add: L_def N_def)
  consider (e) j where "j < N" "hist (Suc (k + j)) ! j = CORE_ERROR" "anyError peers k (L k) = (True, Suc (k + j), L (Suc (k + j)))"
    | (n) "\<And>l. l < N \<Longrightarrow> hist (Suc (k + l)) ! l \<noteq> CORE_ERROR" "anyError peers k (L k) = (False, k + N, L (k + N))"
    unfolding anyError_def len
    by (rule scan_cores_cases [of N "\<lambda>s. s = CORE_ERROR" peers s k 0 m]) (auto simp: L_def hist_def)
  then show thesis
  proof cases
    case e
    then have "startup_loop peers coreId timeoutMs pollIntervalMs elapsed k (L k)
        = Some (False, setError coreId ''Peer entered ERROR during startup barrier'' (L (Suc (k + j))))"
      using assms(5) by (subst startup_loop.simps) simp
    with err e(1,2) show thesis by blast
  next
    case n
    consider (no) j where "j < N" "hist (Suc (k + N + j)) ! j \<noteq> READY"
        "allInState peers READY (k + N) (L (k + N)) = (False, Suc (k + N + j), L (Suc (k + N + j)))"
      | (yes) "\<And>l. l < N \<Longrightarrow> hist (Suc (k + N + l)) ! l = READY"
        "allInState peers READY (k + N) (L (k + N)) = (True, k + N + N, L (k + N + N))"
      unfolding allInState_def len
      by (rule scan_cores_cases [of N "\<lambda>s. s \<noteq> READY" peers s "k + N" 0 m]) (auto simp: L_def hist_def)
    then show thesis
    proof cases
      case no
      then show thesis using n(2) assms(5) by (intro again [OF no(1,2)]) (subst startup_loop.simps, simp)
    next
      case yes
      have "startup_loop peers coreId timeoutMs pollIntervalMs elapsed k (L k) = Some (True, L (k + 2 * N))"
        using n(2) yes(2) assms(5) by (subst startup_loop.simps) (simp add: mult_2 add.assoc)
      with ready n(1) yes(1) show thesis by blast
    qed
  qed
qed

lemma startup_loop_returns:
  assumes "0 < pollIntervalMs" "unat timeoutMs + unat pollIntervalMs < 2 ^ 32" "own_kept peers coreId"
  shows "\<exists>res. startup_loop peers coreId timeoutMs pollIntervalMs elapsed k (m\<lparr>mc_states := states_at peers s k\<rparr>) = Some res \<and>
     startup_exit (states_at peers s) (length s) coreId m res"
proof (induction "unat timeoutMs - unat elapsed" arbitrary: elapsed k rule: less_induct)
  case less
  show ?case
  proof (cases "elapsed < timeoutMs")
    case False
    then show ?thesis by (subst startup_loop.simps) (auto simp: startup_exit_def)
  next
    case True
    from assms(3) True show ?thesis
    proof (rule startup_poll [where k = k and s = s and m = m and pollIntervalMs = pollIntervalMs])
      fix j
      assume "startup_loop peers coreId timeoutMs pollIntervalMs elapsed k (m\<lparr>mc_states := states_at peers s k\<rparr>)
        = startup_loop peers coreId timeoutMs pollIntervalMs (elapsed + pollIntervalMs) (Suc (k + length s + j))
            (m\<lparr>mc_states := states_at peers s (Suc (k + length s + j))\<rparr>)"
      then show ?thesis using less.hyps [OF poll_decreases [OF assms(1,2) True]] by (simp only:)
    qed (auto simp: startup_exit_def)
  qed
qed

text \<open>When no core is ever seen in ERROR and all are READY from load \<open>K\<close> on, the barrier succeeds, provided the timeout
  allows the polls that take \<open>K\<close> loads.\<close>

lemma startup_loop_succeeds:
  assumes "unat timeoutMs + unat pollIntervalMs < 2 ^ 32" "own_kept peers coreId"
    and "\<And>k i. i < length s \<Longrightarrow> states_at peers s k ! i \<noteq> CORE_ERROR"
    and "\<And>k i. K < k \<Longrightarrow> i < length s \<Longrightarrow> states_at peers s k ! i = READY"
    and "K \<le> k + n * (length s + 1)" "unat elapsed + n * unat pollIntervalMs < unat timeoutMs"
  shows "\<exists>m'. startup_loop peers coreId timeoutMs pollIntervalMs elapsed k (m\<lparr>mc_states := states_at peers s k\<rparr>) = Some (True, m')"
  using assms(5,6)
proof (induction n arbitrary: elapsed k)
  case 0
  then have "elapsed < timeoutMs" by (simp add: word_less_nat_alt)
  with assms(2) show ?case
  proof (rule startup_poll [where k = k and s = s and m = m and pollIntervalMs = pollIntervalMs])
    fix j assume "j < length s" "states_at peers s (Suc (k + length s + j)) ! j \<noteq> READY"
    then show ?case using assms(4) [of "Suc (k + length s + j)" j] 0 by simp
  qed (use assms(3) in auto)
next
  case (Suc n)
  then have lt: "elapsed < timeoutMs" by (simp add: word_less_nat_alt)
  from assms(2) lt show ?case
  proof (rule startup_poll [where k = k and s = s and m = m and pollIntervalMs = pollIntervalMs])
    fix j
    assume "startup_loop peers coreId timeoutMs pollIntervalMs elapsed k (m\<lparr>mc_states := states_at peers s k\<rparr>)
        = startup_loop peers coreId timeoutMs pollIntervalMs (elapsed + pollIntervalMs) (Suc (k + length s + j))
            (m\<lparr>mc_states := states_at peers s (Suc (k + length s + j))\<rparr>)"
    moreover have "unat (elapsed + pollIntervalMs) = unat elapsed + unat pollIntervalMs"
      using lt assms(1) by (intro elapsed_unat [of _ timeoutMs]) (simp_all add: word_less_nat_alt)
    ultimately show ?case using Suc.IH [of "Suc (k + length s + j)" "elapsed + pollIntervalMs"] Suc.prems by simp
  qed (use assms(3) in auto)
qed

lemma shutdown_loop_returns:
  assumes "0 < pollIntervalMs" "unat timeoutMs + unat pollIntervalMs < 2 ^ 32" "own_kept peers coreId"
  shows "\<exists>r m'. shutdown_loop peers timeoutMs pollIntervalMs elapsed k (m\<lparr>mc_states := states_at peers s k\<rparr>) = Some (r, m') \<and>
     (r \<longrightarrow> (\<exists>K. \<forall>i<length s. states_at peers s (Suc (K + i)) ! i \<in> {CORE_SHUTDOWN, CORE_ERROR}))"
proof (induction "unat timeoutMs - unat elapsed" arbitrary: elapsed k rule: less_induct)
  case less
  let ?L = "\<lambda>k. m\<lparr>mc_states := states_at peers s k\<rparr>"
  let ?N = "length s"
  show ?case
  proof (cases "elapsed < timeoutMs")
    case False
    then show ?thesis by (subst shutdown_loop.simps) auto
  next
    case lt: True
    have len: "length (mc_states (?L k)) = ?N" using length_states_at [OF assms(3)] by simp
    consider (no) j where "allTerminated peers k (?L k) = (False, Suc (k + j), ?L (Suc (k + j)))"
      | (yes) "\<And>l. l < ?N \<Longrightarrow> states_at peers s (Suc (k + l)) ! l \<in> {CORE_SHUTDOWN, CORE_ERROR}"
        "allTerminated peers k (?L k) = (True, k + ?N, ?L (k + ?N))"
      unfolding allTerminated_def len
      by (rule scan_cores_cases [of ?N "\<lambda>s. s \<noteq> CORE_SHUTDOWN \<and> s \<noteq> CORE_ERROR" peers s k 0 m]) auto
    then show ?thesis
    proof cases
      case no
      then show ?thesis
        using lt less.hyps [OF poll_decreases [OF assms(1,2) lt], of "Suc (k + j)"]
        by (subst shutdown_loop.simps) (simp del: states_at.simps)
    next
      case yes
      then show ?thesis using lt by (subst shutdown_loop.simps) auto
    qed
  qed
qed

lemma shutdown_loop_some:
  assumes "0 < pollIntervalMs" "unat timeoutMs + unat pollIntervalMs < 2 ^ 32"
  shows "\<exists>r m'. shutdown_loop peers timeoutMs pollIntervalMs elapsed k m = Some (r, m')"
proof (induction "unat timeoutMs - unat elapsed" arbitrary: elapsed k m rule: less_induct)
  case less
  then show ?case
    using poll_decreases [OF assms] by (subst shutdown_loop.simps) (auto split: prod.split)
qed

lemma startup_barrier_returns:
  assumes "0 < pollIntervalMs" "unat timeoutMs + unat pollIntervalMs < 2 ^ 32" "own_kept peers coreId"
  shows "\<exists>r m'. startupBarrier peers coreId timeoutMs pollIntervalMs m = Some (r, m')"
proof -
  have "setReady coreId m = m\<lparr>mc_states := states_at peers (mc_states (setReady coreId m)) 0\<rparr>"
    by (simp add: setReady_def set_state_def)
  then show ?thesis
    using startup_loop_returns [OF assms, where elapsed = 0 and k = 0 and m = m and s = "mc_states (setReady coreId m)"]
    unfolding startupBarrier_def by fastforce
qed

section \<open>Properties\<close>

text \<open>C31: The startup barrier always returns (for a positive poll interval and a timeout that does not overflow the
  millisecond counter), whatever the other cores do between its single loads of their states. When it returns true,
  its last poll loaded every core twice, in core order: at the first load the core was not in ERROR, at the second it
  was READY. (These are different instants: unless READY cores stay READY, which makes all of them READY together when
  the barrier returns, there may be no instant at which all were.) When it returns false, by timeout or
  because a core was in ERROR, the calling core itself is left in ERROR and the handler is told why. And it does
  return true when no core is ever in ERROR and all are READY from load \<open>K\<close> on, if the timeout allows the polls that
  take \<open>K\<close> loads.\<close>

theorem startup_barrier_sound:
  assumes "0 < pollIntervalMs" "unat timeoutMs + unat pollIntervalMs < 2 ^ 32"
    and "own_kept peers coreId" "coreId < length (mc_states m)"
    and "N = length (mc_states m)" "hist = states_at peers (mc_states (setReady coreId m))"
  shows "\<exists>r m'. startupBarrier peers coreId timeoutMs pollIntervalMs m = Some (r, m') \<and>
     (if r then \<exists>K. m' = m\<lparr>mc_states := hist (K + 2 * N)\<rparr> \<and>
        (\<forall>i<N. hist (Suc (K + i)) ! i \<noteq> CORE_ERROR \<and> hist (Suc (K + N + i)) ! i = READY) \<and>
        ((\<forall>k i. hist k ! i = READY \<longrightarrow> hist (Suc k) ! i = READY) \<longrightarrow> mc_states m' = replicate N READY)
      else mc_states m' ! coreId = CORE_ERROR \<and>
        (\<exists>K reason. m' = setError coreId reason (m\<lparr>mc_states := hist K\<rparr>) \<and>
           (reason = ''Startup barrier timeout'' \<or>
            reason = ''Peer entered ERROR during startup barrier'' \<and> CORE_ERROR \<in> set (hist K)))) \<and>
     (\<forall>K n. (\<forall>k. CORE_ERROR \<notin> set (hist k)) \<and> (\<forall>k>K. hist k = replicate N READY) \<and>
        K \<le> n * (N + 1) \<and> n * unat pollIntervalMs < unat timeoutMs \<longrightarrow> r)"
proof -
  let ?s = "mc_states (setReady coreId m)"
  have len: "length ?s = N" "\<And>k. length (hist k) = N"
    using assms(5,6) length_states_at [OF assms(3)] by (simp_all add: setReady_def set_state_def)
  have eq: "startupBarrier peers coreId timeoutMs pollIntervalMs m
      = startup_loop peers coreId timeoutMs pollIntervalMs 0 0 (m\<lparr>mc_states := states_at peers ?s 0\<rparr>)"
    by (simp add: startupBarrier_def setReady_def set_state_def)
  obtain r m' where res: "startupBarrier peers coreId timeoutMs pollIntervalMs m = Some (r, m')"
      "startup_exit hist N coreId m (r, m')"
    using startup_loop_returns [OF assms(1-3), where elapsed = 0 and k = 0 and m = m and s = ?s] unfolding eq len(1) assms(6) by auto
  have stays: "mc_states m' = replicate N READY"
    if "m' = m\<lparr>mc_states := hist (K + 2 * N)\<rparr>" "\<forall>i<N. hist (Suc (K + N + i)) ! i = READY"
      "\<forall>k i. hist k ! i = READY \<longrightarrow> hist (Suc k) ! i = READY" for K
  proof -
    have "hist (k + l) ! i = READY" if "hist k ! i = READY" for k l i
      using \<open>\<forall>k i. hist k ! i = READY \<longrightarrow> hist (Suc k) ! i = READY\<close> that by (induction l) auto
    then have "hist (K + 2 * N) ! i = READY" if "i < N" for i
    proof -
      have "K + 2 * N = Suc (K + N + i) + (N - Suc i)" using \<open>i < N\<close> by simp
      then show ?thesis
        using \<open>\<forall>i<N. hist (Suc (K + N + i)) ! i = READY\<close> \<open>i < N\<close> \<open>\<And>k l i. hist k ! i = READY \<Longrightarrow> hist (k + l) ! i = READY\<close>
        by (simp only:)
    qed
    with len(2) that(1) show ?thesis by (auto intro: nth_equalityI)
  qed
  have good: r if "\<forall>k. CORE_ERROR \<notin> set (hist k)" "\<forall>k>K. hist k = replicate N READY" "K \<le> n * (N + 1)"
      "n * unat pollIntervalMs < unat timeoutMs" for K n
  proof -
    have no_err: "states_at peers ?s k ! i \<noteq> CORE_ERROR" if "i < length ?s" for k i
      using \<open>\<forall>k. CORE_ERROR \<notin> set (hist k)\<close> that len nth_mem [of i "hist k"] assms(6) by metis
    have ready: "states_at peers ?s k ! i = READY" if "K < k" "i < length ?s" for k i
      using \<open>\<forall>k>K. hist k = replicate N READY\<close> that len(1) assms(6) by auto
    have "\<exists>m'. startupBarrier peers coreId timeoutMs pollIntervalMs m = Some (True, m')"
      unfolding eq by (rule startup_loop_succeeds [OF assms(2,3) no_err ready, where k = 0 and n = n]) (use that(3,4) len(1) in simp_all)
    with res(1) show r by simp
  qed
  have bad: "mc_states m' ! coreId = CORE_ERROR" if "m' = setError coreId reason (m\<lparr>mc_states := hist K\<rparr>)" for K reason
    using that assms(4,5) len(2) by (simp add: setError_state)
  have err: "CORE_ERROR \<in> set (hist K)" if "hist K ! i = CORE_ERROR" "i < N" for K i
    using that len(2) nth_mem [of i "hist K"] by simp
  show ?thesis
  proof (cases r)
    case True
    with res(2) stays have "\<exists>K. m' = m\<lparr>mc_states := hist (K + 2 * N)\<rparr> \<and>
        (\<forall>i<N. hist (Suc (K + i)) ! i \<noteq> CORE_ERROR \<and> hist (Suc (K + N + i)) ! i = READY) \<and>
        ((\<forall>k i. hist k ! i = READY \<longrightarrow> hist (Suc k) ! i = READY) \<longrightarrow> mc_states m' = replicate N READY)"
      unfolding startup_exit_def by auto
    with res(1) True show ?thesis by auto
  next
    case False
    with res(2) bad err have "mc_states m' ! coreId = CORE_ERROR \<and>
        (\<exists>K reason. m' = setError coreId reason (m\<lparr>mc_states := hist K\<rparr>) \<and>
           (reason = ''Startup barrier timeout'' \<or>
            reason = ''Peer entered ERROR during startup barrier'' \<and> CORE_ERROR \<in> set (hist K)))"
      unfolding startup_exit_def by (auto; blast)
    with res(1) good False show ?thesis by (intro exI [of _ r] exI [of _ m']) auto
  qed
qed

text \<open>Two cores, the other one READY from the second load on: the barrier succeeds with both READY.\<close>

theorem startup_barrier_sound_witness:
  "\<exists>r m'. startupBarrier (\<lambda>k s. if k = 1 then s[1 := READY] else s) 0 2000 1 (MultiCoreSync_init 2 True) = Some (r, m') \<and>
     r \<and> mc_states m' = replicate 2 READY"
proof -
  let ?peers = "\<lambda>k s. if k = (1 :: nat) then s[1 := READY] else s"
  let ?m = "MultiCoreSync_init 2 True"
  let ?hist = "states_at ?peers (mc_states (setReady 0 ?m))"
  have two: "replicate 2 READY = [READY, READY]" by (simp add: numeral_2_eq_2)
  have hist: "?hist k = (if k \<le> 1 then [READY, UNBORN] else [READY, READY])" for k
    by (induction k) (auto simp: setReady_def set_state_def MultiCoreSync_init_def numeral_2_eq_2)
  have good: "(\<forall>k. CORE_ERROR \<notin> set (?hist k)) \<and> (\<forall>k>1. ?hist k = replicate 2 READY) \<and>
      1 \<le> 1 * (2 + 1 :: nat) \<and> 1 * unat (1 :: millis) < unat (2000 :: millis)"
    unfolding hist by (simp add: two)
  have stays: "\<forall>k i. ?hist k ! i = READY \<longrightarrow> ?hist (Suc k) ! i = READY"
    unfolding hist by (auto simp: nth_Cons split: nat.splits)
  have "(0 :: millis) < 1" "unat (2000 :: millis) + unat (1 :: millis) < 2 ^ 32"
      "own_kept ?peers 0" "0 < length (mc_states ?m)" "2 = length (mc_states ?m)"
    by (simp_all add: own_kept_def MultiCoreSync_init_def)
  from startup_barrier_sound [OF this refl] show ?thesis
  proof (elim exE conjE, goal_cases)
    case (1 r m')
    have r using 1(3) [THEN spec, THEN spec, of 1 1] good by (rule mp)
    with 1(2) stays have "mc_states m' = replicate 2 READY" by (simp only: if_True) blast
    with 1(1) \<open>r\<close> show ?case by blast
  qed
qed

text \<open>That the two loads of a core are different instants matters: with three cores the barrier can return true although
  at no instant all three were READY, and with a core in ERROR.\<close>

lemma barrier_no_common_instant:
  fixes peers defines "peers \<equiv> \<lambda>k s. if k = 5 then s[1 := CORE_ERROR, 2 := READY] else (s :: CoreState list)"
  shows "startupBarrier peers 0 2000 1 (set_state 1 READY (MultiCoreSync_init 3 False))
      = Some (True, (MultiCoreSync_init 3 False)\<lparr>mc_states := [READY, CORE_ERROR, READY]\<rparr>) \<and>
    (\<forall>k. states_at peers [READY, READY, UNBORN] k \<noteq> replicate 3 READY)"
proof -
  have "states_at peers [READY, READY, UNBORN] k = (if k \<le> 5 then [READY, READY, UNBORN] else [READY, CORE_ERROR, READY])" for k
    by (induction k) (auto simp: peers_def)
  moreover have "startupBarrier peers 0 2000 1 (set_state 1 READY (MultiCoreSync_init 3 False))
      = Some (True, (MultiCoreSync_init 3 False)\<lparr>mc_states := [READY, CORE_ERROR, READY]\<rparr>)"
    unfolding startupBarrier_def
    by (subst startup_loop.simps)
       (simp add: anyError_def allInState_def peer_step_def peers_def setReady_def set_state_def MultiCoreSync_init_def
         numeral_3_eq_3 Let_def)
  ultimately show ?thesis by (simp add: numeral_3_eq_3)
qed

text \<open>The shutdown barrier always returns under the same conditions, and returns true only when its last poll loaded
  every core in SHUTDOWN or ERROR.\<close>

theorem shutdown_barrier_sound:
  assumes "0 < pollIntervalMs" "unat timeoutMs + unat pollIntervalMs < 2 ^ 32" "own_kept peers coreId"
    and "hist = states_at peers (mc_states (setShutdown coreId m))"
  shows "\<exists>r m'. shutdownBarrier peers coreId timeoutMs pollIntervalMs m = Some (r, m') \<and>
     (r \<longrightarrow> (\<exists>K. \<forall>i<length (mc_states m). hist (Suc (K + i)) ! i \<in> {CORE_SHUTDOWN, CORE_ERROR}))"
proof -
  have "setShutdown coreId m = m\<lparr>mc_states := states_at peers (mc_states (setShutdown coreId m)) 0\<rparr>"
    "length (mc_states (setShutdown coreId m)) = length (mc_states m)"
    by (simp_all add: setShutdown_def set_state_def)
  then show ?thesis
    using shutdown_loop_returns [OF assms(1-3), where elapsed = 0 and k = 0 and m = m and s = "mc_states (setShutdown coreId m)"] assms(4)
    unfolding shutdownBarrier_def by simp
qed

theorem shutdown_barrier_sound_witness:
  "\<exists>r m'. shutdownBarrier (\<lambda>k s. s[1 := CORE_SHUTDOWN]) 0 2000 1 (MultiCoreSync_init 2 False) = Some (r, m') \<and>
     (r \<longrightarrow> (\<exists>K. \<forall>i<length (mc_states (MultiCoreSync_init 2 False)).
        states_at (\<lambda>k s. s[1 := CORE_SHUTDOWN]) (mc_states (setShutdown 0 (MultiCoreSync_init 2 False))) (Suc (K + i)) ! i
          \<in> {CORE_SHUTDOWN, CORE_ERROR}))"
  by (rule shutdown_barrier_sound) (simp_all add: own_kept_def)

text \<open>The watchdog. A core that has never kicked is not stale; after its last kick at \<open>t0\<close> a core is
  stale at any later time \<open>t\<close> exactly when more than the timeout has passed, and kicks of other
  cores do not change that. A checker whose time lags behind the kick sees the core as stale for every
  timeout below the wrapped difference.\<close>

theorem watchdog_stale:
  assumes "core < N" "other \<noteq> core" "core < length (wd_lastKick w)" "core < length (wd_alive w)"
  shows "\<not> isStale core t timeout (WatchdogSync_init N) \<and>
     isStale core t timeout (kick other t1 (kick core t0 w)) =
       (if t0 \<le> t then unat t - unat t0 > unat timeout
        else 2 ^ 64 - (unat t0 - unat t) > unat timeout)"
proof -
  have "unat (t - t0) = (if t0 \<le> t then unat t - unat t0 else 2 ^ 64 - (unat t0 - unat t))"
    using unat_sub_if_size [of t t0] unsigned_less [of t0, where 'a = nat]
    by (auto simp: word_le_nat_alt word_size)
  then show ?thesis
    using assms by (simp add: isStale_def kick_def WatchdogSync_init_def word_less_nat_alt)
qed

theorem watchdog_stale_witness:
  "\<not> isStale 0 900 100 (WatchdogSync_init 2) \<and>
   isStale 0 900 100 (kick 1 850 (kick 0 500 (WatchdogSync_init 2))) =
     (if (500 :: micros) \<le> 900 then unat (900 :: micros) - unat (500 :: micros) > unat (100 :: micros)
      else 2 ^ 64 - (unat (500 :: micros) - unat (900 :: micros)) > unat (100 :: micros))"
  by (rule watchdog_stale) (simp_all add: WatchdogSync_init_def)

text \<open>\<^verbatim>\<open>waitForCore\<close> with target READY also reports success when the peer is in ERROR, because it
  compares the numeric state values.\<close>

theorem wait_for_ready_accepts_error:
  assumes "0 < timeoutMs" "peers 0 (mc_states m) ! peerId = CORE_ERROR"
  shows "\<exists>m'. waitForCore peers peerId READY timeoutMs pollIntervalMs m = Some (True, m')"
  using assms by (subst waitForCore_def, subst wait_loop.simps) (simp add: peer_step_def)

theorem wait_for_ready_accepts_error_witness:
  "\<exists>m'. waitForCore (\<lambda>k s. s) 1 READY 10 1 (setError 1 ''fault'' (MultiCoreSync_init 2 False))
     = Some (True, m')"
  by (rule wait_for_ready_accepts_error) (simp_all add: setError_def set_state_def MultiCoreSync_init_def)

end
