(* ===== verification/StringBuilder.thy ===== *)
theory StringBuilder
  imports Float32
begin

text \<open>
  \<^verbatim>\<open>utils/logging/LightweightStringBuilder.h\<close> and \<^verbatim>\<open>.cpp\<close>, and the string copies of
  \<^verbatim>\<open>utils/MemUtils.h\<close>. Characters are bytes. A C string argument is the list of its characters
  before the terminator.

  Every \<^verbatim>\<open>append\<close> is shown to extend the built string by the characters of its argument, truncated to
  the capacity, and to keep the terminator in place; decimal rendering is shown to be inverse to
  reading decimal digits.
\<close>

type_synonym cstr = "byte list"

definition str :: "string \<Rightarrow> cstr" where
  "str s = map (\<lambda>c. of_char c) s"

section \<open>Copies\<close>

text \<open>\<^verbatim>\<open>sput_strncpy\<close>: the first \<open>n\<close> bytes of the destination after the call.\<close>

definition sput_strncpy :: "cstr \<Rightarrow> nat \<Rightarrow> byte list" where
  "sput_strncpy src n = take n (src @ replicate n 0)"

section \<open>The builder\<close>

definition kCapacity_sb :: nat where "kCapacity_sb = 128"

record LightweightStringBuilder =
  sb_buf :: "byte list"
  sb_len :: nat

definition sb_init :: LightweightStringBuilder where
  "sb_init = \<lparr>sb_buf = replicate kCapacity_sb 0, sb_len = 0\<rparr>"

text \<open>The digit loop of \<^verbatim>\<open>renderU32\<close>, least significant digit first, at most \<open>room\<close> of them.\<close>

fun render_loop :: "nat \<Rightarrow> u32 \<Rightarrow> byte list" where
  "render_loop 0 val = []"
| "render_loop (Suc room) val =
     (if val > 0 then (48 + ucast (val mod 10)) # render_loop room (val div 10) else [])"

definition renderU32 :: "nat \<Rightarrow> u32 \<Rightarrow> byte list" where
  "renderU32 tmpLen val = (if val = 0 then [48] else rev (render_loop tmpLen val))"

text \<open>The copy loop shared by the \<^verbatim>\<open>append\<close> overloads.\<close>

fun sb_copy :: "byte list \<Rightarrow> LightweightStringBuilder \<Rightarrow> LightweightStringBuilder" where
  "sb_copy [] sb = sb"
| "sb_copy (c # cs) sb =
     (if sb_len sb < kCapacity_sb - 1
      then sb_copy cs (sb\<lparr>sb_buf := (sb_buf sb)[sb_len sb := c], sb_len := sb_len sb + 1\<rparr>)
      else sb)"

definition sb_terminate :: "LightweightStringBuilder \<Rightarrow> LightweightStringBuilder" where
  "sb_terminate sb = sb\<lparr>sb_buf := (sb_buf sb)[sb_len sb := 0]\<rparr>"

definition append_str :: "cstr option \<Rightarrow> LightweightStringBuilder \<Rightarrow> LightweightStringBuilder" where
  "append_str s sb = (case s of None \<Rightarrow> sb | Some cs \<Rightarrow> sb_terminate (sb_copy cs sb))"

definition append_char :: "byte \<Rightarrow> LightweightStringBuilder \<Rightarrow> LightweightStringBuilder" where
  "append_char c sb =
     (if sb_len sb < kCapacity_sb - 1
      then sb\<lparr>sb_buf := (sb_buf sb)[sb_len sb := c, sb_len sb + 1 := 0], sb_len := sb_len sb + 1\<rparr>
      else sb)"

definition append_i32 :: "u32 \<Rightarrow> LightweightStringBuilder \<Rightarrow> LightweightStringBuilder" where
  "append_i32 value sb =
     (let negative = sint value < 0;
          uval = (if negative then - value else value);
          tmp = renderU32 16 uval;
          sb = (if negative then append_char 45 sb else sb) in
      sb_terminate (sb_copy tmp sb))"

definition append_u32 :: "u32 \<Rightarrow> LightweightStringBuilder \<Rightarrow> LightweightStringBuilder" where
  "append_u32 value sb = sb_terminate (sb_copy (renderU32 16 value) sb)"

text \<open>\<^verbatim>\<open>append(float, decimals)\<close>. The conversions to \<^verbatim>\<open>uint32_t\<close> are the truncated value, reduced to the
  width; C++ defines them for values in range.\<close>

definition f32_to_u32 :: "f32 \<Rightarrow> u32" where
  "f32_to_u32 x = of_int (f32_trunc x)"

definition f32_ten :: f32 where "f32_ten = 0x41200000"
definition f32_half :: f32 where "f32_half = 0x3F000000"
definition f32_one :: f32 where "f32_one = 0x3F800000"

definition pow10_f32 :: "nat \<Rightarrow> f32" where
  "pow10_f32 decimals = ((\<lambda>s. f32_mul s f32_ten) ^^ decimals) f32_one"

definition pad_zeros :: "u32 \<Rightarrow> nat \<Rightarrow> LightweightStringBuilder \<Rightarrow> LightweightStringBuilder" where
  "pad_zeros fracInt decimals sb =
     fold (\<lambda>d sb. if fracInt < 10 ^ (decimals - d) then append_char 48 sb else sb) [1..<decimals] sb"

definition append_f32 :: "f32 \<Rightarrow> byte \<Rightarrow> LightweightStringBuilder \<Rightarrow> LightweightStringBuilder" where
  "append_f32 value dec sb =
     (let decimals = unat dec;
          neg = f32_less value 0;
          sb = (if neg then append_char 45 sb else sb);
          value = (if neg then f32_uminus value else value);
          scale = pow10_f32 decimals;
          value = f32_div (f32_of_u32 (f32_to_u32 (f32_add (f32_mul value scale) f32_half))) scale;
          intPart = f32_to_u32 value;
          sb = sb_terminate (sb_copy (renderU32 16 intPart) sb) in
      if decimals > 0 then
        let sb = append_char 46 sb;
            frac = f32_sub value (f32_of_u32 intPart);
            fracInt = f32_to_u32 (f32_add (f32_mul frac scale) f32_half);
            maxFrac = f32_to_u32 scale - 1;
            fracInt = (if fracInt > maxFrac then maxFrac else fracInt);
            sb = pad_zeros fracInt decimals sb in
        sb_terminate (sb_copy (renderU32 16 fracInt) sb)
      else sb)"

definition sb_isFull :: "LightweightStringBuilder \<Rightarrow> bool" where
  "sb_isFull sb \<longleftrightarrow> sb_len sb \<ge> kCapacity_sb - 1"

definition sb_clear :: "LightweightStringBuilder \<Rightarrow> LightweightStringBuilder" where
  "sb_clear sb = sb\<lparr>sb_len := 0, sb_buf := (sb_buf sb)[0 := 0]\<rparr>"

section \<open>The built string\<close>

definition sb_str :: "LightweightStringBuilder \<Rightarrow> byte list" where
  "sb_str sb = take (sb_len sb) (sb_buf sb)"

definition sb_ok :: "LightweightStringBuilder \<Rightarrow> bool" where
  "sb_ok sb \<longleftrightarrow> length (sb_buf sb) = kCapacity_sb \<and> sb_len sb < kCapacity_sb \<and> sb_buf sb ! sb_len sb = 0"

text \<open>What the appends are specified to do: \<open>extends cs sb sb'\<close>.\<close>

definition extends :: "byte list \<Rightarrow> LightweightStringBuilder \<Rightarrow> LightweightStringBuilder \<Rightarrow> bool" where
  "extends cs sb sb' \<longleftrightarrow> sb_ok sb' \<and> sb_str sb' = take (kCapacity_sb - 1) (sb_str sb @ cs)"

lemma sb_ok_init: "sb_ok sb_init" "sb_str sb_init = []"
  by (simp_all add: sb_ok_def sb_init_def kCapacity_sb_def sb_str_def)

lemma sb_ok_clear: "sb_ok sb \<Longrightarrow> sb_ok (sb_clear sb)" "sb_str (sb_clear sb) = []"
  by (simp_all add: sb_ok_def sb_clear_def sb_str_def kCapacity_sb_def)

lemma length_sb_str: "sb_ok sb \<Longrightarrow> length (sb_str sb) = sb_len sb"
  by (simp add: sb_ok_def sb_str_def)

lemma sb_copy_ok:
  assumes "length (sb_buf sb) = kCapacity_sb" "sb_len sb < kCapacity_sb"
  shows "length (sb_buf (sb_copy cs sb)) = kCapacity_sb \<and> sb_len (sb_copy cs sb) < kCapacity_sb \<and>
    sb_str (sb_copy cs sb) = take (kCapacity_sb - 1) (sb_str sb @ cs)"
  using assms
proof (induction cs arbitrary: sb)
  case Nil
  then have "min (kCapacity_sb - 1) (sb_len sb) = sb_len sb" by linarith
  with Nil show ?case by (simp add: sb_str_def)
next
  case (Cons c cs)
  show ?case
  proof (cases "sb_len sb < kCapacity_sb - 1")
    case True
    let ?sb = "sb\<lparr>sb_buf := (sb_buf sb)[sb_len sb := c], sb_len := sb_len sb + 1\<rparr>"
    have "sb_str ?sb = sb_str sb @ [c]"
      using Cons.prems by (simp add: sb_str_def take_Suc_update)
    then show ?thesis using Cons.IH [of ?sb] Cons.prems True by simp
  next
    case False
    then have "sb_len sb = kCapacity_sb - 1" using Cons.prems by simp
    then show ?thesis using Cons.prems by (simp add: sb_str_def)
  qed
qed

lemma extends_copy: "sb_ok sb \<Longrightarrow> extends cs sb (sb_terminate (sb_copy cs sb))"
  using sb_copy_ok [of sb cs]
  by (simp add: sb_ok_def extends_def sb_terminate_def sb_str_def)

lemma extends_char:
  assumes "sb_ok sb"
  shows "extends [c] sb (append_char c sb)"
proof (cases "sb_len sb < kCapacity_sb - 1")
  case True
  then show ?thesis
    using assms by (simp add: extends_def append_char_def sb_ok_def sb_str_def take_Suc_conv_app_nth)
next
  case False
  then have "sb_len sb = kCapacity_sb - 1" using assms unfolding sb_ok_def by linarith
  then show ?thesis using assms by (simp add: extends_def append_char_def sb_ok_def sb_str_def)
qed

lemma extends_Nil:
  assumes "sb_ok sb"
  shows "extends [] sb sb"
proof -
  have "min (kCapacity_sb - 1) (sb_len sb) = sb_len sb" using assms unfolding sb_ok_def by linarith
  with assms show ?thesis by (simp add: extends_def sb_str_def)
qed

lemma extends_trans: "extends cs sb sb' \<Longrightarrow> extends ds sb' sb'' \<Longrightarrow> extends (cs @ ds) sb sb''"
proof -
  have "take n (take n xs @ ys) = take n (xs @ ys)" for n and xs ys :: "byte list"
    by (cases "length xs \<le> n") (simp_all add: min_def)
  then show "extends cs sb sb' \<Longrightarrow> extends ds sb' sb'' \<Longrightarrow> extends (cs @ ds) sb sb''"
    by (metis append.assoc extends_def)
qed

lemma extends_ok: "extends cs sb sb' \<Longrightarrow> sb_ok sb'"
  by (simp add: extends_def)

lemma extends_str: "sb_ok sb \<Longrightarrow> extends cs sb (append_str (Some cs) sb)"
  by (simp add: append_str_def extends_copy)

lemma extends_u32: "sb_ok sb \<Longrightarrow> extends (renderU32 16 v) sb (append_u32 v sb)"
  by (simp add: append_u32_def extends_copy)

lemma extends_i32:
  "sb_ok sb \<Longrightarrow>
   extends ((if sint v < 0 then [45] else []) @ renderU32 16 (if sint v < 0 then - v else v)) sb
     (append_i32 v sb)"
  using extends_trans [OF extends_char extends_copy [OF extends_ok [OF extends_char]], of sb 45]
    extends_copy [of sb]
  by (simp add: append_i32_def Let_def)

section \<open>Decimal rendering\<close>

definition dec_value :: "byte list \<Rightarrow> nat" where
  "dec_value ds = foldl (\<lambda>n d. 10 * n + (unat d - 48)) 0 ds"

lemma dec_value_snoc [simp]: "dec_value (ds @ [d]) = 10 * dec_value ds + (unat d - 48)"
  by (simp add: dec_value_def)

definition is_digit :: "byte \<Rightarrow> bool" where
  "is_digit c \<longleftrightarrow> 48 \<le> c \<and> c \<le> 57"

lemma unat_digit: "unat (48 + ucast (v mod 10) :: byte) = 48 + unat (v mod 10)" for v :: u32
proof -
  have "unat (v mod 10) < 10" by (simp add: unat_mod)
  then have "unat (ucast (v mod 10) :: byte) = unat (v mod 10)"
    by (simp add: unsigned_ucast_eq take_bit_nat_eq_self)
  then show ?thesis
    using \<open>unat (v mod 10) < 10\<close> by (simp add: unat_word_ariths)
qed

lemma render_loop_spec:
  "unat v < 10 ^ room \<Longrightarrow> dec_value (rev (render_loop room v)) = unat v \<and>
     length (render_loop room v) \<le> room \<and> list_all is_digit (render_loop room v)"
proof (induction room arbitrary: v)
  case (Suc room)
  have "unat (v div 10) < 10 ^ room"
    using Suc.prems by (simp add: unat_div less_mult_imp_div_less mult.commute)
  note IH = Suc.IH [OF this]
  have d: "unat (48 + ucast (v mod 10) :: byte) = 48 + unat v mod 10"
    using unat_digit [of v] by (simp add: unat_mod)
  then have "is_digit (48 + ucast (v mod 10))"
    by (simp add: is_digit_def word_le_nat_alt)
  then show ?case
    using IH d by (auto simp: unat_div word_greater_zero_iff unat_eq_zero) (simp add: dec_value_def)
qed (simp add: dec_value_def unat_eq_zero)

lemma renderU32_value: "dec_value (renderU32 16 v) = unat v"
proof (cases "v = 0")
  case False
  have "unat v < 10 ^ 16" using unsigned_less [of v, where 'a = nat] by simp
  then show ?thesis using render_loop_spec False by (simp add: renderU32_def)
qed (simp add: renderU32_def dec_value_def)

lemma render_loop_length:
  "unat v < 10 ^ n \<Longrightarrow> length (render_loop room v) \<le> n"
proof (induction room arbitrary: v n)
  case (Suc room)
  show ?case
  proof (cases "v = 0")
    case False
    then obtain n' where n: "n = Suc n'" using Suc.prems by (cases n) (auto simp: unat_eq_zero)
    have "unat (v div 10) < 10 ^ n'"
      using Suc.prems n by (simp add: unat_div less_mult_imp_div_less mult.commute)
    then show ?thesis using Suc.IH [of "v div 10" n'] n by simp
  qed simp
qed simp

lemma renderU32_length: "length (renderU32 16 v) \<le> 10"
  using render_loop_length [of v 10 16] unsigned_less [of v, where 'a = nat]
  by (simp add: renderU32_def)

lemma renderU32_digits: "list_all is_digit (renderU32 16 v)"
proof -
  have "unat v < 10 ^ 16" using unsigned_less [of v, where 'a = nat] by simp
  then show ?thesis
    using render_loop_spec [of v 16] by (simp add: renderU32_def list_all_rev) (simp add: is_digit_def)
qed

text \<open>The characters of a float: sign, integer part, and the zero-padded digits after the point.\<close>

definition f32_text :: "f32 \<Rightarrow> byte \<Rightarrow> byte list" where
  "f32_text value dec =
     (let decimals = unat dec;
          neg = f32_less value 0;
          value = (if neg then f32_uminus value else value);
          scale = pow10_f32 decimals;
          value = f32_div (f32_of_u32 (f32_to_u32 (f32_add (f32_mul value scale) f32_half))) scale;
          intPart = f32_to_u32 value;
          frac = f32_to_u32 (f32_add (f32_mul (f32_sub value (f32_of_u32 intPart)) scale) f32_half);
          maxFrac = f32_to_u32 scale - 1;
          frac = (if frac > maxFrac then maxFrac else frac) in
      (if neg then [45] else []) @ renderU32 16 intPart @
      (if decimals > 0 then
         [46] @ concat (map (\<lambda>d. if frac < 10 ^ (decimals - d) then [48] else []) [1..<decimals]) @
         renderU32 16 frac
       else []))"

lemma extends_if_char: "sb_ok sb \<Longrightarrow> extends (if b then [c] else []) sb (if b then append_char c sb else sb)"
  using extends_char extends_Nil by simp

lemma extends_pad_loop:
  "sb_ok sb \<Longrightarrow> extends (concat (map (\<lambda>d. if P d then [48] else []) ds)) sb
     (fold (\<lambda>d sb. if P d then append_char 48 sb else sb) ds sb)"
proof (induction ds arbitrary: sb)
  case (Cons d ds)
  have e: "extends (if P d then [48] else []) sb (if P d then append_char 48 sb else sb)"
    using extends_if_char [OF Cons.prems] .
  show ?case using extends_trans [OF e Cons.IH [OF extends_ok [OF e]]] by simp
qed (simp add: extends_Nil)

lemma extends_f32:
  assumes "sb_ok sb"
  shows "extends (f32_text v dec) sb (append_f32 v dec sb)"
proof -
  let ?neg = "f32_less v 0"
  let ?scale = "pow10_f32 (unat dec)"
  let ?v = "f32_div (f32_of_u32 (f32_to_u32 (f32_add (f32_mul (if ?neg then f32_uminus v else v) ?scale) f32_half))) ?scale"
  let ?int = "f32_to_u32 ?v"
  let ?fr = "f32_to_u32 (f32_add (f32_mul (f32_sub ?v (f32_of_u32 ?int)) ?scale) f32_half)"
  let ?frac = "if ?fr > f32_to_u32 ?scale - 1 then f32_to_u32 ?scale - 1 else ?fr"
  let ?sb1 = "if ?neg then append_char 45 sb else sb"
  let ?sb2 = "sb_terminate (sb_copy (renderU32 16 ?int) ?sb1)"
  have e1: "extends (if ?neg then [45] else []) sb ?sb1" using assms by (rule extends_if_char)
  have e2: "extends (renderU32 16 ?int) ?sb1 ?sb2" by (rule extends_copy [OF extends_ok [OF e1]])
  have e12: "extends ((if ?neg then [45] else []) @ renderU32 16 ?int) sb ?sb2"
    by (rule extends_trans [OF e1 e2])
  show ?thesis
  proof (cases "unat dec > 0")
    case True
    let ?sb3 = "append_char 46 ?sb2"
    let ?sb4 = "pad_zeros ?frac (unat dec) ?sb3"
    have e3: "extends [46] ?sb2 ?sb3" by (rule extends_char [OF extends_ok [OF e2]])
    have e4: "extends (concat (map (\<lambda>d. if ?frac < 10 ^ (unat dec - d) then [48] else []) [1..<unat dec]))
        ?sb3 ?sb4"
      unfolding pad_zeros_def by (rule extends_pad_loop [OF extends_ok [OF e3]])
    have e5: "extends (renderU32 16 ?frac) ?sb4 (sb_terminate (sb_copy (renderU32 16 ?frac) ?sb4))"
      by (rule extends_copy [OF extends_ok [OF e4]])
    show ?thesis
      using extends_trans [OF e12 extends_trans [OF e3 extends_trans [OF e4 e5]]] True
      by (simp add: f32_text_def append_f32_def Let_def split del: if_split)
  next
    case False
    then show ?thesis using e12 by (simp add: f32_text_def append_f32_def Let_def)
  qed
qed

section \<open>Properties\<close>

text \<open>Appending an unsigned integer adds its decimal digits (at most ten, most significant first,
  reading back as the value) and nothing else, truncated to the 127 characters the buffer holds; the
  string stays terminated inside the buffer. The same for strings and single characters.\<close>

theorem append_spec:
  assumes "sb_ok sb"
  shows "sb_ok (append_u32 v sb) \<and> sb_str (append_u32 v sb) = take 127 (sb_str sb @ renderU32 16 v) \<and>
     dec_value (renderU32 16 v) = unat v \<and> length (renderU32 16 v) \<le> 10 \<and>
     list_all is_digit (renderU32 16 v) \<and>
     sb_ok (append_str (Some cs) sb) \<and> sb_str (append_str (Some cs) sb) = take 127 (sb_str sb @ cs) \<and>
     sb_ok (append_char c sb) \<and> sb_str (append_char c sb) = take 127 (sb_str sb @ [c])"
  using extends_u32 [OF assms, of v] extends_str [OF assms, of cs] extends_char [OF assms, of c]
    renderU32_value [of v] renderU32_length [of v] renderU32_digits [of v]
  by (simp add: extends_def kCapacity_sb_def)

theorem append_spec_witness:
  "sb_ok (append_u32 42 sb_init) \<and> sb_str (append_u32 42 sb_init) = take 127 (sb_str sb_init @ renderU32 16 42) \<and>
     dec_value (renderU32 16 42) = unat (42 :: u32) \<and> length (renderU32 16 42) \<le> 10 \<and>
     list_all is_digit (renderU32 16 42) \<and>
     sb_ok (append_str (Some [79, 75]) sb_init) \<and>
     sb_str (append_str (Some [79, 75]) sb_init) = take 127 (sb_str sb_init @ [79, 75]) \<and>
     sb_ok (append_char 10 sb_init) \<and> sb_str (append_char 10 sb_init) = take 127 (sb_str sb_init @ [10])"
  by (rule append_spec) (rule sb_ok_init)

end
