(* ===== verification/Loggers.thy ===== *)
theory Loggers
  imports StringBuilder
begin

text \<open>
  \<^verbatim>\<open>utils/logging/ErrorLogger.h\<close>/\<^verbatim>\<open>.cpp\<close> (the fault log) and \<^verbatim>\<open>utils/logging/TelemetryLogger.h\<close>/\<^verbatim>\<open>.cpp\<close>
  (the operator log). Both are rings that overwrite their oldest entry; the locale \<open>overwrite_log\<close> is
  that contract, and its client lemma says which entries survive.

  The optional mutex of the telemetry logger is a pair of parameters, \<open>lock\<close> and \<open>unlock\<close>, on a mutex
  state: as in the code, the result of \<^verbatim>\<open>lock(0)\<close> is not looked at. The drain callback is a parameter on
  the world it writes to.
\<close>

section \<open>ErrorLogger\<close>

datatype ErrorCode = STATE_TRANSITION | INTERLOCK_TRIP | SOFT_ABORT | HARD_FAULT | ARC_DETECTED
  | SENSOR_ERROR | WATCHDOG_KICK | TIMER_ROLLOVER | INVALID_STATE | CRUNCH_OVERRUN | DEADLINE_MISS

record error_entry =
  ee_code :: ErrorCode
  ee_timestamp :: micros
  ee_value :: f32

definition kCapacity_el :: nat where "kCapacity_el = 32"
definition kSlots_el :: nat where "kSlots_el = kCapacity_el + 1"

record ErrorLogger =
  el_buf :: "error_entry list"
  el_head :: nat
  el_tail :: nat

definition error_entry_default :: error_entry where
  "error_entry_default = \<lparr>ee_code = STATE_TRANSITION, ee_timestamp = 0, ee_value = 0\<rparr>"

definition ErrorLogger_init :: ErrorLogger where
  "ErrorLogger_init = \<lparr>el_buf = replicate kSlots_el error_entry_default, el_head = 0, el_tail = 0\<rparr>"

definition ErrorLogger_log :: "ErrorCode \<Rightarrow> micros \<Rightarrow> f32 \<Rightarrow> ErrorLogger \<Rightarrow> ErrorLogger" where
  "ErrorLogger_log code timestamp value l =
     (let head = el_head l; next = (head + 1) mod kSlots_el;
          l = (if next = el_tail l then l\<lparr>el_tail := (el_tail l + 1) mod kSlots_el\<rparr> else l) in
      l\<lparr>el_buf := (el_buf l)[head := \<lparr>ee_code = code, ee_timestamp = timestamp, ee_value = value\<rparr>],
        el_head := next\<rparr>)"

definition ErrorLogger_read :: "ErrorLogger \<Rightarrow> error_entry option \<times> ErrorLogger" where
  "ErrorLogger_read l =
     (let tail = el_tail l in
      if tail = el_head l then (None, l)
      else (Some (el_buf l ! tail), l\<lparr>el_tail := (tail + 1) mod kSlots_el\<rparr>))"

definition ErrorLogger_count :: "ErrorLogger \<Rightarrow> nat" where
  "ErrorLogger_count l =
     (if el_head l \<ge> el_tail l then el_head l - el_tail l else kSlots_el - el_tail l + el_head l)"

definition ErrorLogger_clear :: "ErrorLogger \<Rightarrow> ErrorLogger" where
  "ErrorLogger_clear l = l\<lparr>el_tail := el_head l\<rparr>"

section \<open>TelemetryLogger\<close>

datatype Verbosity = CRITICAL | STATUS | INFO | DEBUG

fun verbosity_num :: "Verbosity \<Rightarrow> nat" where
  "verbosity_num CRITICAL = 0"
| "verbosity_num STATUS = 1"
| "verbosity_num INFO = 2"
| "verbosity_num DEBUG = 3"

datatype TaskID = CONTROL | COMMS | DIAGNOSTICS | SYSTEM

record telemetry_entry =
  te_timestamp :: micros
  te_task :: TaskID
  te_level :: Verbosity
  te_text :: "byte list"

definition kTextLen :: nat where "kTextLen = 64"
definition kCapacity_tl :: nat where "kCapacity_tl = 32"

record TelemetryLogger =
  tl_guard :: bool
  tl_buf :: "telemetry_entry list"
  tl_head :: nat
  tl_tail :: nat
  tl_count :: nat
  tl_verbosity :: Verbosity

definition telemetry_entry_default :: telemetry_entry where
  "telemetry_entry_default =
     \<lparr>te_timestamp = 0, te_task = CONTROL, te_level = CRITICAL, te_text = replicate kTextLen 0\<rparr>"

definition TelemetryLogger_init :: "bool \<Rightarrow> TelemetryLogger" where
  "TelemetryLogger_init guard = \<lparr>tl_guard = guard, tl_buf = replicate kCapacity_tl telemetry_entry_default,
     tl_head = 0, tl_tail = 0, tl_count = 0, tl_verbosity = STATUS\<rparr>"

definition setMutex :: "bool \<Rightarrow> TelemetryLogger \<Rightarrow> TelemetryLogger" where
  "setMutex guard l = l\<lparr>tl_guard := guard\<rparr>"

text \<open>\<^verbatim>\<open>if (m_guard) m_guard->lock(0)\<close> and \<^verbatim>\<open>if (m_guard) m_guard->unlock()\<close>.\<close>

definition guard_lock :: "(millis \<Rightarrow> 'm \<Rightarrow> bool \<times> 'm) \<Rightarrow> TelemetryLogger \<Rightarrow> 'm \<Rightarrow> 'm" where
  "guard_lock lock l mtx = (if tl_guard l then snd (lock 0 mtx) else mtx)"

definition guard_unlock :: "('m \<Rightarrow> 'm) \<Rightarrow> TelemetryLogger \<Rightarrow> 'm \<Rightarrow> 'm" where
  "guard_unlock unlock l mtx = (if tl_guard l then unlock mtx else mtx)"

definition TelemetryLogger_put :: "TaskID \<Rightarrow> cstr \<Rightarrow> Verbosity \<Rightarrow> micros \<Rightarrow> TelemetryLogger \<Rightarrow> TelemetryLogger" where
  "TelemetryLogger_put task text level timestamp l =
     (let l = (if tl_count l = kCapacity_tl then l\<lparr>tl_tail := (tl_tail l + 1) mod kCapacity_tl\<rparr>
               else l\<lparr>tl_count := tl_count l + 1\<rparr>);
          e = \<lparr>te_timestamp = timestamp, te_task = task, te_level = level,
               te_text = sput_strncpy text (kTextLen - 1) @ [0]\<rparr> in
      l\<lparr>tl_buf := (tl_buf l)[tl_head l := e], tl_head := (tl_head l + 1) mod kCapacity_tl\<rparr>)"

definition TelemetryLogger_log ::
    "(millis \<Rightarrow> 'm \<Rightarrow> bool \<times> 'm) \<Rightarrow> ('m \<Rightarrow> 'm) \<Rightarrow> TaskID \<Rightarrow> cstr \<Rightarrow> Verbosity \<Rightarrow> micros \<Rightarrow>
     TelemetryLogger \<times> 'm \<Rightarrow> TelemetryLogger \<times> 'm" where
  "TelemetryLogger_log lock unlock task text level timestamp lm =
     (case lm of (l, mtx) \<Rightarrow>
        let mtx = guard_lock lock l mtx;
            l = TelemetryLogger_put task text level timestamp l in
        (l, guard_unlock unlock l mtx))"

definition taskName :: "TaskID \<Rightarrow> cstr" where
  "taskName task = (case task of
       CONTROL \<Rightarrow> str ''ControlTask'' | COMMS \<Rightarrow> str ''CommsTask''
     | DIAGNOSTICS \<Rightarrow> str ''DiagnosticsTask'' | SYSTEM \<Rightarrow> str ''System'')"

text \<open>The characters of a buffer up to its first terminator, as \<^verbatim>\<open>append(const char *)\<close> reads them.\<close>

definition c_string :: "byte list \<Rightarrow> cstr" where
  "c_string buf = takeWhile (\<lambda>c. c \<noteq> 0) buf"

definition format_entry :: "telemetry_entry \<Rightarrow> LightweightStringBuilder \<Rightarrow> LightweightStringBuilder" where
  "format_entry e sb =
     append_char 10 (append_str (Some (c_string (te_text e))) (append_char 32 (append_char 93
       (append_str (Some (taskName (te_task e))) (append_char 91 (append_char 93
         (append_u32 (ucast (te_timestamp e div 1000)) (append_char 91 (sb_clear sb)))))))))"

fun drain_loop :: "(byte list \<Rightarrow> 'w \<Rightarrow> 'w) \<Rightarrow> nat \<Rightarrow> TelemetryLogger \<Rightarrow> LightweightStringBuilder \<Rightarrow> 'w \<Rightarrow>
    TelemetryLogger \<times> 'w" where
  "drain_loop writeFn 0 l sb w = (l\<lparr>tl_count := 0\<rparr>, w)"
| "drain_loop writeFn (Suc n) l sb w =
     (let e = tl_buf l ! tl_tail l;
          l = l\<lparr>tl_tail := (tl_tail l + 1) mod kCapacity_tl, tl_count := n\<rparr> in
      if verbosity_num (te_level e) > verbosity_num (tl_verbosity l) then drain_loop writeFn n l sb w
      else
        let sb = format_entry e sb in
        drain_loop writeFn n l sb (writeFn (sb_str sb) w))"

definition TelemetryLogger_drain ::
    "(millis \<Rightarrow> 'w \<Rightarrow> bool \<times> 'w) \<Rightarrow> ('w \<Rightarrow> 'w) \<Rightarrow> (byte list \<Rightarrow> 'w \<Rightarrow> 'w) option \<Rightarrow>
     TelemetryLogger \<times> 'w \<Rightarrow> TelemetryLogger \<times> 'w" where
  "TelemetryLogger_drain lock unlock writeFn lw =
     (case lw of (l, w) \<Rightarrow>
        (case writeFn of
           None \<Rightarrow> (l, w)
         | Some f \<Rightarrow>
             let w = guard_lock lock l w;
                 (l, w) = drain_loop f (tl_count l) l sb_init w in
             (l, guard_unlock unlock l w)))"

definition TelemetryLogger_setVerbosity ::
    "(millis \<Rightarrow> 'm \<Rightarrow> bool \<times> 'm) \<Rightarrow> ('m \<Rightarrow> 'm) \<Rightarrow> Verbosity \<Rightarrow> TelemetryLogger \<times> 'm \<Rightarrow> TelemetryLogger \<times> 'm" where
  "TelemetryLogger_setVerbosity lock unlock level lm =
     (case lm of (l, mtx) \<Rightarrow>
        let mtx = guard_lock lock l mtx; l = l\<lparr>tl_verbosity := level\<rparr> in (l, guard_unlock unlock l mtx))"

definition TelemetryLogger_reset_indices :: "TelemetryLogger \<Rightarrow> TelemetryLogger" where
  "TelemetryLogger_reset_indices l = l\<lparr>tl_head := 0, tl_tail := 0, tl_count := 0\<rparr>"

definition TelemetryLogger_clear ::
    "(millis \<Rightarrow> 'm \<Rightarrow> bool \<times> 'm) \<Rightarrow> ('m \<Rightarrow> 'm) \<Rightarrow> TelemetryLogger \<times> 'm \<Rightarrow> TelemetryLogger \<times> 'm" where
  "TelemetryLogger_clear lock unlock lm =
     (case lm of (l, mtx) \<Rightarrow>
        let mtx = guard_lock lock l mtx; l = TelemetryLogger_reset_indices l in
        (l, guard_unlock unlock l mtx))"

section \<open>Logs that overwrite their oldest entry\<close>

locale overwrite_log =
  fixes inv :: "'l \<Rightarrow> bool"
    and entries :: "'l \<Rightarrow> 'e list"
    and cap :: nat
    and store :: "'a \<Rightarrow> 'e"
    and put :: "'a \<Rightarrow> 'l \<Rightarrow> 'l"
    and count :: "'l \<Rightarrow> nat"
  assumes cap_pos: "0 < cap"
    and entries_cap: "inv l \<Longrightarrow> length (entries l) \<le> cap"
    and put_ok: "inv l \<Longrightarrow> inv (put e l) \<and>
      entries (put e l) = (if length (entries l) = cap then tl (entries l) else entries l) @ [store e]"
    and count_ok: "inv l \<Longrightarrow> count l = length (entries l)"
begin

lemma puts_last:
  assumes "inv l"
  shows "inv (fold put es l) \<and> entries (fold put es l)
    = drop (length (entries l) + length es - cap) (entries l @ map store es)"
  using assms
proof (induction es rule: rev_induct)
  case Nil
  then show ?case using entries_cap by simp
next
  case (snoc e es)
  let ?l = "fold put es l" and ?xs = "entries l @ map store es"
  have IH: "inv ?l" "entries ?l = drop (length ?xs - cap) ?xs" using snoc by auto
  have "length (entries ?l) = length ?xs - (length ?xs - cap)" by (simp only: IH(2) length_drop)
  then have len: "length (entries ?l) = min (length ?xs) cap" by linarith
  show ?case
  proof (cases "length ?xs < cap")
    case True
    with len put_ok [OF IH(1), of e] IH(2) show ?thesis by simp
  next
    case False
    then have "length (entries ?l) = cap" using len by simp
    moreover have "tl (drop (length ?xs - cap) ?xs) = drop (Suc (length ?xs) - cap) ?xs"
    proof -
      have "Suc (length ?xs) - cap = Suc (length ?xs - cap)" using False by linarith
      then show ?thesis by (simp only: drop_Suc tl_drop)
    qed
    ultimately show ?thesis
      using put_ok [OF IH(1), of e] IH(2) False cap_pos by simp
  qed
qed

end

section \<open>The two loggers implement it\<close>

definition error_log_ok :: "ErrorLogger \<Rightarrow> bool" where
  "error_log_ok l \<longleftrightarrow> length (el_buf l) = kSlots_el \<and> el_head l < kSlots_el \<and> el_tail l < kSlots_el"

definition error_entries :: "ErrorLogger \<Rightarrow> error_entry list" where
  "error_entries l = ring_list (el_buf l) (el_head l) (el_tail l)"

definition error_put :: "error_entry \<Rightarrow> ErrorLogger \<Rightarrow> ErrorLogger" where
  "error_put e = ErrorLogger_log (ee_code e) (ee_timestamp e) (ee_value e)"

lemma error_entry_eta [simp]:
  "\<lparr>ee_code = ee_code e, ee_timestamp = ee_timestamp e, ee_value = ee_value e\<rparr> = e"
  by simp

lemma error_log_full_iff:
  assumes "error_log_ok l"
  shows "Suc (el_head l) mod kSlots_el = el_tail l \<longleftrightarrow> length (error_entries l) = kCapacity_el"
  using assms ring_used_full_iff [of "el_head l" kSlots_el "el_tail l"]
  by (simp add: error_log_ok_def error_entries_def kSlots_el_def)

lemma error_put_entries:
  assumes "error_log_ok l"
  shows "error_log_ok (error_put e l) \<and> error_entries (error_put e l) =
    (if length (error_entries l) = kCapacity_el then tl (error_entries l) else error_entries l) @ [e]"
proof (cases "Suc (el_head l) mod kSlots_el = el_tail l")
  case full: True
  let ?n = kSlots_el and ?h = "el_head l" and ?t = "el_tail l"
  have idx: "length (el_buf l) = ?n" "?h < ?n" "?t < ?n" "1 < ?n"
    using assms by (auto simp: error_log_ok_def kSlots_el_def kCapacity_el_def)
  have ne: "?h \<noteq> ?t"
    using full idx by (auto simp: ring_next_cases split: if_splits)
  have t': "Suc ?t mod ?n < ?n" "Suc ?h mod ?n \<noteq> Suc ?t mod ?n"
    using idx ne ring_next_neq by auto
  have "tl (error_entries l) = ring_list (el_buf l) ?h (Suc ?t mod ?n)"
    using ring_list_pop [of ?h "el_buf l" ?t] idx ne by (simp add: error_entries_def)
  with ring_list_push [of ?h "el_buf l" "Suc ?t mod ?n" e] idx t' full error_log_full_iff [OF assms]
  show ?thesis
    by (simp add: error_put_def ErrorLogger_log_def error_entries_def error_log_ok_def Let_def)
next
  case False
  then show ?thesis
    using assms error_log_full_iff [OF assms] ring_list_push [of "el_head l" "el_buf l" "el_tail l" e]
    by (simp add: error_put_def ErrorLogger_log_def error_entries_def error_log_ok_def Let_def kSlots_el_def)
qed

interpretation error_log: overwrite_log error_log_ok error_entries kCapacity_el "\<lambda>e. e" error_put
  ErrorLogger_count
proof
  fix l assume ok: "error_log_ok l"
  show "length (error_entries l) \<le> kCapacity_el"
    using ok ring_used_less [of "el_head l" kSlots_el "el_tail l"]
    by (simp add: error_log_ok_def error_entries_def kSlots_el_def)
  show "error_log_ok (error_put e l) \<and> error_entries (error_put e l) =
    (if length (error_entries l) = kCapacity_el then tl (error_entries l) else error_entries l) @ [e]" for e
    by (rule error_put_entries [OF ok])
  show "ErrorLogger_count l = length (error_entries l)"
    using ok by (auto simp: ErrorLogger_count_def error_log_ok_def error_entries_def ring_used_def)
qed (simp add: kCapacity_el_def)

definition telemetry_ok :: "TelemetryLogger \<Rightarrow> bool" where
  "telemetry_ok l \<longleftrightarrow> length (tl_buf l) = kCapacity_tl \<and> tl_tail l < kCapacity_tl \<and>
     tl_count l \<le> kCapacity_tl \<and> tl_head l = (tl_tail l + tl_count l) mod kCapacity_tl"

definition telemetry_entries :: "TelemetryLogger \<Rightarrow> telemetry_entry list" where
  "telemetry_entries l = cring_list (tl_buf l) (tl_tail l) (tl_count l)"

text \<open>An entry as the logger stores it: the text cut to 63 characters and terminated.\<close>

definition stored :: "telemetry_entry \<Rightarrow> telemetry_entry" where
  "stored e = e\<lparr>te_text := sput_strncpy (te_text e) (kTextLen - 1) @ [0]\<rparr>"

definition telemetry_put :: "telemetry_entry \<Rightarrow> TelemetryLogger \<Rightarrow> TelemetryLogger" where
  "telemetry_put e = TelemetryLogger_put (te_task e) (te_text e) (te_level e) (te_timestamp e)"

lemma stored_eq:
  "\<lparr>te_timestamp = te_timestamp e, te_task = te_task e, te_level = te_level e,
     te_text = sput_strncpy (te_text e) (kTextLen - 1) @ [0]\<rparr> = stored e"
  by (cases e) (simp add: stored_def)

lemma telemetry_put_entries:
  assumes "telemetry_ok l"
  shows "telemetry_ok (telemetry_put e l) \<and> telemetry_entries (telemetry_put e l) =
    (if length (telemetry_entries l) = kCapacity_tl then tl (telemetry_entries l) else telemetry_entries l)
      @ [stored e]"
proof (cases "tl_count l = kCapacity_tl")
  case full: True
  let ?n = kCapacity_tl and ?t = "tl_tail l"
  let ?t' = "Suc ?t mod ?n"
  have idx: "length (tl_buf l) = ?n" "?t < ?n" "tl_head l = ?t" "0 < ?n"
    using assms full by (auto simp: telemetry_ok_def kCapacity_tl_def)
  obtain m where m: "?n = Suc m" using idx(4) gr0_implies_Suc by blast
  have "(?t' + m) mod ?n = ?t"
  proof -
    have "(?t' + m) mod ?n = (?t + Suc m) mod ?n" by (simp add: mod_simps)
    then show ?thesis using m idx(2) by (metis mod_add_self2 mod_less)
  qed
  moreover have "tl (telemetry_entries l) = cring_list (tl_buf l) ?t' m"
    using cring_list_pop [of ?t "tl_buf l" m] idx full m by (simp add: telemetry_entries_def)
  ultimately show ?thesis
    using cring_list_push [of m "tl_buf l" ?t' "stored e"] idx full m
    unfolding telemetry_put_def TelemetryLogger_put_def stored_eq
    by (simp add: telemetry_entries_def telemetry_ok_def Let_def)
next
  case False
  then have lt: "tl_count l < kCapacity_tl" using assms by (simp add: telemetry_ok_def)
  have "Suc ((tl_tail l + tl_count l) mod kCapacity_tl) mod kCapacity_tl
      = (tl_tail l + Suc (tl_count l)) mod kCapacity_tl"
    by (simp add: mod_simps)
  then show ?thesis
    using assms lt cring_list_push [of "tl_count l" "tl_buf l" "tl_tail l" "stored e"]
    unfolding telemetry_put_def TelemetryLogger_put_def stored_eq
    by (simp add: telemetry_entries_def telemetry_ok_def Let_def)
qed

interpretation telemetry_log: overwrite_log telemetry_ok telemetry_entries kCapacity_tl stored
  telemetry_put tl_count
proof
  show "telemetry_ok l \<Longrightarrow> telemetry_ok (telemetry_put e l) \<and> telemetry_entries (telemetry_put e l) =
    (if length (telemetry_entries l) = kCapacity_tl then tl (telemetry_entries l) else telemetry_entries l)
      @ [stored e]" for l e
    by (rule telemetry_put_entries)
qed (simp_all add: kCapacity_tl_def telemetry_ok_def telemetry_entries_def)

section \<open>Draining\<close>

text \<open>The line of an entry, without the capacity of the builder.\<close>

definition entry_line :: "telemetry_entry \<Rightarrow> byte list" where
  "entry_line e = [91] @ renderU32 16 (ucast (te_timestamp e div 1000)) @ [93] @ [91] @ taskName (te_task e)
     @ [93] @ [32] @ c_string (te_text e) @ [10]"

lemma length_taskName: "length (taskName t) \<le> 15"
  by (cases t) (simp_all add: taskName_def str_def)

lemma length_c_string: "length (c_string (xs @ [0])) \<le> length xs"
  by (induction xs) (simp_all add: c_string_def)

definition text_ok :: "telemetry_entry \<Rightarrow> bool" where
  "text_ok e \<longleftrightarrow> length (c_string (te_text e)) \<le> kTextLen - 1"

lemma text_ok_stored: "text_ok (stored e)"
  using length_c_string [of "sput_strncpy (te_text e) (kTextLen - 1)"]
  by (simp add: text_ok_def stored_def sput_strncpy_def)

lemma length_entry_line: "text_ok e \<Longrightarrow> length (entry_line e) \<le> 94"
  using length_taskName [of "te_task e"] renderU32_length [of "ucast (te_timestamp e div 1000)"]
  by (simp add: entry_line_def text_ok_def kTextLen_def)

lemma format_entry_line:
  assumes "sb_ok sb" "text_ok e"
  shows "sb_ok (format_entry e sb) \<and> sb_str (format_entry e sb) = entry_line e"
proof -
  let ?s0 = "sb_clear sb"
  let ?s1 = "append_char 91 ?s0"
  let ?s2 = "append_u32 (ucast (te_timestamp e div 1000)) ?s1"
  let ?s3 = "append_char 93 ?s2" let ?s4 = "append_char 91 ?s3"
  let ?s5 = "append_str (Some (taskName (te_task e))) ?s4"
  let ?s6 = "append_char 93 ?s5" let ?s7 = "append_char 32 ?s6"
  let ?s8 = "append_str (Some (c_string (te_text e))) ?s7"
  have s0: "sb_ok ?s0" by (rule sb_ok_clear(1) [OF assms(1)])
  have s1: "extends [91] ?s0 ?s1" by (rule extends_char [OF s0])
  have s2: "extends (renderU32 16 (ucast (te_timestamp e div 1000))) ?s1 ?s2"
    by (rule extends_u32 [OF extends_ok [OF s1]])
  have s3: "extends [93] ?s2 ?s3" by (rule extends_char [OF extends_ok [OF s2]])
  have s4: "extends [91] ?s3 ?s4" by (rule extends_char [OF extends_ok [OF s3]])
  have s5: "extends (taskName (te_task e)) ?s4 ?s5" by (rule extends_str [OF extends_ok [OF s4]])
  have s6: "extends [93] ?s5 ?s6" by (rule extends_char [OF extends_ok [OF s5]])
  have s7: "extends [32] ?s6 ?s7" by (rule extends_char [OF extends_ok [OF s6]])
  have s8: "extends (c_string (te_text e)) ?s7 ?s8" by (rule extends_str [OF extends_ok [OF s7]])
  have "extends [10] ?s8 (format_entry e sb)"
    unfolding format_entry_def by (rule extends_char [OF extends_ok [OF s8]])
  then have "extends (entry_line e) ?s0 (format_entry e sb)"
    unfolding entry_line_def
    by (intro extends_trans [OF s1] extends_trans [OF s2] extends_trans [OF s3] extends_trans [OF s4]
        extends_trans [OF s5] extends_trans [OF s6] extends_trans [OF s7] extends_trans [OF s8])
  then show ?thesis
    using length_entry_line [OF assms(2)] sb_ok_clear(2) [of sb]
    by (simp add: extends_def kCapacity_sb_def)
qed

definition passes :: "TelemetryLogger \<Rightarrow> telemetry_entry \<Rightarrow> bool" where
  "passes l e \<longleftrightarrow> verbosity_num (te_level e) \<le> verbosity_num (tl_verbosity l)"

lemma drain_loop_lines:
  assumes "length (tl_buf l) = kCapacity_tl" "tl_tail l < kCapacity_tl" "sb_ok sb"
    and "list_all text_ok (cring_list (tl_buf l) (tl_tail l) n)"
  shows "\<exists>l'. drain_loop f n l sb w
      = (l', fold f (map entry_line (filter (passes l) (cring_list (tl_buf l) (tl_tail l) n))) w) \<and>
    tl_count l' = 0 \<and> tl_buf l' = tl_buf l \<and> tl_head l' = tl_head l \<and>
    tl_tail l' = (tl_tail l + n) mod kCapacity_tl \<and> tl_verbosity l' = tl_verbosity l \<and> tl_guard l' = tl_guard l"
  using assms
proof (induction n arbitrary: l sb w)
  case 0
  then show ?case by (simp add: cring_list_def)
next
  case (Suc n)
  let ?e = "tl_buf l ! tl_tail l"
  let ?l = "l\<lparr>tl_tail := Suc (tl_tail l) mod kCapacity_tl, tl_count := n\<rparr>"
  have split: "cring_list (tl_buf l) (tl_tail l) (Suc n)
      = ?e # cring_list (tl_buf l) (Suc (tl_tail l) mod kCapacity_tl) n"
    using cring_list_pop [of "tl_tail l" "tl_buf l" n] Suc.prems by simp
  have pl: "passes ?l = passes l" by (rule ext) (simp add: passes_def)
  have fe: "sb_ok (format_entry ?e sb)" "sb_str (format_entry ?e sb) = entry_line ?e"
    using format_entry_line [of sb ?e] Suc.prems split by auto
  have idx: "Suc (tl_tail l) mod kCapacity_tl < kCapacity_tl" by (simp add: kCapacity_tl_def)
  have tail: "(Suc (tl_tail l) mod kCapacity_tl + n) mod kCapacity_tl = (tl_tail l + Suc n) mod kCapacity_tl"
    by (simp add: mod_simps)
  show ?case
  proof (cases "passes l ?e")
    case True
    with Suc.IH [of ?l "format_entry ?e sb" "f (entry_line ?e) w"] Suc.prems split fe idx pl tail
    show ?thesis by (auto simp: passes_def Let_def)
  next
    case False
    with Suc.IH [of ?l sb w] Suc.prems split idx pl tail show ?thesis
      by (auto simp: passes_def Let_def)
  qed
qed

section \<open>Properties\<close>

fun error_reads :: "nat \<Rightarrow> ErrorLogger \<Rightarrow> error_entry list" where
  "error_reads 0 l = []"
| "error_reads (Suc n) l =
     (case ErrorLogger_read l of (None, l) \<Rightarrow> [] | (Some e, l) \<Rightarrow> e # error_reads n l)"

lemma error_reads_entries:
  assumes "error_log_ok l"
  shows "error_reads n l = take n (error_entries l)"
  using assms
proof (induction n arbitrary: l)
  case (Suc n)
  show ?case
  proof (cases "el_tail l = el_head l")
    case True
    then show ?thesis by (simp add: ErrorLogger_read_def error_entries_def)
  next
    case False
    let ?l = "l\<lparr>el_tail := Suc (el_tail l) mod kSlots_el\<rparr>"
    have "error_log_ok ?l" using Suc.prems by (simp add: error_log_ok_def)
    then show ?thesis
      using Suc.IH [of ?l] Suc.prems False ring_list_pop [of "el_head l" "el_buf l" "el_tail l"]
      by (simp add: ErrorLogger_read_def error_entries_def error_log_ok_def Let_def)
  qed
qed simp

lemma error_log_ok_init: "error_log_ok ErrorLogger_init"
  by (simp add: error_log_ok_def ErrorLogger_init_def kSlots_el_def)

text \<open>C35: the fault log is a black box of the last 32 events. After any sequence of \<^verbatim>\<open>log()\<close> calls,
  \<^verbatim>\<open>count()\<close> is the number of events up to 32, and successive \<^verbatim>\<open>read()\<close> calls return the most recent 32 of
  them, oldest first.\<close>

theorem error_log_last:
  "ErrorLogger_count (fold error_put es ErrorLogger_init) = min (length es) 32 \<and>
   error_reads n (fold error_put es ErrorLogger_init) = take n (drop (length es - 32) es)"
proof -
  let ?l = "fold error_put es ErrorLogger_init"
  have e0: "error_entries ErrorLogger_init = []"
    by (simp add: error_entries_def ErrorLogger_init_def)
  have ok: "error_log_ok ?l" and ents: "error_entries ?l = drop (length es - 32) es"
    using error_log.puts_last [OF error_log_ok_init, of es] e0 by (simp_all add: kCapacity_el_def)
  have "length (drop (length es - 32) es) = min (length es) 32" by (simp add: min_def)
  then show ?thesis
    using error_reads_entries [OF ok] error_log.count_ok [OF ok] ents by simp
qed

lemma telemetry_ok_init: "telemetry_ok (TelemetryLogger_init g)"
  by (simp add: telemetry_ok_def TelemetryLogger_init_def kCapacity_tl_def)

lemma list_all_drop: "list_all P xs \<Longrightarrow> list_all P (drop n xs)"
  by (auto simp: list_all_iff dest: in_set_dropD)

text \<open>C36: after any sequence of \<^verbatim>\<open>TelemetryLogger::log\<close> calls, \<^verbatim>\<open>drain\<close> hands the callback, oldest first, exactly
  one line per entry among the last 32 whose level is within the verbosity threshold, and removes all
  entries. Each line is complete: \<open>[milliseconds][task] text\<close> and a newline, at most 94 characters, so
  the 127-character builder never truncates it, whatever the length of the logged text.\<close>

theorem telemetry_drain:
  assumes "l = (fold telemetry_put es (TelemetryLogger_init g))\<lparr>tl_verbosity := v\<rparr>"
  shows "\<exists>l'. TelemetryLogger_drain lock unlock (Some f) (l, w) =
       (l', guard_unlock unlock l (fold f (map (\<lambda>e. entry_line (stored e))
          (filter (\<lambda>e. verbosity_num (te_level e) \<le> verbosity_num v) (drop (length es - 32) es)))
          (guard_lock lock l w))) \<and>
     telemetry_entries l' = [] \<and> telemetry_ok l' \<and> (\<forall>e. length (entry_line (stored e)) \<le> 94)"
proof -
  let ?l0 = "fold telemetry_put es (TelemetryLogger_init g)"
  have e0: "telemetry_entries (TelemetryLogger_init g) = []"
    by (simp add: telemetry_entries_def TelemetryLogger_init_def cring_list_def)
  have ok: "telemetry_ok ?l0" and ents: "telemetry_entries ?l0 = drop (length es - 32) (map stored es)"
    using telemetry_log.puts_last [OF telemetry_ok_init, of es g] e0 by (simp_all add: kCapacity_tl_def)
  have ring: "cring_list (tl_buf l) (tl_tail l) (tl_count l) = map stored (drop (length es - 32) es)"
    using ents by (simp add: assms telemetry_entries_def drop_map)
  have all: "list_all text_ok (cring_list (tl_buf l) (tl_tail l) (tl_count l))"
    unfolding ring by (auto simp: list_all_iff text_ok_stored)
  have idx: "length (tl_buf l) = kCapacity_tl" "tl_tail l < kCapacity_tl"
      "tl_head l = (tl_tail l + tl_count l) mod kCapacity_tl"
    using ok by (simp_all add: assms telemetry_ok_def)
  let ?ls = "map entry_line (filter (passes l) (cring_list (tl_buf l) (tl_tail l) (tl_count l)))"
  let ?w = "guard_lock lock l w"
  obtain l' where l': "drain_loop f (tl_count l) l sb_init ?w = (l', fold f ?ls ?w)" "tl_guard l' = tl_guard l" "tl_count l' = 0"
      "tl_buf l' = tl_buf l" "tl_head l' = tl_head l" "tl_tail l' = (tl_tail l + tl_count l) mod kCapacity_tl"
    using drain_loop_lines [OF idx(1,2) sb_ok_init(1) all, of f ?w] by blast
  have "passes l (stored e) = (verbosity_num (te_level e) \<le> verbosity_num v)" for e
    by (simp add: passes_def assms stored_def)
  then have ls: "?ls = map (\<lambda>e. entry_line (stored e))
      (filter (\<lambda>e. verbosity_num (te_level e) \<le> verbosity_num v) (drop (length es - 32) es))"
    unfolding ring by (simp add: filter_map comp_def)
  have "telemetry_entries l' = []" "telemetry_ok l'"
    using l' idx by (simp_all add: telemetry_entries_def cring_list_def telemetry_ok_def kCapacity_tl_def)
  then show ?thesis
    using l'(1,2) ls length_entry_line [OF text_ok_stored]
    by (simp add: TelemetryLogger_drain_def Let_def guard_unlock_def del: fold_map)
qed

theorem telemetry_drain_witness:
  "let es = [\<lparr>te_timestamp = 5000, te_task = SYSTEM, te_level = STATUS, te_text = [79, 75]\<rparr>];
       l = (fold telemetry_put es (TelemetryLogger_init True))\<lparr>tl_verbosity := INFO\<rparr> in
   \<exists>l'. TelemetryLogger_drain (\<lambda>t m. (True, m)) (\<lambda>m. m) (Some (\<lambda>b w. w @ [b])) (l, []) =
     (l', guard_unlock (\<lambda>m. m) l (fold (\<lambda>b w. w @ [b]) (map (\<lambda>e. entry_line (stored e))
        (filter (\<lambda>e. verbosity_num (te_level e) \<le> verbosity_num INFO) (drop (length es - 32) es)))
        (guard_lock (\<lambda>t m. (True, m)) l []))) \<and>
     telemetry_entries l' = [] \<and> telemetry_ok l' \<and> (\<forall>e. length (entry_line (stored e)) \<le> 94)"
  unfolding Let_def by (rule telemetry_drain [OF refl])

end
