(* ===== verification/Config.thy ===== *)
theory Config
  imports SputPrelude
begin

text \<open>
  The user's configuration struct and its trait extractors (\<^verbatim>\<open>include/sputteros/ConfigTraits.h\<close>).

  A configuration is a record: the members every struct has, the optional members as \<open>option\<close>s (\<open>None\<close>
  when the struct does not declare one), and the one property of the target that the sources depend on,
  the width of \<^verbatim>\<open>long\<close>. Each \<^verbatim>\<open>CfgX<Cfg>::value\<close> is a function of the record. \<^verbatim>\<open>Cfg::Command\<close> has the three
  fields the framework requires; a \<^verbatim>\<open>CmdID\<close> is its \<^verbatim>\<open>uint8_t\<close> value.
\<close>

record command =
  cmd_id :: byte
  targetDevice :: byte
  cmd_value :: f32

definition command_default :: command where
  "command_default = \<lparr>cmd_id = 0, targetDevice = 0, cmd_value = 0\<rparr>"

record Cfg =
  kCoreCount :: nat
  kQueueCapacity :: nat
  kMaxCommandsPerTick :: "nat option"
  kMaxValidCommandID :: "byte option"
  kControlBudgetUs :: "u32 option"
  kMaxLineLen :: "nat option"
  kMaxFramePayload :: "nat option"
  kMaxBackgroundTasks :: "nat option"
  kCommsBudgetUs :: "micros option"
  kMinSchedulePeriodUs :: "micros option"
  kMetricsWindowUs :: "micros option"
  kCrunchMaxOverruns :: "u32 option"
  kErrorLogCapacity :: "nat option"
  kTelemetryLogCapacity :: "nat option"
  kMaxInterlockConditions :: "nat option"
  kMaxSlotsPerCore :: "nat option"
  kDiagsBudgetUs :: "micros option"
  kMinGapSliceUs :: "micros option"
  kStrictWCET :: "bool option"
  kIsrContextBudgetUs :: "micros list option"
  longBits :: nat

definition kMaxTasksPerCore :: nat where "kMaxTasksPerCore = 256"
definition kMaxDevicesPerTask :: nat where "kMaxDevicesPerTask = 256"

text \<open>The static assertions of \<^verbatim>\<open>ConfigValidator\<close> that are about values.\<close>

definition ConfigValidator :: "Cfg \<Rightarrow> bool" where
  "ConfigValidator cfg \<longleftrightarrow> kCoreCount cfg \<ge> 1 \<and> kQueueCapacity cfg > 0"

definition cfg_or :: "'a \<Rightarrow> 'a option \<Rightarrow> 'a" where
  "cfg_or d m = (case m of None \<Rightarrow> d | Some v \<Rightarrow> v)"

definition CfgMaxCommandsPerTick :: "Cfg \<Rightarrow> nat" where
  "CfgMaxCommandsPerTick cfg = cfg_or 8 (kMaxCommandsPerTick cfg)"

definition CfgMaxValidCommandID :: "Cfg \<Rightarrow> byte" where
  "CfgMaxValidCommandID cfg = cfg_or 255 (kMaxValidCommandID cfg)"

definition CfgControlBudgetUs :: "Cfg \<Rightarrow> u32" where
  "CfgControlBudgetUs cfg = cfg_or 10000 (kControlBudgetUs cfg)"

definition CfgMaxLineLen :: "Cfg \<Rightarrow> nat" where
  "CfgMaxLineLen cfg = cfg_or 64 (kMaxLineLen cfg)"

definition CfgMaxFramePayload :: "Cfg \<Rightarrow> nat" where
  "CfgMaxFramePayload cfg = cfg_or 256 (kMaxFramePayload cfg)"

definition CfgMaxBackgroundTasks :: "Cfg \<Rightarrow> nat" where
  "CfgMaxBackgroundTasks cfg = cfg_or 16 (kMaxBackgroundTasks cfg)"

definition CfgCommsBudgetUs :: "Cfg \<Rightarrow> micros" where
  "CfgCommsBudgetUs cfg = cfg_or 1000 (kCommsBudgetUs cfg)"

definition CfgMinSchedulePeriodUs :: "Cfg \<Rightarrow> micros" where
  "CfgMinSchedulePeriodUs cfg = cfg_or 10 (kMinSchedulePeriodUs cfg)"

definition CfgMetricsWindowUs :: "Cfg \<Rightarrow> micros" where
  "CfgMetricsWindowUs cfg = cfg_or 60000000 (kMetricsWindowUs cfg)"

definition CfgCrunchMaxOverruns :: "Cfg \<Rightarrow> u32" where
  "CfgCrunchMaxOverruns cfg = cfg_or 10 (kCrunchMaxOverruns cfg)"

text \<open>Extractors that no other source reads; the capacities and budgets they name are fixed in the components.\<close>

definition CfgErrorLogCapacity :: "Cfg \<Rightarrow> nat" where
  "CfgErrorLogCapacity cfg = cfg_or 32 (kErrorLogCapacity cfg)"

definition CfgTelemetryLogCapacity :: "Cfg \<Rightarrow> nat" where
  "CfgTelemetryLogCapacity cfg = cfg_or 32 (kTelemetryLogCapacity cfg)"

definition CfgMaxInterlockConditions :: "Cfg \<Rightarrow> nat" where
  "CfgMaxInterlockConditions cfg = cfg_or 8 (kMaxInterlockConditions cfg)"

definition CfgMaxSlotsPerCore :: "Cfg \<Rightarrow> nat" where
  "CfgMaxSlotsPerCore cfg = cfg_or 32 (kMaxSlotsPerCore cfg)"

definition CfgDiagsBudgetUs :: "Cfg \<Rightarrow> micros" where
  "CfgDiagsBudgetUs cfg = cfg_or 10000 (kDiagsBudgetUs cfg)"

definition CfgMinGapSliceUs :: "Cfg \<Rightarrow> micros" where
  "CfgMinGapSliceUs cfg = cfg_or 10 (kMinGapSliceUs cfg)"

definition CfgStrictWCET :: "Cfg \<Rightarrow> bool" where
  "CfgStrictWCET cfg = cfg_or False (kStrictWCET cfg)"

definition CfgIsrContextBudgetUs :: "Cfg \<Rightarrow> micros list" where
  "CfgIsrContextBudgetUs cfg = cfg_or [0, 0] (kIsrContextBudgetUs cfg)"

lemmas cfg_traits = cfg_or_def CfgMaxCommandsPerTick_def CfgMaxValidCommandID_def CfgControlBudgetUs_def
  CfgMaxLineLen_def CfgMaxFramePayload_def CfgMaxBackgroundTasks_def CfgCommsBudgetUs_def
  CfgMinSchedulePeriodUs_def CfgMetricsWindowUs_def CfgCrunchMaxOverruns_def

text \<open>The two-core configuration with every default, on a target with a 32-bit \<^verbatim>\<open>long\<close>, used by the
  witnesses.\<close>

definition example_cfg :: Cfg where
  "example_cfg = \<lparr>kCoreCount = 2, kQueueCapacity = 16, kMaxCommandsPerTick = None,
     kMaxValidCommandID = None, kControlBudgetUs = None, kMaxLineLen = None, kMaxFramePayload = None,
     kMaxBackgroundTasks = None, kCommsBudgetUs = None, kMinSchedulePeriodUs = None,
     kMetricsWindowUs = None, kCrunchMaxOverruns = None, kErrorLogCapacity = None,
     kTelemetryLogCapacity = None, kMaxInterlockConditions = None, kMaxSlotsPerCore = None, kDiagsBudgetUs = None,
     kMinGapSliceUs = None, kStrictWCET = None, kIsrContextBudgetUs = None, longBits = 32\<rparr>"

lemma example_cfg_simps [simp]:
  "kCoreCount example_cfg = 2" "kQueueCapacity example_cfg = 16" "longBits example_cfg = 32"
  "CfgMaxCommandsPerTick example_cfg = 8" "CfgMaxValidCommandID example_cfg = 255"
  "CfgControlBudgetUs example_cfg = 10000" "CfgMaxLineLen example_cfg = 64"
  "CfgMaxBackgroundTasks example_cfg = 16" "CfgCommsBudgetUs example_cfg = 1000"
  "CfgMinSchedulePeriodUs example_cfg = 10" "CfgMetricsWindowUs example_cfg = 60000000"
  "CfgCrunchMaxOverruns example_cfg = 10"
  by (simp_all add: example_cfg_def cfg_traits)

end
