(* ===== verification/CNumbers.thy ===== *)
theory CNumbers
  imports StringBuilder
begin

text \<open>
  What the sources use of \<^verbatim>\<open><cstdlib>\<close>: \<^verbatim>\<open>strtol\<close> in base ten and \<^verbatim>\<open>strtof\<close>, in the C locale, on the
  characters before the terminator. The result is the value and the rest of the string at \<^verbatim>\<open>end\<close>, or
  \<open>None\<close> when no conversion is performed (then \<^verbatim>\<open>end == cursor\<close>). The width of \<^verbatim>\<open>long\<close> is a parameter.
  \<^verbatim>\<open>strtof\<close> rounds correctly and covers decimal, hexadecimal, infinity and not-a-number subjects.
\<close>

definition isspace :: "byte \<Rightarrow> bool" where
  "isspace c \<longleftrightarrow> c = 32 \<or> (9 \<le> c \<and> c \<le> 13)"

definition tolower :: "byte \<Rightarrow> byte" where
  "tolower c = (if 65 \<le> c \<and> c \<le> 90 then c + 32 else c)"

definition skip_space :: "cstr \<Rightarrow> cstr" where
  "skip_space s = dropWhile isspace s"

text \<open>An optional sign: whether it is a minus, and the rest.\<close>

fun take_sign :: "cstr \<Rightarrow> bool \<times> cstr" where
  "take_sign [] = (False, [])"
| "take_sign (c # cs) = (if c = 45 then (True, cs) else if c = 43 then (False, cs) else (False, c # cs))"

definition digit_val :: "byte \<Rightarrow> nat" where
  "digit_val c = unat c - 48"

definition take_digits :: "cstr \<Rightarrow> cstr \<times> cstr" where
  "take_digits s = (takeWhile is_digit s, dropWhile is_digit s)"

definition strtol :: "nat \<Rightarrow> cstr \<Rightarrow> (int \<times> cstr) option" where
  "strtol longBits s =
     (let (neg, r) = take_sign (skip_space s); (ds, rest) = take_digits r in
      if ds = [] then None
      else
        let v = int (dec_value ds); v = (if neg then - v else v);
            hi = 2 ^ (longBits - 1) - 1; lo = - (2 ^ (longBits - 1)) in
        Some (if v > hi then hi else if v < lo then lo else v, rest))"

section \<open>strtof\<close>

definition is_xdigit :: "byte \<Rightarrow> bool" where
  "is_xdigit c \<longleftrightarrow> is_digit c \<or> (97 \<le> tolower c \<and> tolower c \<le> 102)"

definition xdigit_val :: "byte \<Rightarrow> nat" where
  "xdigit_val c = (if is_digit c then digit_val c else unat (tolower c) - 87)"

definition prefix_ci :: "cstr \<Rightarrow> cstr \<Rightarrow> bool" where
  "prefix_ci p s \<longleftrightarrow> length p \<le> length s \<and> map tolower (take (length p) s) = p"

text \<open>The digits before and after the point, as one number and the count of those after it.\<close>

definition take_mantissa :: "(byte \<Rightarrow> bool) \<Rightarrow> cstr \<Rightarrow> (cstr \<times> nat \<times> cstr) option" where
  "take_mantissa isd s =
     (let a = takeWhile isd s; r = dropWhile isd s in
      case r of
        (c # cs) \<Rightarrow>
          if c = 46 then
            let b = takeWhile isd cs; r' = dropWhile isd cs in
            if a = [] \<and> b = [] then None else Some (a @ b, length b, r')
          else if a = [] then None else Some (a, 0, r)
      | [] \<Rightarrow> if a = [] then None else Some (a, 0, []))"

text \<open>An exponent part \<open>e\<close>, sign, digits; absent when no digit follows.\<close>

definition take_exponent :: "byte \<Rightarrow> cstr \<Rightarrow> int \<times> cstr" where
  "take_exponent mark s =
     (case s of
        (c # cs) \<Rightarrow>
          if tolower c = mark then
            let (neg, r) = take_sign cs; (ds, rest) = take_digits r in
            if ds = [] then (0, s) else ((if neg then - int (dec_value ds) else int (dec_value ds)), rest)
          else (0, s)
      | [] \<Rightarrow> (0, s))"

definition f32_of_scaled10 :: "bool \<Rightarrow> nat \<Rightarrow> int \<Rightarrow> f32" where
  "f32_of_scaled10 neg m e = f32_round neg (int m * 10 ^ nat e) (10 ^ nat (- e))"

definition f32_of_scaled2 :: "bool \<Rightarrow> nat \<Rightarrow> int \<Rightarrow> f32" where
  "f32_of_scaled2 neg m e = f32_round neg (int m * 2 ^ nat e) (2 ^ nat (- e))"

definition hex_value :: "cstr \<Rightarrow> nat" where
  "hex_value ds = foldl (\<lambda>n d. 16 * n + xdigit_val d) 0 ds"

definition strtof_decimal :: "bool \<Rightarrow> cstr \<Rightarrow> (f32 \<times> cstr) option" where
  "strtof_decimal neg s =
     (case take_mantissa is_digit s of
        None \<Rightarrow> None
      | Some (ds, k, rest) \<Rightarrow>
          let (e, rest) = take_exponent 101 rest in
          Some (f32_of_scaled10 neg (dec_value ds) (e - int k), rest))"

definition strtof_hex :: "bool \<Rightarrow> cstr \<Rightarrow> (f32 \<times> cstr) option" where
  "strtof_hex neg s =
     (case take_mantissa is_xdigit s of
        None \<Rightarrow> None
      | Some (ds, k, rest) \<Rightarrow>
          let (e, rest) = take_exponent 112 rest in
          Some (f32_of_scaled2 neg (hex_value ds) (e - 4 * int k), rest))"

definition is_nan_char :: "byte \<Rightarrow> bool" where
  "is_nan_char c \<longleftrightarrow> is_digit c \<or> (97 \<le> tolower c \<and> tolower c \<le> 122) \<or> c = 95"

definition nan_suffix :: "cstr \<Rightarrow> cstr" where
  "nan_suffix s =
     (case s of
        (c # cs) \<Rightarrow>
          if c = 40 then
            (case dropWhile is_nan_char cs of (d # ds) \<Rightarrow> if d = 41 then ds else s | [] \<Rightarrow> s)
          else s
      | [] \<Rightarrow> s)"

definition strtof :: "cstr \<Rightarrow> (f32 \<times> cstr) option" where
  "strtof s =
     (let (neg, r) = take_sign (skip_space s) in
      if prefix_ci (str ''infinity'') r then Some (f32_inf neg, drop 8 r)
      else if prefix_ci (str ''inf'') r then Some (f32_inf neg, drop 3 r)
      else if prefix_ci (str ''nan'') r then
        Some (if neg then f32_uminus f32_nan else f32_nan, nan_suffix (drop 3 r))
      else if prefix_ci (str ''0x'') r then
        (case strtof_hex neg (drop 2 r) of
           Some res \<Rightarrow> Some res
         | None \<Rightarrow> strtof_decimal neg r)
      else strtof_decimal neg r)"

end
