(* ===== verification/CommandParser.thy ===== *)
theory CommandParser
  imports Config CNumbers Loggers
begin

text \<open>
  The line parser of text mode (\<^verbatim>\<open>include/sputteros/logic/CommandParser.h\<close>). The line is what the C
  library sees: the bytes of \<^verbatim>\<open>m_buf\<close> before the first terminator.
\<close>

record CommandParser =
  cp_buf :: "byte list"
  cp_len :: nat
  cp_pending :: command
  cp_hasPending :: bool

definition CommandParser_init :: "Cfg \<Rightarrow> CommandParser" where
  "CommandParser_init cfg = \<lparr>cp_buf = replicate (CfgMaxLineLen cfg) 0, cp_len = 0,
     cp_pending = command_default, cp_hasPending = False\<rparr>"

text \<open>\<^verbatim>\<open>*end != ' ' && *end != '\t'\<close> at the rest of the string.\<close>

definition at_separator :: "cstr \<Rightarrow> bool" where
  "at_separator rest \<longleftrightarrow> (case rest of [] \<Rightarrow> False | c # _ \<Rightarrow> c = 32 \<or> c = 9)"

definition parseLine :: "Cfg \<Rightarrow> CommandParser \<Rightarrow> bool \<times> CommandParser" where
  "parseLine cfg p =
     (case strtol (longBits cfg) (c_string (cp_buf p)) of
        None \<Rightarrow> (False, p)
      | Some (rawId, rest) \<Rightarrow>
          if \<not> at_separator rest then (False, p)
          else (case strtol (longBits cfg) rest of
             None \<Rightarrow> (False, p)
           | Some (rawDevice, rest) \<Rightarrow>
               if \<not> at_separator rest then (False, p)
               else (case strtof rest of
                  None \<Rightarrow> (False, p)
                | Some (rawValue, rest) \<Rightarrow>
                    if rawId < 0 \<or> rawId > uint (CfgMaxValidCommandID cfg) then (False, p)
                    else (True, p\<lparr>cp_pending := \<lparr>cmd_id = word_of_int rawId,
                            targetDevice = word_of_int rawDevice, cmd_value = rawValue\<rparr>,
                          cp_hasPending := True\<rparr>))))"

definition CommandParser_feedByte :: "Cfg \<Rightarrow> byte \<Rightarrow> CommandParser \<Rightarrow> bool \<times> CommandParser" where
  "CommandParser_feedByte cfg b p =
     (if b = 10 \<or> b = 13 then
        if cp_len p > 0 then
          let p = p\<lparr>cp_buf := (cp_buf p)[cp_len p := 0]\<rparr>;
              (ok, p) = parseLine cfg p in
          (ok, p\<lparr>cp_len := 0\<rparr>)
        else (False, p)
      else if cp_len p \<ge> CfgMaxLineLen cfg - 1 then (False, p\<lparr>cp_len := 0\<rparr>)
      else (False, p\<lparr>cp_buf := (cp_buf p)[cp_len p := b], cp_len := cp_len p + 1\<rparr>))"

definition CommandParser_getCommand :: "CommandParser \<Rightarrow> command option \<times> CommandParser" where
  "CommandParser_getCommand p =
     (if \<not> cp_hasPending p then (None, p) else (Some (cp_pending p), p\<lparr>cp_hasPending := False\<rparr>))"

definition CommandParser_reset :: "CommandParser \<Rightarrow> CommandParser" where
  "CommandParser_reset p = p\<lparr>cp_len := 0, cp_hasPending := False\<rparr>"

section \<open>Invariant\<close>

definition parser_ok :: "Cfg \<Rightarrow> CommandParser \<Rightarrow> bool" where
  "parser_ok cfg p \<longleftrightarrow> length (cp_buf p) = CfgMaxLineLen cfg \<and> cp_len p < CfgMaxLineLen cfg \<and>
     (cp_hasPending p \<longrightarrow> cmd_id (cp_pending p) \<le> CfgMaxValidCommandID cfg)"

lemma parser_ok_init: "0 < CfgMaxLineLen cfg \<Longrightarrow> parser_ok cfg (CommandParser_init cfg)"
  by (simp add: parser_ok_def CommandParser_init_def)

lemma word_of_int_le:
  "0 \<le> i \<Longrightarrow> i \<le> uint (m :: byte) \<Longrightarrow> (word_of_int i :: byte) \<le> m"
  using uint_lt2p [of m]
  by (simp add: word_le_def unsigned_of_int take_bit_int_eq_self)

lemma parseLine_ok: "parser_ok cfg p \<Longrightarrow> parser_ok cfg (snd (parseLine cfg p))"
  by (auto simp: parseLine_def parser_ok_def word_of_int_le split: option.splits prod.splits if_splits)

lemma parseLine_len [simp]: "cp_len (snd (parseLine cfg p)) = cp_len p"
  by (auto simp: parseLine_def split: option.splits prod.splits)

lemma feed_ok: "parser_ok cfg p \<Longrightarrow> parser_ok cfg (snd (CommandParser_feedByte cfg b p))"
  using parseLine_ok [of cfg "p\<lparr>cp_buf := (cp_buf p)[cp_len p := 0]\<rparr>"]
  by (auto simp: CommandParser_feedByte_def Let_def split: prod.splits) (auto simp: parser_ok_def)

lemma getCommand_ok: "parser_ok cfg p \<Longrightarrow> parser_ok cfg (snd (CommandParser_getCommand p))"
  by (simp add: CommandParser_getCommand_def parser_ok_def)

lemma reset_ok: "parser_ok cfg p \<Longrightarrow> parser_ok cfg (CommandParser_reset p)"
  by (auto simp: CommandParser_reset_def parser_ok_def)

lemma feed_true_pending:
  "fst (CommandParser_feedByte cfg b p) \<Longrightarrow> cp_hasPending (snd (CommandParser_feedByte cfg b p))"
  by (auto simp: CommandParser_feedByte_def parseLine_def Let_def split: option.splits prod.splits if_splits)

lemma feed_keeps_pending:
  "cp_hasPending p \<Longrightarrow> cp_hasPending (snd (CommandParser_feedByte cfg b p))"
  by (auto simp: CommandParser_feedByte_def parseLine_def Let_def split: option.splits prod.splits if_splits)

section \<open>Feeding a line\<close>

fun parser_feeds :: "Cfg \<Rightarrow> byte list \<Rightarrow> CommandParser \<Rightarrow> bool list \<times> CommandParser" where
  "parser_feeds cfg [] p = ([], p)"
| "parser_feeds cfg (b # bs) p =
     (let (r, p) = CommandParser_feedByte cfg b p; (rs, p) = parser_feeds cfg bs p in (r # rs, p))"

lemma parser_feeds_append:
  "parser_feeds cfg (xs @ ys) p =
     (let (rs, p) = parser_feeds cfg xs p; (rs', p) = parser_feeds cfg ys p in (rs @ rs', p))"
  by (induction xs arbitrary: p) (auto simp: Let_def split: prod.splits)

lemma parser_feeds_ok: "parser_ok cfg p \<Longrightarrow> parser_ok cfg (snd (parser_feeds cfg bs p))"
proof (induction bs arbitrary: p)
  case (Cons b bs)
  from Cons.IH [OF feed_ok [OF Cons.prems]] show ?case by (simp add: Let_def case_prod_unfold)
qed simp

definition eol :: "byte \<Rightarrow> bool" where
  "eol b \<longleftrightarrow> b = 10 \<or> b = 13"

lemma parser_feeds_chars:
  "\<forall>b \<in> set xs. \<not> eol b \<Longrightarrow> cp_len p + length xs < CfgMaxLineLen cfg \<Longrightarrow>
   length (cp_buf p) = CfgMaxLineLen cfg \<Longrightarrow>
   \<exists>buf. parser_feeds cfg xs p
       = (replicate (length xs) False, p\<lparr>cp_buf := buf, cp_len := cp_len p + length xs\<rparr>) \<and>
     length buf = CfgMaxLineLen cfg \<and>
     take (cp_len p + length xs) buf = take (cp_len p) (cp_buf p) @ xs"
proof (induction xs arbitrary: p)
  case Nil
  show ?case by (intro exI [of _ "cp_buf p"]) (use Nil in simp)
next
  case (Cons b xs)
  let ?p = "p\<lparr>cp_buf := (cp_buf p)[cp_len p := b], cp_len := cp_len p + 1\<rparr>"
  have step: "CommandParser_feedByte cfg b p = (False, ?p)"
    using Cons.prems by (auto simp: CommandParser_feedByte_def eol_def)
  obtain buf where buf: "parser_feeds cfg xs ?p
       = (replicate (length xs) False, ?p\<lparr>cp_buf := buf, cp_len := cp_len ?p + length xs\<rparr>)"
     "length buf = CfgMaxLineLen cfg"
     "take (cp_len ?p + length xs) buf = take (cp_len ?p) (cp_buf ?p) @ xs"
    using Cons.IH [of ?p] Cons.prems by auto
  have "take (Suc (cp_len p)) ((cp_buf p)[cp_len p := b]) = take (cp_len p) (cp_buf p) @ [b]"
    using Cons.prems by (simp add: take_Suc_conv_app_nth)
  with step buf show ?case by (intro exI [of _ buf]) simp
qed

lemma c_string_terminated: "0 \<notin> set xs \<Longrightarrow> c_string (xs @ 0 # zs) = xs"
  by (subst c_string_def, subst takeWhile_append2) auto

lemma parser_feeds_line:
  assumes "parser_ok cfg p" "cp_len p = 0" "\<forall>b \<in> set xs. \<not> eol b" "0 \<notin> set xs"
    and "length xs < CfgMaxLineLen cfg" "xs \<noteq> []" "eol e"
  obtains buf where "c_string buf = xs" "length buf = CfgMaxLineLen cfg"
    and "parser_feeds cfg (xs @ [e]) p =
      (let (ok, p') = parseLine cfg (p\<lparr>cp_len := length xs, cp_buf := buf\<rparr>) in
       (replicate (length xs) False @ [ok], p'\<lparr>cp_len := 0\<rparr>))"
proof -
  obtain buf where buf: "parser_feeds cfg xs p
       = (replicate (length xs) False, p\<lparr>cp_buf := buf, cp_len := length xs\<rparr>)"
     "length buf = CfgMaxLineLen cfg" "take (length xs) buf = xs"
    using parser_feeds_chars [of xs p cfg] assms by (auto simp: parser_ok_def)
  have "buf[length xs := 0] = xs @ 0 # drop (Suc (length xs)) buf"
    using buf assms(5) by (simp add: upd_conv_take_nth_drop)
  then have "c_string (buf[length xs := 0]) = xs" using assms(4) by (simp add: c_string_terminated)
  then show ?thesis
    using buf assms(6,7)
    by (intro that [of "buf[length xs := 0]"])
       (auto simp: parser_feeds_append CommandParser_feedByte_def eol_def Let_def case_prod_unfold)
qed

section \<open>Decimal subjects\<close>

lemma digit_not_special:
  assumes "is_digit c"
  shows "\<not> isspace c" "c \<noteq> 45" "c \<noteq> 43" "c \<noteq> 46" "tolower c = c" "c \<noteq> 0" "\<not> eol c"
    "c \<noteq> 105" "c \<noteq> 110" "c \<noteq> 120"
  using assms by (auto simp: is_digit_def isspace_def tolower_def eol_def word_le_nat_alt)

lemma takeWhile_digits:
  "list_all is_digit ds \<Longrightarrow> rest = [] \<or> \<not> is_digit (hd rest) \<Longrightarrow>
   takeWhile is_digit (ds @ rest) = ds \<and> dropWhile is_digit (ds @ rest) = rest"
  by (induction ds) (auto simp: takeWhile_eq_Nil_iff dropWhile_eq_self_iff)

lemma skip_space_digits:
  assumes "list_all isspace sp" "list_all is_digit ds" "ds \<noteq> []"
  shows "skip_space (sp @ ds @ rest) = ds @ rest"
proof -
  obtain d ds' where "ds = d # ds'" using assms(3) by (cases ds) auto
  then show ?thesis
    using assms digit_not_special(1) [of d]
    by (simp add: skip_space_def dropWhile_append2 list_all_iff)
qed

lemma take_sign_digits:
  "list_all is_digit ds \<Longrightarrow> ds \<noteq> [] \<Longrightarrow> take_sign (ds @ rest) = (False, ds @ rest)"
  by (cases ds) (auto dest: digit_not_special)

lemma strtol_digits:
  assumes "list_all isspace sp" "list_all is_digit ds" "ds \<noteq> []" "rest = [] \<or> \<not> is_digit (hd rest)"
    and "int (dec_value ds) < 2 ^ (w - 1)"
  shows "strtol w (sp @ ds @ rest) = Some (int (dec_value ds), rest)"
  using assms takeWhile_digits [OF assms(2,4)] zle_diff1_eq [THEN iffD2, OF assms(5)]
    order_trans [of "- (2 ^ (w - 1))" 0 "int (dec_value ds)"]
  by (simp add: strtol_def not_less skip_space_digits take_sign_digits take_digits_def Let_def)

text \<open>A decimal number as a host types it: an optional sign, digits, and possibly a point with more digits; and the
  \<^verbatim>\<open>float\<close> nearest to it.\<close>

definition decimal :: "cstr \<Rightarrow> cstr \<Rightarrow> cstr option \<Rightarrow> cstr" where
  "decimal sign ds frac = sign @ ds @ (case frac of None \<Rightarrow> [] | Some fs \<Rightarrow> 46 # fs)"

definition frac_digits :: "cstr option \<Rightarrow> cstr" where
  "frac_digits frac = (case frac of None \<Rightarrow> [] | Some fs \<Rightarrow> fs)"

definition decimal_ok :: "cstr \<Rightarrow> cstr \<Rightarrow> cstr option \<Rightarrow> bool" where
  "decimal_ok sign ds frac \<longleftrightarrow> sign \<in> {[], [43], [45]} \<and> list_all is_digit (ds @ frac_digits frac) \<and>
     ds @ frac_digits frac \<noteq> []"

definition decimal_value :: "cstr \<Rightarrow> cstr \<Rightarrow> cstr option \<Rightarrow> f32" where
  "decimal_value sign ds frac =
     f32_round (sign = [45]) (int (dec_value (ds @ frac_digits frac))) (10 ^ length (frac_digits frac))"

lemma decimal_chars:
  assumes "decimal_ok sign ds frac" "c \<in> set (decimal sign ds frac)"
  shows "is_digit c \<or> c \<in> {43, 45, 46}"
  using assms by (auto simp: decimal_ok_def decimal_def frac_digits_def list_all_iff split: option.splits)

lemma unsigned_chars:
  assumes "decimal_ok sign ds frac" "c \<in> set (decimal [] ds frac)"
  shows "is_digit c \<or> c = 46"
  using assms by (auto simp: decimal_ok_def decimal_def frac_digits_def list_all_iff split: option.splits)

lemma prefix_ci_chars: "prefix_ci p s \<Longrightarrow> c \<in> set p \<Longrightarrow> \<exists>d \<in> set s. tolower d = c"
proof -
  assume "prefix_ci p s" "c \<in> set p"
  then have "c \<in> set (map tolower (take (length p) s))" by (simp add: prefix_ci_def)
  then show ?thesis by (auto dest: in_set_takeD)
qed

lemma no_word_prefix:
  assumes "decimal_ok sign ds frac" "c \<in> set p" "\<not> is_digit c" "c \<noteq> 46"
  shows "\<not> prefix_ci p (decimal [] ds frac)"
proof
  assume "prefix_ci p (decimal [] ds frac)"
  then obtain d where "d \<in> set (decimal [] ds frac)" "tolower d = c" using prefix_ci_chars assms(2) by blast
  moreover from this have "is_digit d \<or> d = 46" using unsigned_chars [OF assms(1)] by blast
  then have "tolower d = d"
    using digit_not_special(5) [of d] by (cases "is_digit d") (simp, simp add: tolower_def)
  ultimately show False using \<open>is_digit d \<or> d = 46\<close> assms(3,4) by auto
qed

lemma unsigned_mantissa:
  assumes "decimal_ok sign ds frac"
  shows "take_mantissa is_digit (decimal [] ds frac) = Some (ds @ frac_digits frac, length (frac_digits frac), [])"
proof (cases frac)
  case None
  then have ds: "list_all is_digit ds" "ds \<noteq> []" using assms by (simp_all add: decimal_ok_def frac_digits_def)
  have tw: "takeWhile is_digit ds = ds" "dropWhile is_digit ds = []"
    using takeWhile_digits [OF ds(1), of "[]"] by simp_all
  show ?thesis using None ds by (simp add: decimal_def frac_digits_def take_mantissa_def Let_def tw)
next
  case (Some fs)
  then have ds: "list_all is_digit ds" "list_all is_digit fs" "ds = [] \<longrightarrow> fs \<noteq> []"
    using assms by (auto simp: decimal_ok_def frac_digits_def)
  have tw: "takeWhile is_digit (ds @ 46 # fs) = ds" "dropWhile is_digit (ds @ 46 # fs) = 46 # fs"
    using takeWhile_digits [OF ds(1), of "46 # fs"] by (simp_all add: is_digit_def)
  have tw': "takeWhile is_digit fs = fs" "dropWhile is_digit fs = []"
    using takeWhile_digits [OF ds(2), of "[]"] by simp_all
  show ?thesis using Some ds(3) by (simp add: decimal_def frac_digits_def take_mantissa_def Let_def tw tw')
qed

lemma strtof_decimal_number:
  assumes "list_all isspace sp" "decimal_ok sign ds frac"
  shows "strtof (sp @ decimal sign ds frac) = Some (decimal_value sign ds frac, [])"
proof -
  let ?u = "decimal [] ds frac"
  have d: "decimal sign ds frac = sign @ ?u" by (simp add: decimal_def)
  obtain c cs where u: "?u = c # cs"
    using assms(2) by (cases ?u) (auto simp: decimal_def decimal_ok_def frac_digits_def split: option.splits)
  have c: "is_digit c \<or> c = 46" using unsigned_chars [OF assms(2), of c] by (simp add: u)
  then have first: "\<not> isspace c" "c \<noteq> 45" "c \<noteq> 43" using digit_not_special [of c] by (auto simp: isspace_def)
  have sign: "sign \<in> {[], [43], [45]}" using assms(2) by (simp add: decimal_ok_def)
  have "\<not> isspace (hd (sign @ ?u))" "sign @ ?u \<noteq> []"
    using sign first(1) by (auto simp: u isspace_def)
  then have skip: "skip_space (sp @ decimal sign ds frac) = sign @ ?u"
    using assms(1) unfolding d by (cases "sign @ ?u") (simp_all add: skip_space_def dropWhile_append2 list_all_iff)
  have sg: "take_sign (sign @ ?u) = (sign = [45], ?u)"
    using sign first(2,3) by (auto simp: u)
  have no: "\<not> prefix_ci (str ''infinity'') ?u" "\<not> prefix_ci (str ''inf'') ?u" "\<not> prefix_ci (str ''nan'') ?u"
      "\<not> prefix_ci (str ''0x'') ?u"
    by (rule no_word_prefix [OF assms(2), of 105] no_word_prefix [OF assms(2), of 110] no_word_prefix [OF assms(2), of 120];
        simp add: str_def is_digit_def)+
  have "strtof_decimal (sign = [45]) ?u = Some (decimal_value sign ds frac, [])"
    by (simp add: strtof_decimal_def unsigned_mantissa [OF assms(2)] take_exponent_def f32_of_scaled10_def decimal_value_def)
  then show ?thesis by (simp add: strtof_def skip sg no)
qed

section \<open>Properties\<close>

text \<open>A command line \<^verbatim>\<open><id> <device> <float>\<close>: the decimal images of the identifier and the device and a decimal number,
  separated by any blanks and tabs.\<close>

definition command_line :: "byte \<Rightarrow> cstr \<Rightarrow> byte \<Rightarrow> cstr \<Rightarrow> cstr \<Rightarrow> byte list" where
  "command_line i sp1 d sp2 number = renderU32 16 (ucast i) @ sp1 @ renderU32 16 (ucast d) @ sp2 @ number"

definition blanks :: "cstr \<Rightarrow> bool" where
  "blanks sp \<longleftrightarrow> sp \<noteq> [] \<and> set sp \<subseteq> {9, 32}"

lemma blanks_space: "blanks sp \<Longrightarrow> list_all isspace sp \<and> at_separator (sp @ r) \<and> \<not> is_digit (hd (sp @ r))"
  by (cases sp) (auto simp: blanks_def list_all_iff isspace_def at_separator_def is_digit_def)

lemma render_byte:
  "dec_value (renderU32 16 (ucast (b :: byte))) = unat b" "length (renderU32 16 (ucast b)) \<le> 3"
proof -
  have lt: "unat b < 256" using unsigned_less [of b, where 'a = nat] by simp
  then have u: "unat (ucast b :: u32) = unat b"
    by (simp add: unsigned_ucast_eq take_bit_nat_eq_self)
  then show "dec_value (renderU32 16 (ucast b)) = unat b" by (simp add: renderU32_value)
  show "length (renderU32 16 (ucast b)) \<le> 3"
    using render_loop_length [of "ucast b" 3 16] u lt by (simp add: renderU32_def)
qed

lemma renderU32_nonempty: "renderU32 16 v \<noteq> []"
  by (simp add: renderU32_def numeral_eq_Suc word_greater_zero_iff)

lemma command_line_chars:
  assumes "blanks sp1" "blanks sp2" "decimal_ok sign ds frac" "c \<in> set (command_line i sp1 d sp2 (decimal sign ds frac))"
  shows "c \<noteq> 0 \<and> \<not> eol c"
proof -
  have "is_digit c \<or> c \<in> {9, 32, 43, 45, 46}"
    using assms decimal_chars [OF assms(3)] renderU32_digits
    by (auto simp: command_line_def blanks_def list_all_iff)
  then show ?thesis using digit_not_special(6,7) [of c] by (auto simp: eol_def)
qed

lemma parseLine_command:
  assumes "c_string (cp_buf p) = command_line i sp1 d sp2 (decimal sign ds frac)" "i \<le> CfgMaxValidCommandID cfg"
    and "32 \<le> longBits cfg" "blanks sp1" "blanks sp2" "decimal_ok sign ds frac"
  shows "parseLine cfg p = (True, p\<lparr>cp_pending := \<lparr>cmd_id = i, targetDevice = d,
           cmd_value = decimal_value sign ds frac\<rparr>, cp_hasPending := True\<rparr>)"
proof -
  let ?r = "renderU32 16" and ?w = "longBits cfg" and ?n = "decimal sign ds frac"
  have lt: "uint b < 2 ^ (?w - Suc 0)" for b :: byte
  proof -
    have "uint b < 2 ^ 8" using unsigned_less [of b, where 'a = int] by simp
    also have "\<dots> \<le> 2 ^ (?w - Suc 0)" using assms(3) by (intro power_increasing) auto
    finally show ?thesis .
  qed
  note s1 = blanks_space [OF assms(4), of "?r (ucast d) @ sp2 @ ?n"] and s2 = blanks_space [OF assms(5), of ?n]
  have a: "strtol ?w (command_line i sp1 d sp2 ?n) = Some (int (unat i), sp1 @ ?r (ucast d) @ sp2 @ ?n)"
    using strtol_digits [of "[]" "?r (ucast i)" "sp1 @ ?r (ucast d) @ sp2 @ ?n" ?w] s1
    by (simp add: command_line_def renderU32_digits renderU32_nonempty render_byte lt)
  have b: "strtol ?w (sp1 @ ?r (ucast d) @ sp2 @ ?n) = Some (int (unat d), sp2 @ ?n)"
    using strtol_digits [of sp1 "?r (ucast d)" "sp2 @ ?n" ?w] s1 s2
    by (simp add: renderU32_digits renderU32_nonempty render_byte lt)
  have c: "strtof (sp2 @ ?n) = Some (decimal_value sign ds frac, [])"
    using strtof_decimal_number s2 assms(6) by blast
  have "\<not> uint (CfgMaxValidCommandID cfg) < int (unat i)" using assms(2) by (simp add: word_le_def)
  then show ?thesis using assms(1) a b c s1 s2 by (simp add: parseLine_def)
qed

lemma command_line_parsed:
  assumes "parser_ok cfg p" "cp_len p = 0" "i \<le> CfgMaxValidCommandID cfg" "32 \<le> longBits cfg" "eol e"
    and "blanks sp1" "blanks sp2" "decimal_ok sign ds frac"
    and "line = command_line i sp1 d sp2 (decimal sign ds frac)" "length line < CfgMaxLineLen cfg"
  shows "\<exists>p'. parser_feeds cfg (line @ [e]) p = (replicate (length line) False @ [True], p') \<and> cp_len p' = 0 \<and>
     fst (CommandParser_getCommand p')
       = Some \<lparr>cmd_id = i, targetDevice = d, cmd_value = decimal_value sign ds frac\<rparr> \<and>
     fst (CommandParser_getCommand (snd (CommandParser_getCommand p'))) = None"
proof -
  have "\<forall>b \<in> set line. \<not> eol b" "0 \<notin> set line" "line \<noteq> []"
    using command_line_chars [OF assms(6-8)] renderU32_nonempty unfolding assms(9) by (auto simp: command_line_def)
  then obtain buf where "c_string buf = line"
    and f: "parser_feeds cfg (line @ [e]) p =
      (let (ok, p') = parseLine cfg (p\<lparr>cp_len := length line, cp_buf := buf\<rparr>) in
       (replicate (length line) False @ [ok], p'\<lparr>cp_len := 0\<rparr>))"
    using parser_feeds_line [of cfg p line e] assms(1,2,5,10) by metis
  then show ?thesis
    using parseLine_command [of "p\<lparr>cp_len := length line, cp_buf := buf\<rparr>" i sp1 d sp2 sign ds frac cfg] assms(3,4,6-9)
    by (simp add: CommandParser_getCommand_def)
qed

text \<open>C32: The text protocol round trip. For every command identifier the configuration allows, every device and every
  decimal number, signed or not, with or without a fraction, the line \<^verbatim>\<open><id> <device> <float>\<close> a host types, with any
  blanks and tabs between the fields and short enough for the line buffer, fed byte by byte into a parser at the start
  of a line, is reported complete exactly at the line end, and \<^verbatim>\<open>getCommand\<close> returns, once, the command with that
  identifier and device and the \<^verbatim>\<open>float\<close> nearest to the number.\<close>

theorem text_command_roundtrip:
  assumes "parser_ok cfg p" "cp_len p = 0" "i \<le> CfgMaxValidCommandID cfg" "32 \<le> longBits cfg" "eol e"
    and "blanks sp1" "blanks sp2" "decimal_ok sign ds frac"
    and "line = command_line i sp1 d sp2 (decimal sign ds frac)" "length line < CfgMaxLineLen cfg"
  shows "\<exists>p'. parser_feeds cfg (line @ [e]) p = (replicate (length line) False @ [True], p') \<and> cp_len p' = 0 \<and>
     fst (CommandParser_getCommand p') = Some \<lparr>cmd_id = i, targetDevice = d,
       cmd_value = f32_round (sign = [45]) (int (dec_value (ds @ frac_digits frac))) (10 ^ length (frac_digits frac))\<rparr> \<and>
     fst (CommandParser_getCommand (snd (CommandParser_getCommand p'))) = None"
  using command_line_parsed [OF assms] unfolding decimal_value_def .

text \<open>The documented line \<^verbatim>\<open>1 0 50.0\<close>, and a negative fraction behind a tab.\<close>

lemma example_lines:
  "command_line 1 [32] 0 [32] (decimal [] (str ''50'') (Some (str ''0''))) = str ''1 0 50.0''"
  "decimal_value [] (str ''50'') (Some (str ''0'')) = 0x42480000"
  "command_line 2 [32] 7 [9, 32] (decimal [45] (str ''0'') (Some (str ''25''))) = str ''2 7'' @ [9] @ str '' -0.25''"
  "decimal_value [45] (str ''0'') (Some (str ''25'')) = 0xBE800000"
  by code_simp+

theorem text_command_roundtrip_witness:
  "\<exists>p'. parser_feeds example_cfg (str ''1 0 50.0'' @ [10]) (CommandParser_init example_cfg)
       = (replicate 8 False @ [True], p') \<and> cp_len p' = 0 \<and>
     fst (CommandParser_getCommand p') = Some \<lparr>cmd_id = 1, targetDevice = 0, cmd_value = 0x42480000\<rparr> \<and>
     fst (CommandParser_getCommand (snd (CommandParser_getCommand p'))) = None"
proof -
  have ok: "parser_ok example_cfg (CommandParser_init example_cfg)" "cp_len (CommandParser_init example_cfg) = 0"
      "1 \<le> CfgMaxValidCommandID example_cfg" "32 \<le> longBits example_cfg" "eol 10" "blanks [32]"
      "decimal_ok [] (str ''50'') (Some (str ''0''))" "length (str ''1 0 50.0'') < CfgMaxLineLen example_cfg"
      "length (str ''1 0 50.0'') = 8"
    by (simp_all add: parser_ok_def CommandParser_init_def cfg_traits example_cfg_def eol_def blanks_def decimal_ok_def
        frac_digits_def str_def is_digit_def)
  show ?thesis
    using text_command_roundtrip [OF ok(1-6) ok(6,7) example_lines(1) [symmetric] ok(8)] example_lines(2)
    unfolding decimal_value_def by (simp only: ok(9))
qed

text \<open>Safety of the text parser. Whatever bytes arrive, the write index stays inside the line buffer,
  and every command the parser hands out has an identifier that the configuration allows.\<close>

theorem parser_safe:
  assumes "0 < CfgMaxLineLen cfg"
  shows "let p = snd (parser_feeds cfg bs (CommandParser_init cfg)) in
     length (cp_buf p) = CfgMaxLineLen cfg \<and> cp_len p < CfgMaxLineLen cfg \<and>
     (case fst (CommandParser_getCommand p) of None \<Rightarrow> True
      | Some c \<Rightarrow> cmd_id c \<le> CfgMaxValidCommandID cfg)"
  using parser_feeds_ok [OF parser_ok_init [OF assms], of bs]
  by (simp add: Let_def parser_ok_def CommandParser_getCommand_def)

theorem parser_safe_witness:
  "let p = snd (parser_feeds example_cfg (replicate 100 55) (CommandParser_init example_cfg)) in
     length (cp_buf p) = CfgMaxLineLen example_cfg \<and> cp_len p < CfgMaxLineLen example_cfg \<and>
     (case fst (CommandParser_getCommand p) of None \<Rightarrow> True
      | Some c \<Rightarrow> cmd_id c \<le> CfgMaxValidCommandID example_cfg)"
  by (rule parser_safe) (simp add: cfg_traits example_cfg_def)

text \<open>An overlong line is not discarded up to its end. When the line buffer is full the parser drops
  what it has collected together with the next byte and starts afresh, so that the rest of the same line
  is parsed as if it were a line of its own.\<close>

theorem overlong_line_tail:
  assumes "parser_ok cfg p" "cp_len p = 0" "\<forall>b \<in> set xs. \<not> eol b" "length xs = CfgMaxLineLen cfg"
  shows "\<exists>p'. parser_feeds cfg (xs @ rest) p
       = (let (rs, p) = parser_feeds cfg rest p' in (replicate (length xs) False @ rs, p)) \<and>
     parser_ok cfg p' \<and> cp_len p' = 0 \<and> cp_hasPending p' = cp_hasPending p \<and> cp_pending p' = cp_pending p"
proof -
  have "xs \<noteq> []" using assms(1,4) by (auto simp: parser_ok_def)
  then obtain ys z where xs: "xs = ys @ [z]" by (cases xs rule: rev_cases) auto
  then obtain buf where buf: "parser_feeds cfg ys p
       = (replicate (length ys) False, p\<lparr>cp_buf := buf, cp_len := length ys\<rparr>)"
     "length buf = CfgMaxLineLen cfg"
    using parser_feeds_chars [of ys p cfg] assms by (auto simp: parser_ok_def)
  let ?p = "p\<lparr>cp_buf := buf, cp_len := 0\<rparr>"
  have "CommandParser_feedByte cfg z (p\<lparr>cp_buf := buf, cp_len := length ys\<rparr>) = (False, ?p)"
    using assms(3,4) xs by (auto simp: CommandParser_feedByte_def eol_def)
  then have "parser_feeds cfg xs p = (replicate (length xs) False, ?p)"
    using buf xs by (simp add: parser_feeds_append replicate_append_same)
  moreover have "parser_ok cfg ?p" using assms(1) buf(2) by (auto simp: parser_ok_def)
  ultimately show ?thesis by (intro exI [of _ ?p]) (simp add: parser_feeds_append)
qed

theorem overlong_line_tail_witness:
  "\<exists>p'. parser_feeds example_cfg (replicate 64 65 @ str ''1 0 50'' @ [10]) (CommandParser_init example_cfg)
       = (let (rs, p) = parser_feeds example_cfg (str ''1 0 50'' @ [10]) p' in
          (replicate (length (replicate 64 (65 :: byte))) False @ rs, p)) \<and>
     parser_ok example_cfg p' \<and> cp_len p' = 0 \<and>
     cp_hasPending p' = cp_hasPending (CommandParser_init example_cfg) \<and>
     cp_pending p' = cp_pending (CommandParser_init example_cfg)"
  by (rule overlong_line_tail)
     (simp_all add: parser_ok_def CommandParser_init_def cfg_traits example_cfg_def eol_def)

end
