(* ===== verification/Protocol.thy ===== *)
theory Protocol
  imports Frame Metrics Config StringBuilder
begin

text \<open>
  Payloads of the framed protocol: \<^verbatim>\<open>include/sputteros/comms/protocol/\<close> \<^verbatim>\<open>ResponseSerializer.h\<close>,
  \<^verbatim>\<open>IProtocolHandler.h\<close> and \<^verbatim>\<open>ProtocolRouter.h\<close>, and \<^verbatim>\<open>utils/PerformanceSnapshot.h\<close>.

  A handler is the record of its five virtual functions on a state of type \<open>'s\<close>. A serializer stores
  through a bounds-checked buffer: \<open>None\<close> would be a store outside it, and the theorems show that the
  capacity check excludes it.
\<close>

section \<open>Performance snapshot\<close>

record TaskSnapshot =
  ts_taskIndex :: nat
  ts_coreId :: nat
  ts_lastUs :: micros
  ts_minUs :: micros
  ts_maxUs :: micros
  ts_avgUs :: f32
  ts_samples :: u32
  ts_overruns :: u32
  ts_misses :: u32
  ts_histogram :: "u32 list"

definition kMaxSnapshotTasks :: nat where "kMaxSnapshotTasks = 16"
definition kMaxSnapshotCores :: nat where "kMaxSnapshotCores = 4"

record PerformanceSnapshot =
  ps_timestamp :: micros
  ps_coreCount :: nat
  ps_coreUtilization :: "f32 list"
  ps_queueDepth :: nat
  ps_queueMaxDepth :: nat
  ps_queueAvgDepth :: f32
  ps_peakHeapUsed :: nat
  ps_freeHeap :: nat
  ps_stackHighWater :: nat
  ps_totalGapUs :: micros
  ps_maxGapUs :: micros
  ps_avgGapUs :: f32
  ps_schedulerTickCount :: u32
  ps_totalOverruns :: u32
  ps_totalDeadlineMisses :: u32
  ps_taskCount :: nat
  ps_tasks :: "TaskSnapshot list"

section \<open>Serializers\<close>

definition serializeAck :: "byte \<Rightarrow> byte list \<Rightarrow> nat \<Rightarrow> (nat \<times> byte list) option" where
  "serializeAck cmdId outBuf outCap =
     (if outCap < 1 then Some (0, outBuf)
      else do { b \<leftarrow> wr outBuf 0 cmdId; Some (1, b) })"

definition serializeNack :: "byte \<Rightarrow> byte \<Rightarrow> f32 \<Rightarrow> byte list \<Rightarrow> nat \<Rightarrow> (nat \<times> byte list) option" where
  "serializeNack cmdId device value outBuf outCap =
     (if outCap < 6 then Some (0, outBuf)
      else do {
        b \<leftarrow> wr outBuf 0 cmdId;
        b \<leftarrow> wr b 1 device;
        b \<leftarrow> wr_many b 2 (le32 value);
        Some (6, b) })"

definition serializeHandshakeResp :: "byte list \<Rightarrow> nat \<Rightarrow> (nat \<times> byte list) option" where
  "serializeHandshakeResp outBuf outCap =
     (if outCap < 6 then Some (0, outBuf)
      else do {
        b \<leftarrow> wr outBuf 0 (ucast (kProtocolVersion AND 0xFF));
        b \<leftarrow> wr b 1 (ucast (drop_bit 8 kProtocolVersion AND 0xFF));
        b \<leftarrow> wr b 2 (ucast (kHandshakeMagic AND 0xFF));
        b \<leftarrow> wr b 3 (ucast (drop_bit 8 kHandshakeMagic AND 0xFF));
        b \<leftarrow> wr b 4 (ucast (drop_bit 16 kHandshakeMagic AND 0xFF));
        b \<leftarrow> wr b 5 (ucast (drop_bit 24 kHandshakeMagic AND 0xFF));
        Some (6, b) })"

definition serializeCommand :: "byte \<Rightarrow> byte \<Rightarrow> f32 \<Rightarrow> byte list \<Rightarrow> nat \<Rightarrow> (nat \<times> byte list) option" where
  "serializeCommand cmdId device value outBuf outCap =
     (if outCap < 6 then Some (0, outBuf)
      else do {
        b \<leftarrow> wr outBuf 0 cmdId;
        b \<leftarrow> wr b 1 device;
        b \<leftarrow> wr_many b 2 (le32 value);
        Some (6, b) })"

text \<open>The source and its length are the option and \<open>dataLen\<close>; a null source with length 0 copies
  nothing.\<close>

definition serializeData :: "byte list option \<Rightarrow> nat \<Rightarrow> byte list \<Rightarrow> nat \<Rightarrow> (nat \<times> byte list) option" where
  "serializeData data dataLen outBuf outCap =
     (if outCap < dataLen \<or> (dataLen > 0 \<and> data = None) then Some (0, outBuf)
      else do {
        b \<leftarrow> wr_many outBuf 0 (take dataLen (case data of None \<Rightarrow> [] | Some d \<Rightarrow> d));
        Some (dataLen, b) })"

definition serializeLog :: "byte \<Rightarrow> cstr option \<Rightarrow> byte list \<Rightarrow> nat \<Rightarrow> (nat \<times> byte list) option" where
  "serializeLog level msg outBuf outCap =
     (case msg of
        None \<Rightarrow> Some (0, outBuf)
      | Some t \<Rightarrow>
          let textLen = length t; total = 1 + textLen in
          if outCap < total then Some (0, outBuf)
          else do {
            b \<leftarrow> wr outBuf 0 level;
            b \<leftarrow> wr_many b 1 t;
            Some (total, b) })"

definition kMetricsHeaderSize :: nat where "kMetricsHeaderSize = 66"
definition kMetricsTaskSize :: nat where "kMetricsTaskSize = 26"

text \<open>The write helpers move the cursor \<^verbatim>\<open>p\<close>; the state is the buffer and the position.\<close>

type_synonym cursor = "byte list \<times> nat"

definition writeU8 :: "byte \<Rightarrow> cursor \<Rightarrow> cursor option" where
  "writeU8 v c = do { b \<leftarrow> wr (fst c) (snd c) v; Some (b, snd c + 1) }"

definition writeU16 :: "u16 \<Rightarrow> cursor \<Rightarrow> cursor option" where
  "writeU16 v c = do { b \<leftarrow> wr_many (fst c) (snd c) (le16 v); Some (b, snd c + 2) }"

definition writeU32 :: "u32 \<Rightarrow> cursor \<Rightarrow> cursor option" where
  "writeU32 v c = do { b \<leftarrow> wr_many (fst c) (snd c) (le32 v); Some (b, snd c + 4) }"

definition writeU64 :: "u64 \<Rightarrow> cursor \<Rightarrow> cursor option" where
  "writeU64 v c = do { b \<leftarrow> wr_many (fst c) (snd c) (le64 v); Some (b, snd c + 8) }"

definition writeF32 :: "f32 \<Rightarrow> cursor \<Rightarrow> cursor option" where
  "writeF32 v c = do { b \<leftarrow> wr_many (fst c) (snd c) (le32 v); Some (b, snd c + 4) }"

fun write_loop :: "('a \<Rightarrow> cursor \<Rightarrow> cursor option) \<Rightarrow> 'a list \<Rightarrow> cursor \<Rightarrow> cursor option" where
  "write_loop f [] c = Some c"
| "write_loop f (x # xs) c = do { c \<leftarrow> f x c; write_loop f xs c }"

definition serializeMetrics_header :: "PerformanceSnapshot \<Rightarrow> cursor \<Rightarrow> cursor option" where
  "serializeMetrics_header snap p = do {
     p \<leftarrow> writeU64 (ps_timestamp snap) p;
     p \<leftarrow> writeU8 (of_nat (ps_coreCount snap)) p;
     p \<leftarrow> write_loop writeF32 (take 4 (ps_coreUtilization snap)) p;
     p \<leftarrow> writeU16 (of_nat (ps_queueDepth snap)) p;
     p \<leftarrow> writeU16 (of_nat (ps_queueMaxDepth snap)) p;
     p \<leftarrow> writeF32 (ps_queueAvgDepth snap) p;
     p \<leftarrow> writeU32 (of_nat (ps_peakHeapUsed snap)) p;
     p \<leftarrow> writeU32 (of_nat (ps_freeHeap snap)) p;
     p \<leftarrow> writeU32 (of_nat (ps_stackHighWater snap)) p;
     p \<leftarrow> writeU32 (ucast (ps_totalGapUs snap)) p;
     p \<leftarrow> writeU32 (ucast (ps_maxGapUs snap)) p;
     p \<leftarrow> writeF32 (ps_avgGapUs snap) p;
     p \<leftarrow> writeU32 (ps_schedulerTickCount snap) p;
     p \<leftarrow> writeU16 (ucast (ps_totalOverruns snap)) p;
     p \<leftarrow> writeU16 (ucast (ps_totalDeadlineMisses snap)) p;
     writeU8 (of_nat (ps_taskCount snap)) p }"

definition serializeMetrics_task :: "TaskSnapshot \<Rightarrow> cursor \<Rightarrow> cursor option" where
  "serializeMetrics_task ts p = do {
     p \<leftarrow> writeU8 (of_nat (ts_taskIndex ts)) p;
     p \<leftarrow> writeU8 (of_nat (ts_coreId ts)) p;
     p \<leftarrow> writeU32 (ucast (ts_lastUs ts)) p;
     p \<leftarrow> writeU32 (ucast (ts_minUs ts)) p;
     p \<leftarrow> writeU32 (ucast (ts_maxUs ts)) p;
     p \<leftarrow> writeF32 (ts_avgUs ts) p;
     p \<leftarrow> writeU32 (ts_samples ts) p;
     p \<leftarrow> writeU16 (ucast (ts_overruns ts)) p;
     writeU16 (ucast (ts_misses ts)) p }"

definition serializeMetrics :: "PerformanceSnapshot \<Rightarrow> byte list \<Rightarrow> nat \<Rightarrow> (nat \<times> byte list) option" where
  "serializeMetrics snap outBuf outCap =
     (let needed = kMetricsHeaderSize + ps_taskCount snap * kMetricsTaskSize in
      if outCap < needed then Some (0, outBuf)
      else do {
        p \<leftarrow> serializeMetrics_header snap (outBuf, 0);
        p \<leftarrow> write_loop serializeMetrics_task (take (ps_taskCount snap) (ps_tasks snap)) p;
        Some (snd p, fst p) })"

section \<open>Handler and router\<close>

datatype CommsMode = TEXT | FRAMED

record 's IProtocolHandler =
  onCommand :: "command \<Rightarrow> byte \<Rightarrow> 's \<Rightarrow> 's"
  onHandshakeRequest :: "u16 \<Rightarrow> byte \<Rightarrow> 's \<Rightarrow> 's"
  onExitHandshake :: "byte \<Rightarrow> 's \<Rightarrow> 's"
  onMetricsRequest :: "byte \<Rightarrow> 's \<Rightarrow> 's"
  onHeartbeat :: "byte \<Rightarrow> 's \<Rightarrow> 's"

definition kCommandPayloadSize :: nat where "kCommandPayloadSize = 6"
definition kHandshakePayloadSize :: nat where "kHandshakePayloadSize = 6"

definition payload_command :: "byte list \<Rightarrow> command" where
  "payload_command p = \<lparr>cmd_id = p ! 0, targetDevice = p ! 1,
     cmd_value = of_le32 (p ! 2) (p ! 3) (p ! 4) (p ! 5)\<rparr>"

definition dispatchCommand :: "'s IProtocolHandler \<Rightarrow> byte \<Rightarrow> byte list \<Rightarrow> 's \<Rightarrow> bool \<times> 's" where
  "dispatchCommand h seqNum payload s =
     (if length payload \<noteq> kCommandPayloadSize then (False, s)
      else (True, onCommand h (payload_command payload) seqNum s))"

definition dispatchHandshake :: "'s IProtocolHandler \<Rightarrow> byte \<Rightarrow> byte list \<Rightarrow> 's \<Rightarrow> bool \<times> 's" where
  "dispatchHandshake h seqNum payload s =
     (if length payload \<noteq> kHandshakePayloadSize then (False, s)
      else
        let version = of_le16 (payload ! 0) (payload ! 1);
            magic = of_le32 (payload ! 2) (payload ! 3) (payload ! 4) (payload ! 5) in
        if magic \<noteq> kHandshakeMagic then (False, s)
        else (True, onHandshakeRequest h version seqNum s))"

definition dispatch :: "'s IProtocolHandler option \<Rightarrow> byte \<Rightarrow> byte \<Rightarrow> byte list \<Rightarrow> 's \<Rightarrow> bool \<times> 's" where
  "dispatch handler type seqNum payload s =
     (case handler of
        None \<Rightarrow> (False, s)
      | Some h \<Rightarrow>
          if type = MT_COMMAND then dispatchCommand h seqNum payload s
          else if type = MT_HANDSHAKE_REQ then dispatchHandshake h seqNum payload s
          else if type = MT_EXIT_HANDSHAKE then (True, onExitHandshake h seqNum s)
          else if type = MT_METRICS_REQ then (True, onMetricsRequest h seqNum s)
          else if type = MT_HEARTBEAT then (True, onHeartbeat h seqNum s)
          else (False, s))"

section \<open>What the serializers write\<close>

definition emit :: "byte list \<Rightarrow> cursor \<Rightarrow> cursor option" where
  "emit bs c = do { b \<leftarrow> wr_many (fst c) (snd c) bs; Some (b, snd c + length bs) }"

lemma wr_many_append:
  "wr_many buf at (xs @ ys) = do { b \<leftarrow> wr_many buf at xs; wr_many b (at + length xs) ys }"
  by (induction xs arbitrary: buf at) (auto simp: Option.bind_eq_None_conv wr_def split: bind_splits)

lemma emit_Nil [simp]: "emit [] c = Some c"
  by (simp add: emit_def)

lemma emit_append: "emit (xs @ ys) c = do { c \<leftarrow> emit xs c; emit ys c }"
  by (auto simp: emit_def wr_many_append add.assoc split: bind_splits)

lemma write_emit:
  "writeU8 v = emit [v]" "writeU16 h = emit (le16 h)" "writeU32 w = emit (le32 w)"
  "writeU64 d = emit (le64 d)" "writeF32 w = emit (le32 w)"
  by (auto simp: fun_eq_iff emit_def writeU8_def writeU16_def writeU32_def writeU64_def writeF32_def
      split: bind_splits)

lemma write_loop_emit: "write_loop (\<lambda>x. emit (g x)) xs = emit (concat (map g xs))"
proof (induction xs)
  case (Cons x xs)
  show ?case by (rule ext) (simp add: emit_append Cons.IH)
qed (simp add: fun_eq_iff)

lemma writeF32_emit: "writeF32 = (\<lambda>v. emit (le32 v))"
  by (simp add: fun_eq_iff write_emit)

lemma emit_at_0:
  "length bs \<le> length buf \<Longrightarrow> emit bs (buf, 0) = Some (bs @ drop (length bs) buf, length bs)"
  by (simp add: emit_def wr_many_Some)

text \<open>The wire images: the header and a task entry.\<close>

definition metrics_header :: "PerformanceSnapshot \<Rightarrow> byte list" where
  "metrics_header s =
     le64 (ps_timestamp s) @ [of_nat (ps_coreCount s)] @
     concat (map le32 (take 4 (ps_coreUtilization s))) @
     le16 (of_nat (ps_queueDepth s)) @ le16 (of_nat (ps_queueMaxDepth s)) @ le32 (ps_queueAvgDepth s) @
     le32 (of_nat (ps_peakHeapUsed s)) @ le32 (of_nat (ps_freeHeap s)) @
     le32 (of_nat (ps_stackHighWater s)) @ le32 (ucast (ps_totalGapUs s)) @ le32 (ucast (ps_maxGapUs s)) @
     le32 (ps_avgGapUs s) @ le32 (ps_schedulerTickCount s) @ le16 (ucast (ps_totalOverruns s)) @
     le16 (ucast (ps_totalDeadlineMisses s)) @ [of_nat (ps_taskCount s)]"

definition metrics_task :: "TaskSnapshot \<Rightarrow> byte list" where
  "metrics_task t =
     [of_nat (ts_taskIndex t)] @ [of_nat (ts_coreId t)] @ le32 (ucast (ts_lastUs t)) @
     le32 (ucast (ts_minUs t)) @ le32 (ucast (ts_maxUs t)) @ le32 (ts_avgUs t) @ le32 (ts_samples t) @
     le16 (ucast (ts_overruns t)) @ le16 (ucast (ts_misses t))"

definition metrics_image :: "PerformanceSnapshot \<Rightarrow> byte list" where
  "metrics_image s = metrics_header s @ concat (map metrics_task (take (ps_taskCount s) (ps_tasks s)))"

text \<open>The sizes of the snapshot's arrays.\<close>

definition snapshot_ok :: "PerformanceSnapshot \<Rightarrow> bool" where
  "snapshot_ok s \<longleftrightarrow> length (ps_coreUtilization s) = kMaxSnapshotCores \<and>
     length (ps_tasks s) = kMaxSnapshotTasks \<and> ps_taskCount s \<le> kMaxSnapshotTasks"

lemma length_concat_const: "(\<And>x. x \<in> set xs \<Longrightarrow> length (f x) = n) \<Longrightarrow> length (concat (map f xs)) = length xs * n"
  by (induction xs) auto

lemma length_metrics_task [simp]: "length (metrics_task t) = kMetricsTaskSize"
  by (simp add: metrics_task_def kMetricsTaskSize_def)

lemma length_metrics_header: "snapshot_ok s \<Longrightarrow> length (metrics_header s) = kMetricsHeaderSize"
  by (simp add: metrics_header_def snapshot_ok_def length_concat_const [where n = 4]
      kMetricsHeaderSize_def kMaxSnapshotCores_def)

lemma length_metrics_image:
  "snapshot_ok s \<Longrightarrow> length (metrics_image s) = kMetricsHeaderSize + ps_taskCount s * kMetricsTaskSize"
  by (simp add: metrics_image_def length_metrics_header length_concat_const [where n = kMetricsTaskSize])
     (simp add: snapshot_ok_def)

lemma serializeMetrics_header_emit: "serializeMetrics_header s = emit (metrics_header s)"
  by (rule ext) (simp only: serializeMetrics_header_def metrics_header_def writeF32_emit write_emit(1-4)
      emit_append write_loop_emit)

lemma serializeMetrics_task_emit: "serializeMetrics_task = (\<lambda>t. emit (metrics_task t))"
  by (rule ext, rule ext) (simp only: serializeMetrics_task_def metrics_task_def write_emit emit_append)

lemma serializeMetrics_image:
  assumes "snapshot_ok s" "outCap \<le> length buf"
  shows "serializeMetrics s buf outCap =
    (if outCap < length (metrics_image s) then Some (0, buf)
     else Some (length (metrics_image s), metrics_image s @ drop (length (metrics_image s)) buf))"
proof (cases "outCap < length (metrics_image s)")
  case True
  then show ?thesis using assms(1) by (simp add: serializeMetrics_def length_metrics_image)
next
  case False
  let ?ts = "take (ps_taskCount s) (ps_tasks s)"
  have "do { p \<leftarrow> serializeMetrics_header s (buf, 0); write_loop serializeMetrics_task ?ts p }
      = emit (metrics_image s) (buf, 0)"
    by (simp add: serializeMetrics_header_emit metrics_image_def emit_append
        write_loop_emit serializeMetrics_task_emit)
  also have "\<dots> = Some (metrics_image s @ drop (length (metrics_image s)) buf, length (metrics_image s))"
    using False assms(2) by (intro emit_at_0) simp
  finally show ?thesis
    using False length_metrics_image [OF assms(1)]
    by (auto simp: serializeMetrics_def split: bind_splits)
qed

lemma list6: "length p = 6 \<Longrightarrow> p = [p ! 0, p ! 1, p ! 2, p ! 3, p ! 4, p ! 5]"
  by (simp add: numeral_eq_Suc length_Suc_conv) auto

lemma serializeCommand_bytes:
  "serializeCommand i d v buf outCap =
     (if outCap < 6 then Some (0, buf)
      else if 6 \<le> length buf then Some (6, i # d # le32 v @ drop 6 buf)
      else serializeCommand i d v buf outCap)"
proof -
  have "serializeCommand i d v buf outCap = Some (6, i # d # le32 v @ drop 6 buf)"
    if "\<not> outCap < 6" "6 \<le> length buf"
  proof -
    have "wr_many buf 0 ([i] @ [d] @ le32 v) = Some (i # d # le32 v @ drop 6 buf)"
      using that(2) by (subst wr_many_Some) simp_all
    then show ?thesis
      using that(1) by (auto simp: serializeCommand_def wr_many_append numeral_2_eq_2 split: bind_splits)
  qed
  then show ?thesis by (simp add: serializeCommand_def)
qed

lemma serializeNack_serializeCommand: "serializeNack i d v buf outCap = serializeCommand i d v buf outCap"
  by (simp add: serializeNack_def serializeCommand_def)

definition handshake_payload :: "byte list" where
  "handshake_payload = le16 kProtocolVersion @ le32 kHandshakeMagic"

lemma wr_many_6:
  "wr_many buf 0 [x0, x1, x2, x3, x4, x5] =
     do { b \<leftarrow> wr buf 0 x0; b \<leftarrow> wr b 1 x1; b \<leftarrow> wr b 2 x2; b \<leftarrow> wr b 3 x3; b \<leftarrow> wr b 4 x4; wr b 5 x5 }"
  by (simp add: numeral_eq_Suc)

lemma serializeHandshakeResp_bytes:
  "6 \<le> outCap \<Longrightarrow> 6 \<le> length buf \<Longrightarrow>
   serializeHandshakeResp buf outCap = Some (6, handshake_payload @ drop 6 buf)"
proof -
  assume a: "6 \<le> outCap" "6 \<le> length buf"
  let ?p = "[1, 0, 0x53, 0x4F, 0x50, 0x53] :: byte list"
  have p: "handshake_payload = ?p"
    by (simp add: handshake_payload_def kProtocolVersion_def kHandshakeMagic_def le16_def le32_def)
  have "serializeHandshakeResp buf outCap = do { b \<leftarrow> wr_many buf 0 ?p; Some (6, b) }"
    using a(1)
    by (simp add: serializeHandshakeResp_def kProtocolVersion_def kHandshakeMagic_def wr_many_6
        del: wr_many.simps)
  also have "wr_many buf 0 ?p = Some (?p @ drop 6 buf)"
    using a(2) by (subst wr_many_Some) (simp_all add: numeral_eq_Suc)
  finally show ?thesis by (simp add: p)
qed

lemma serializeLog_bytes:
  "outCap \<le> length buf \<Longrightarrow> serializeLog l msg buf outCap =
     (case msg of None \<Rightarrow> Some (0, buf)
      | Some t \<Rightarrow> if outCap < 1 + length t then Some (0, buf)
                  else Some (1 + length t, l # t @ drop (1 + length t) buf))"
proof (cases msg)
  case (Some t)
  assume buf: "outCap \<le> length buf"
  show ?thesis
  proof (cases "outCap < 1 + length t")
    case False
    then have "wr_many buf 0 ([l] @ t) = Some (l # t @ drop (1 + length t) buf)"
      using buf by (subst wr_many_Some) simp_all
    with Some False show ?thesis
      by (auto simp: serializeLog_def wr_many_append Let_def split: bind_splits)
  qed (simp add: Some serializeLog_def)
qed (simp add: serializeLog_def)


lemma payload_command_image: "payload_command (i # d # le32 v) = \<lparr>cmd_id = i, targetDevice = d, cmd_value = v\<rparr>"
proof -
  have "le32 v = [le32 v ! 0, le32 v ! 1, le32 v ! 2, le32 v ! 3]" by (simp add: le32_def)
  then show ?thesis
    using of_le32_le32 [of v]
    by (simp add: payload_command_def numeral_eq_Suc)
qed

lemma le32_of_le32: "le32 (of_le32 b0 b1 b2 b3) = [b0, b1, b2, b3]"
proof -
  have "ucast (of_le32 b0 b1 b2 b3) = b0" "ucast (drop_bit 8 (of_le32 b0 b1 b2 b3)) = b1"
    "ucast (drop_bit 16 (of_le32 b0 b1 b2 b3)) = b2" "ucast (drop_bit 24 (of_le32 b0 b1 b2 b3)) = b3"
    by (rule bit_word_eqI;
        auto simp: of_le32_def bit_or_iff bit_push_bit_iff bit_ucast_iff bit_drop_bit_eq
          dest: bit_imp_le_length)+
  then show ?thesis by (simp add: le32_def)
qed

lemma le16_inj: "le16 v = le16 w \<longleftrightarrow> v = w"
  using of_le16_le16 by metis

lemma dispatch_handshake_magic:
  "dispatch (Some h) MT_HANDSHAKE_REQ q (le16 v @ le32 kHandshakeMagic) s = (True, onHandshakeRequest h v q s)"
proof -
  have "(le16 v @ le32 kHandshakeMagic) ! 0 = le16 v ! 0" "(le16 v @ le32 kHandshakeMagic) ! 1 = le16 v ! 1"
    "(le16 v @ le32 kHandshakeMagic) ! 2 = le32 kHandshakeMagic ! 0"
    "(le16 v @ le32 kHandshakeMagic) ! 3 = le32 kHandshakeMagic ! 1"
    "(le16 v @ le32 kHandshakeMagic) ! 4 = le32 kHandshakeMagic ! 2"
    "(le16 v @ le32 kHandshakeMagic) ! 5 = le32 kHandshakeMagic ! 3"
    by (simp_all add: nth_append)
  then show ?thesis
    using of_le16_le16 [of v] of_le32_le32 [of kHandshakeMagic]
    by (simp add: dispatch_def dispatchHandshake_def kHandshakePayloadSize_def msgtype_defs)
qed

section \<open>Properties\<close>

text \<open>The metrics response. With room for it, \<^verbatim>\<open>serializeMetrics\<close> writes exactly
  \<open>66 + 26 \<cdot> taskCount\<close> bytes, the documented header followed by the task entries in order, each at its
  documented offset, and leaves the rest of the buffer alone; with less room it writes nothing and
  returns 0.\<close>

theorem serializeMetrics_layout:
  assumes "snapshot_ok s" "outCap \<le> length buf"
  shows "if outCap < 66 + 26 * ps_taskCount s then serializeMetrics s buf outCap = Some (0, buf)
     else \<exists>out. serializeMetrics s buf outCap = Some (66 + 26 * ps_taskCount s, out) \<and>
       length out = length buf \<and> take 66 out = metrics_header s \<and>
       (\<forall>t < ps_taskCount s. take 26 (drop (66 + 26 * t) out) = metrics_task (ps_tasks s ! t)) \<and>
       drop (66 + 26 * ps_taskCount s) out = drop (66 + 26 * ps_taskCount s) buf"
proof -
  let ?n = "ps_taskCount s" and ?ts = "take (ps_taskCount s) (ps_tasks s)"
  have len: "length (metrics_image s) = 66 + 26 * ?n"
    using length_metrics_image [OF assms(1)] by (simp add: kMetricsHeaderSize_def kMetricsTaskSize_def)
  have hd: "length (metrics_header s) = 66"
    using length_metrics_header [OF assms(1)] by (simp add: kMetricsHeaderSize_def)
  have ts: "length ?ts = ?n" using assms(1) by (simp add: snapshot_ok_def)
  have entry: "take 26 (drop (26 * t) (concat (map metrics_task xs) @ r)) = metrics_task (xs ! t)"
    if "t < length xs" for t xs r
    using that
  proof (induction xs arbitrary: t)
    case (Cons x xs)
    have l: "length (metrics_task x) = 26" by (simp add: kMetricsTaskSize_def)
    from Cons show ?case
      by (cases t) (simp_all add: l del: length_metrics_task)
  qed simp
  let ?out = "metrics_image s @ drop (66 + 26 * ?n) buf"
  have "take 26 (drop (66 + 26 * t) ?out) = metrics_task (ps_tasks s ! t)" if "t < ?n" for t
    using entry [of t ?ts "drop (66 + 26 * ?n) buf"] that ts hd
    by (simp add: metrics_image_def)
  moreover have "take 66 ?out = metrics_header s" using hd by (simp add: metrics_image_def)
  ultimately show ?thesis
    using serializeMetrics_image [OF assms] len assms(2) by (auto intro!: exI [of _ ?out])
qed

definition example_snapshot :: "nat \<Rightarrow> PerformanceSnapshot" where
  "example_snapshot n = \<lparr>ps_timestamp = 0, ps_coreCount = 2, ps_coreUtilization = replicate 4 0,
     ps_queueDepth = 0, ps_queueMaxDepth = 0, ps_queueAvgDepth = 0, ps_peakHeapUsed = 0, ps_freeHeap = 0,
     ps_stackHighWater = 0, ps_totalGapUs = 0, ps_maxGapUs = 0, ps_avgGapUs = 0, ps_schedulerTickCount = 0,
     ps_totalOverruns = 0, ps_totalDeadlineMisses = 0, ps_taskCount = n,
     ps_tasks = replicate 16 \<lparr>ts_taskIndex = 0, ts_coreId = 0, ts_lastUs = 0, ts_minUs = 0, ts_maxUs = 0,
       ts_avgUs = 0, ts_samples = 0, ts_overruns = 0, ts_misses = 0, ts_histogram = replicate 8 0\<rparr>\<rparr>"

lemma example_snapshot_ok: "n \<le> 16 \<Longrightarrow> snapshot_ok (example_snapshot n)"
  by (simp add: snapshot_ok_def example_snapshot_def kMaxSnapshotCores_def kMaxSnapshotTasks_def)

theorem serializeMetrics_layout_witness:
  "let s = example_snapshot 3; buf = replicate 482 0 in
   if 482 < 66 + 26 * ps_taskCount s then serializeMetrics s buf 482 = Some (0, buf)
     else \<exists>out. serializeMetrics s buf 482 = Some (66 + 26 * ps_taskCount s, out) \<and>
       length out = length buf \<and> take 66 out = metrics_header s \<and>
       (\<forall>t < ps_taskCount s. take 26 (drop (66 + 26 * t) out) = metrics_task (ps_tasks s ! t)) \<and>
       drop (66 + 26 * ps_taskCount s) out = drop (66 + 26 * ps_taskCount s) buf"
  unfolding Let_def by (rule serializeMetrics_layout) (simp_all add: example_snapshot_ok)

text \<open>Command payloads round trip. What \<^verbatim>\<open>serializeCommand\<close> writes, the router hands to
  \<^verbatim>\<open>onCommand\<close> as exactly that command, with the sequence number of its frame, and nothing else.\<close>

theorem command_payload_roundtrip:
  assumes "6 \<le> outCap" "outCap \<le> length buf"
  shows "\<exists>out. serializeCommand i d v buf outCap = Some (6, out) \<and>
     dispatch (Some h) MT_COMMAND seqNum (take 6 out) s
       = (True, onCommand h \<lparr>cmd_id = i, targetDevice = d, cmd_value = v\<rparr> seqNum s)"
  using assms serializeCommand_bytes [of i d v buf outCap]
  by (simp add: dispatch_def dispatchCommand_def kCommandPayloadSize_def payload_command_image)

theorem command_payload_roundtrip_witness:
  "\<exists>out. serializeCommand 7 1 0x42480000 (replicate 6 0) 6 = Some (6, out) \<and>
     dispatch (Some \<lparr>onCommand = \<lambda>c q s. (c, q) # s, onHandshakeRequest = \<lambda>_ _ s. s,
         onExitHandshake = \<lambda>_ s. s, onMetricsRequest = \<lambda>_ s. s, onHeartbeat = \<lambda>_ s. s\<rparr>)
       MT_COMMAND 9 (take 6 out) []
       = (True, onCommand \<lparr>onCommand = \<lambda>c q s. (c, q) # s, onHandshakeRequest = \<lambda>_ _ s. s,
           onExitHandshake = \<lambda>_ s. s, onMetricsRequest = \<lambda>_ s. s, onHeartbeat = \<lambda>_ s. s\<rparr>
           \<lparr>cmd_id = 7, targetDevice = 1, cmd_value = 0x42480000\<rparr> 9 [])"
  by (rule command_payload_roundtrip) simp_all

text \<open>The handshake is only honoured with the right magic. The router accepts a HANDSHAKE_REQ payload
  exactly when it is a 16-bit version followed by the protocol magic, and then calls the handler once with
  that version; any other payload leaves the state unchanged.\<close>

theorem handshake_accepted_iff:
  "dispatch (Some h) MT_HANDSHAKE_REQ seqNum payload s =
     (if \<exists>v. payload = le16 v @ le32 kHandshakeMagic
      then (True, onHandshakeRequest h (of_le16 (payload ! 0) (payload ! 1)) seqNum s)
      else (False, s))"
proof (cases "\<exists>v. payload = le16 v @ le32 kHandshakeMagic")
  case True
  then obtain v where v: "payload = le16 v @ le32 kHandshakeMagic" by blast
  then have "payload ! 0 = le16 v ! 0" "payload ! 1 = le16 v ! 1"
    "payload ! 2 = le32 kHandshakeMagic ! 0" "payload ! 3 = le32 kHandshakeMagic ! 1"
    "payload ! 4 = le32 kHandshakeMagic ! 2" "payload ! 5 = le32 kHandshakeMagic ! 3"
    by (simp_all add: v nth_append)
  then show ?thesis
    using True v of_le32_le32 [of kHandshakeMagic]
    by (simp add: dispatch_def dispatchHandshake_def kHandshakePayloadSize_def msgtype_defs)
next
  case False
  have "of_le32 (payload ! 2) (payload ! 3) (payload ! 4) (payload ! 5) \<noteq> kHandshakeMagic"
    if "length payload = 6"
  proof
    assume "of_le32 (payload ! 2) (payload ! 3) (payload ! 4) (payload ! 5) = kHandshakeMagic"
    then have "le32 kHandshakeMagic = [payload ! 2, payload ! 3, payload ! 4, payload ! 5]"
      by (metis le32_of_le32)
    then have "payload = le16 (of_le16 (payload ! 0) (payload ! 1)) @ le32 kHandshakeMagic"
      using list6 [OF that] by (simp add: le16_of_le16)
    with False show False by blast
  qed
  with False show ?thesis
    by (simp add: dispatch_def dispatchHandshake_def kHandshakePayloadSize_def msgtype_defs)
qed

end
