(* ===== verification/Cli.thy ===== *)
theory Cli
  imports CommandParser Protocol
begin

text \<open>
  The dual-mode command line (\<^verbatim>\<open>include/sputteros/comms/CLI.h\<close>) over a byte stream
  (\<^verbatim>\<open>hal/devices/IStream.h\<close>).

  The stream is user code: a record of functions on the rest of the world \<open>'w\<close>. \<^verbatim>\<open>read\<close> returns the bytes
  it stored; that they are at most as many as asked for is its documented contract and a named hypothesis
  where it matters. The protocol handler is called while the CLI is running and may call back into it, so
  a handler acts on the pair of the CLI and the world. Every instance in the sources is \<^verbatim>\<open>CLI<Cfg>\<close>, so
  \<^verbatim>\<open>MaxPayload\<close> is its default. The scratch buffer \<^verbatim>\<open>m_readBuf\<close> is the list of bytes read.

  The frame codec is total inside its buffers (\<open>feedByte_ok\<close>, \<open>FrameEncoder_encode_safe\<close>), so the wrappers
  below never take their \<open>None\<close> branch; \<open>decoder_step_some\<close> and \<open>encode_frame_some\<close> say so.
\<close>

record 'w IStream =
  available :: "'w \<Rightarrow> nat"
  read_stream :: "nat \<Rightarrow> 'w \<Rightarrow> byte list \<times> 'w"
  write_stream :: "byte list \<Rightarrow> 'w \<Rightarrow> nat \<times> 'w"
  isConnected :: "'w \<Rightarrow> bool"

definition MaxPayload :: nat where "MaxPayload = 256"
definition kReadBufSize :: nat where "kReadBufSize = 64"
definition kMaxProbeSize :: nat where "kMaxProbeSize = 64"

record CLI =
  m_stream :: bool
  m_parser :: CommandParser
  m_builder :: LightweightStringBuilder
  m_hasPending :: bool
  m_mode :: CommsMode
  m_frameDecoder :: FrameDecoder
  m_framedCommand :: command
  m_hasFramedCommand :: bool
  m_framedSeqNum :: byte
  m_handler :: bool
  m_router :: bool
  m_probeBuf :: "byte list"
  m_probeActive :: bool
  m_probeLen :: nat

definition CLI_init :: "Cfg \<Rightarrow> bool \<Rightarrow> CLI" where
  "CLI_init cfg stream = \<lparr>m_stream = stream, m_parser = CommandParser_init cfg, m_builder = sb_init,
     m_hasPending = False, m_mode = TEXT, m_frameDecoder = FrameDecoder_init MaxPayload,
     m_framedCommand = command_default, m_hasFramedCommand = False, m_framedSeqNum = 0,
     m_handler = False, m_router = False, m_probeBuf = replicate kMaxProbeSize 0,
     m_probeActive = False, m_probeLen = 0\<rparr>"

definition hasStream :: "CLI \<Rightarrow> bool" where
  "hasStream c = m_stream c"

definition setProtocolHandler :: "bool \<Rightarrow> CLI \<Rightarrow> CLI" where
  "setProtocolHandler handler c =
     (let c = c\<lparr>m_handler := handler\<rparr> in
      if m_handler c then c\<lparr>m_router := True\<rparr> else c\<lparr>m_router := False\<rparr>)"

section \<open>Output\<close>

definition write_bytes :: "'w IStream \<Rightarrow> byte list \<Rightarrow> 'w \<Rightarrow> 'w" where
  "write_bytes strm bs w = snd (write_stream strm bs w)"

definition encode_frame :: "byte \<Rightarrow> byte \<Rightarrow> byte list option \<Rightarrow> nat \<Rightarrow> nat \<times> byte list" where
  "encode_frame type seqNum payload len =
     (case FrameEncoder_encode MaxPayload type seqNum payload len
         (replicate (kMaxWireSize MaxPayload) 0) (kMaxWireSize MaxPayload) of
        Some r \<Rightarrow> r
      | None \<Rightarrow> (0, []))"

definition sendFrame ::
  "'w IStream \<Rightarrow> byte \<Rightarrow> byte \<Rightarrow> byte list option \<Rightarrow> nat \<Rightarrow> CLI \<times> 'w \<Rightarrow> CLI \<times> 'w" where
  "sendFrame strm type seqNum payload len s =
     (if \<not> m_stream (fst s) then s
      else
        let (n, wire) = encode_frame type seqNum payload len in
        if n > 0 then (fst s, write_bytes strm (take n wire) (snd s)) else s)"

definition sendFramedAck :: "'w IStream \<Rightarrow> byte \<Rightarrow> byte \<Rightarrow> CLI \<times> 'w \<Rightarrow> CLI \<times> 'w" where
  "sendFramedAck strm seqNum cmdId s =
     (case serializeAck cmdId (replicate 1 0) 1 of
        Some (pLen, payload) \<Rightarrow> sendFrame strm MT_ACK seqNum (Some payload) pLen s
      | None \<Rightarrow> s)"

definition sendFramedNack ::
  "'w IStream \<Rightarrow> byte \<Rightarrow> byte \<Rightarrow> byte \<Rightarrow> f32 \<Rightarrow> CLI \<times> 'w \<Rightarrow> CLI \<times> 'w" where
  "sendFramedNack strm seqNum cmdId device value s =
     (case serializeNack cmdId device value (replicate 6 0) 6 of
        Some (pLen, payload) \<Rightarrow> sendFrame strm MT_NACK seqNum (Some payload) pLen s
      | None \<Rightarrow> s)"

definition sendFramedHandshakeResp :: "'w IStream \<Rightarrow> byte \<Rightarrow> CLI \<times> 'w \<Rightarrow> CLI \<times> 'w" where
  "sendFramedHandshakeResp strm seqNum s =
     (case serializeHandshakeResp (replicate 6 0) 6 of
        Some (pLen, payload) \<Rightarrow> sendFrame strm MT_HANDSHAKE_RESP seqNum (Some payload) pLen s
      | None \<Rightarrow> s)"

definition sendFramedHeartbeat :: "'w IStream \<Rightarrow> byte \<Rightarrow> CLI \<times> 'w \<Rightarrow> CLI \<times> 'w" where
  "sendFramedHeartbeat strm seqNum = sendFrame strm MT_HEARTBEAT seqNum None 0"

definition sendFramedData :: "'w IStream \<Rightarrow> byte list option \<Rightarrow> nat \<Rightarrow> CLI \<times> 'w \<Rightarrow> CLI \<times> 'w" where
  "sendFramedData strm payload len = sendFrame strm MT_DATA 0 payload len"

definition sendFramedLog :: "'w IStream \<Rightarrow> byte \<Rightarrow> cstr option \<Rightarrow> CLI \<times> 'w \<Rightarrow> CLI \<times> 'w" where
  "sendFramedLog strm level msg s =
     (case serializeLog level msg (replicate MaxPayload 0) MaxPayload of
        Some (pLen, payload) \<Rightarrow> if pLen > 0 then sendFrame strm MT_LOG 0 (Some payload) pLen s else s
      | None \<Rightarrow> s)"

definition sendFramedMetricsResp ::
  "'w IStream \<Rightarrow> byte \<Rightarrow> byte list option \<Rightarrow> nat \<Rightarrow> CLI \<times> 'w \<Rightarrow> CLI \<times> 'w" where
  "sendFramedMetricsResp strm seqNum data len = sendFrame strm MT_METRICS_RESP seqNum data len"

definition flush :: "'w IStream \<Rightarrow> CLI \<times> 'w \<Rightarrow> CLI \<times> 'w" where
  "flush strm s =
     (let (c, w) = s in
      if \<not> m_stream c \<or> sb_len (m_builder c) = 0 then (c, w)
      else
        let w = write_bytes strm (take (sb_len (m_builder c)) (sb_buf (m_builder c))) w in
        (c\<lparr>m_builder := sb_clear (m_builder c)\<rparr>, w))"

definition print :: "'w IStream \<Rightarrow> cstr option \<Rightarrow> CLI \<times> 'w \<Rightarrow> CLI \<times> 'w" where
  "print strm msg s =
     (case msg of
        None \<Rightarrow> s
      | Some m \<Rightarrow> if \<not> m_stream (fst s) then s else (fst s, write_bytes strm m (snd s)))"

definition println :: "'w IStream \<Rightarrow> cstr option \<Rightarrow> CLI \<times> 'w \<Rightarrow> CLI \<times> 'w" where
  "println strm msg s =
     (let s = print strm msg s in
      if m_stream (fst s) then (fst s, write_bytes strm [10] (snd s)) else s)"

section \<open>Modes\<close>

definition enterFramedMode :: "CLI \<Rightarrow> CLI" where
  "enterFramedMode c = c\<lparr>m_mode := FRAMED, m_probeActive := False, m_probeLen := 0,
     m_frameDecoder := FrameDecoder_reset (m_frameDecoder c)\<rparr>"

definition exitFramedMode :: "CLI \<Rightarrow> CLI" where
  "exitFramedMode c = c\<lparr>m_mode := TEXT, m_hasPending := False, m_hasFramedCommand := False,
     m_parser := CommandParser_reset (m_parser c)\<rparr>"

section \<open>Input\<close>

definition decoder_step :: "byte \<Rightarrow> FrameDecoder \<Rightarrow> DecoderResult \<times> FrameDecoder" where
  "decoder_step b d = (case feedByte MaxPayload b d of Some r \<Rightarrow> r | None \<Rightarrow> (DECODER_ERROR, d))"

definition router_of :: "(CLI \<times> 'w) IProtocolHandler \<Rightarrow> CLI \<Rightarrow> (CLI \<times> 'w) IProtocolHandler option" where
  "router_of h c = (if m_handler c then Some h else None)"

definition handleDecodedFrame :: "(CLI \<times> 'w) IProtocolHandler \<Rightarrow> CLI \<times> 'w \<Rightarrow> CLI \<times> 'w" where
  "handleDecodedFrame h s =
     (let (c, w) = s; d = m_frameDecoder c; type = fd_msgType d; seq = fd_seqNum d in
      if type = MT_COMMAND then
        (if fd_payloadLen d = 6 then
           (c\<lparr>m_framedCommand := payload_command (getPayload d), m_hasFramedCommand := True,
              m_framedSeqNum := seq\<rparr>, w)
         else (c, w))
      else if m_router c then snd (dispatch (router_of h c) type seq (getPayload d) (c, w))
      else (c, w))"

fun processFramedBytesFrom :: "(CLI \<times> 'w) IProtocolHandler \<Rightarrow> byte list \<Rightarrow> CLI \<times> 'w \<Rightarrow> CLI \<times> 'w" where
  "processFramedBytesFrom h [] s = s"
| "processFramedBytesFrom h (b # bs) s =
     (let (r, d) = decoder_step b (m_frameDecoder (fst s));
          s = ((fst s)\<lparr>m_frameDecoder := d\<rparr>, snd s) in
      processFramedBytesFrom h bs (if r = FRAME_READY then handleDecodedFrame h s else s))"

fun probe_feed :: "byte list \<Rightarrow> FrameDecoder \<Rightarrow> FrameDecoder" where
  "probe_feed [] d = d"
| "probe_feed (b # bs) d = probe_feed bs (snd (decoder_step b d))"

definition tryHandshakeProbe :: "(CLI \<times> 'w) IProtocolHandler \<Rightarrow> CLI \<times> 'w \<Rightarrow> bool \<times> CLI \<times> 'w" where
  "tryHandshakeProbe h s =
     (let (c, w) = s in
      if \<not> m_handler c \<or> \<not> m_router c then (False, c, w)
      else
        let probeDec = probe_feed (take (m_probeLen c) (m_probeBuf c)) (FrameDecoder_init MaxPayload);
            (result, probeDec) = decoder_step kFrameDelimiter probeDec in
        if result \<noteq> FRAME_READY then (False, c, w)
        else if fd_msgType probeDec \<noteq> MT_HANDSHAKE_REQ then (False, c, w)
        else
          let (ok, c, w) = dispatch (router_of h c) (fd_msgType probeDec) (fd_seqNum probeDec)
                (getPayload probeDec) (c, w) in
          if \<not> ok then (False, c, w) else (True, enterFramedMode c, w))"

definition feed_parser :: "Cfg \<Rightarrow> byte \<Rightarrow> CLI \<Rightarrow> CLI" where
  "feed_parser cfg b c =
     (let (r, p) = CommandParser_feedByte cfg b (m_parser c); c = c\<lparr>m_parser := p\<rparr> in
      if r then c\<lparr>m_hasPending := True\<rparr> else c)"

fun processTextBytes :: "Cfg \<Rightarrow> (CLI \<times> 'w) IProtocolHandler \<Rightarrow> byte list \<Rightarrow> CLI \<times> 'w \<Rightarrow> CLI \<times> 'w" where
  "processTextBytes cfg h [] s = s"
| "processTextBytes cfg h (b # bs) (c, w) =
     (if b = kFrameDelimiter then
        let (ok, c, w) = (if m_probeActive c \<and> m_probeLen c > 0 then tryHandshakeProbe h (c, w)
                          else (False, c, w)) in
        if ok then processFramedBytesFrom h bs (c, w)
        else processTextBytes cfg h bs (c\<lparr>m_probeActive := True, m_probeLen := 0\<rparr>, w)
      else if m_probeActive c then
        if m_probeLen c < kMaxProbeSize then
          processTextBytes cfg h bs
            (c\<lparr>m_probeBuf := (m_probeBuf c)[m_probeLen c := b], m_probeLen := m_probeLen c + 1\<rparr>, w)
        else processTextBytes cfg h bs (feed_parser cfg b (c\<lparr>m_probeActive := False, m_probeLen := 0\<rparr>), w)
      else processTextBytes cfg h bs (feed_parser cfg b c, w))"

definition CLI_tick :: "Cfg \<Rightarrow> 'w IStream \<Rightarrow> (CLI \<times> 'w) IProtocolHandler \<Rightarrow> CLI \<times> 'w \<Rightarrow> CLI \<times> 'w" where
  "CLI_tick cfg strm h s =
     (let (c, w) = s in
      if \<not> m_stream c then (c, w)
      else
        let avail = available strm w;
            toRead = (if avail < kReadBufSize then avail else kReadBufSize) in
        if toRead = 0 then (c, w)
        else
          let (got, w) = read_stream strm toRead w in
          if m_mode c = TEXT then processTextBytes cfg h got (c, w)
          else processFramedBytesFrom h got (c, w))"

definition hasCommand :: "CLI \<Rightarrow> bool" where
  "hasCommand c = (if m_mode c = TEXT then m_hasPending c else m_hasFramedCommand c)"

definition CLI_getCommand :: "CLI \<Rightarrow> command option \<times> CLI" where
  "CLI_getCommand c =
     (if m_mode c = TEXT then
        if \<not> m_hasPending c then (None, c)
        else
          let (cmd, p) = CommandParser_getCommand (m_parser c); c = c\<lparr>m_parser := p\<rparr> in
          if cmd \<noteq> None then (cmd, c\<lparr>m_hasPending := False\<rparr>) else (cmd, c)
      else if \<not> m_hasFramedCommand c then (None, c)
      else (Some (m_framedCommand c), c\<lparr>m_hasFramedCommand := False\<rparr>))"

section \<open>The wrappers are total\<close>

lemma decoder_step_some:
  "decoder_ok MaxPayload d \<Longrightarrow> feedByte MaxPayload b d = Some (decoder_step b d) \<and>
     decoder_ok MaxPayload (snd (decoder_step b d))"
  using feedByte_ok [of MaxPayload d b] by (auto simp: decoder_step_def)

lemma maxWireSize_mono: "m \<le> n \<Longrightarrow> maxWireSize m \<le> maxWireSize n"
  by (auto simp: maxWireSize_def rawFrameSize_def cobsMaxEncodedLen_def div_le_mono intro!: add_mono)

lemma encode_frame_some:
  assumes "length p \<le> MaxPayload" "length p = 0 \<or> pl = Some (p @ z)" "pl = None \<or> pl = Some (p @ z)"
  shows "fst (encode_frame t s pl (length p)) = length (frame_wire t s p) \<and>
     take (fst (encode_frame t s pl (length p))) (snd (encode_frame t s pl (length p))) = frame_wire t s p"
proof -
  let ?cap = "kMaxWireSize MaxPayload"
  have "maxWireSize (length p) \<le> ?cap"
    using maxWireSize_mono [OF assms(1)]
    by (simp add: kMaxWireSize_def maxWireSize_def rawFrameSize_def kMaxRawSize_def)
  then obtain out where "FrameEncoder_encode MaxPayload t s (Some p) (length p) (replicate ?cap 0) ?cap
        = Some (length (frame_wire t s p), out)"
      "take (length (frame_wire t s p)) out = frame_wire t s p"
    using FrameEncoder_encode_frame [OF assms(1), of ?cap "replicate ?cap 0" t s] by auto
  moreover have "put_payload raw pl (length p) = put_payload raw (Some p) (length p)" for raw
    using assms(2,3) by (auto simp: put_payload_def)
  then have "FrameEncoder_encode MaxPayload t s pl (length p) o' c
      = FrameEncoder_encode MaxPayload t s (Some p) (length p) o' c" for o' c
    by (simp add: FrameEncoder_encode_def)
  ultimately show ?thesis by (simp add: encode_frame_def)
qed

lemma encode_frame_too_long: "MaxPayload < n \<Longrightarrow> fst (encode_frame t s pl n) = 0"
  by (simp add: encode_frame_def FrameEncoder_encode_def)

lemma frame_wire_nonempty: "frame_wire t s p \<noteq> []"
  by (simp add: frame_wire_def)

lemma sendFrame_frame:
  assumes "length p \<le> MaxPayload" "m_stream c"
  shows "sendFrame strm t q (Some (p @ z)) (length p) (c, w)
      = (c, write_bytes strm (frame_wire t q p) w)"
  using encode_frame_some [OF assms(1), of "Some (p @ z)" z t q] assms(2) frame_wire_nonempty
  by (auto simp: sendFrame_def case_prod_unfold)

lemma sendFrame_empty:
  assumes "m_stream c"
  shows "sendFrame strm t q pl 0 (c, w) = (c, write_bytes strm (frame_wire t q []) w)"
proof -
  have "fst (encode_frame t q pl 0) = length (frame_wire t q []) \<and>
     take (fst (encode_frame t q pl 0)) (snd (encode_frame t q pl 0)) = frame_wire t q []"
    using encode_frame_some [of "[]" pl "case pl of Some p \<Rightarrow> p" t q] by (cases pl) auto
  then show ?thesis using assms frame_wire_nonempty by (auto simp: sendFrame_def case_prod_unfold)
qed

lemma sendFrame_too_long:
  "MaxPayload < n \<Longrightarrow> sendFrame strm t q pl n s = s"
  using encode_frame_too_long [of n t q pl] by (simp add: sendFrame_def case_prod_unfold)

lemma fst_sendFrame [simp]: "fst (sendFrame strm t q pl n s) = fst s"
  by (simp add: sendFrame_def case_prod_unfold Let_def)

lemma fst_send [simp]:
  "fst (sendFramedAck strm q i s) = fst s" "fst (sendFramedNack strm q i d v s) = fst s"
  "fst (sendFramedHandshakeResp strm q s) = fst s" "fst (sendFramedHeartbeat strm q s) = fst s"
  "fst (sendFramedMetricsResp strm q dat n s) = fst s" "fst (sendFramedData strm dat n s) = fst s"
  "fst (sendFramedLog strm l msg s) = fst s"
  by (simp_all add: sendFramedAck_def sendFramedNack_def sendFramedHandshakeResp_def sendFramedHeartbeat_def
      sendFramedMetricsResp_def sendFramedData_def sendFramedLog_def split: option.splits prod.splits)

lemma sendFramedAck_frame:
  "m_stream c \<Longrightarrow> sendFramedAck strm q i (c, w) = (c, write_bytes strm (frame_wire MT_ACK q [i]) w)"
  using sendFrame_frame [of "[i]" c strm MT_ACK q "[]" w]
  by (simp add: sendFramedAck_def serializeAck_def wr_def MaxPayload_def)

lemma sendFramedNack_frame:
  "m_stream c \<Longrightarrow> sendFramedNack strm q i d v (c, w)
     = (c, write_bytes strm (frame_wire MT_NACK q (i # d # le32 v)) w)"
  using sendFrame_frame [of "i # d # le32 v" c strm MT_NACK q "[]" w]
  by (simp add: sendFramedNack_def serializeNack_serializeCommand serializeCommand_bytes MaxPayload_def)

lemma length_handshake_payload [simp]: "length handshake_payload = 6"
  by (simp add: handshake_payload_def)

lemma sendFramedHandshakeResp_frame:
  "m_stream c \<Longrightarrow> sendFramedHandshakeResp strm q (c, w)
     = (c, write_bytes strm (frame_wire MT_HANDSHAKE_RESP q handshake_payload) w)"
  using sendFrame_frame [of handshake_payload c strm MT_HANDSHAKE_RESP q "[]" w]
  by (simp add: sendFramedHandshakeResp_def serializeHandshakeResp_bytes MaxPayload_def)

section \<open>The invariant\<close>

text \<open>Buffers have their sizes and indices stay inside them; the router exists exactly with a handler;
  and a command announced in text mode is really there, which is what makes \<^verbatim>\<open>CommsTask\<close>'s loop end.\<close>

definition cli_ok :: "Cfg \<Rightarrow> CLI \<Rightarrow> bool" where
  "cli_ok cfg c \<longleftrightarrow> parser_ok cfg (m_parser c) \<and> decoder_ok MaxPayload (m_frameDecoder c) \<and>
     sb_ok (m_builder c) \<and> length (m_probeBuf c) = kMaxProbeSize \<and> m_probeLen c \<le> kMaxProbeSize \<and>
     (m_router c \<longleftrightarrow> m_handler c) \<and> (m_hasPending c \<longrightarrow> cp_hasPending (m_parser c))"

lemma cli_ok_init: "0 < CfgMaxLineLen cfg \<Longrightarrow> cli_ok cfg (CLI_init cfg stream)"
  by (simp add: cli_ok_def CLI_init_def parser_ok_init decoder_ok_init)
     (simp add: sb_ok_def sb_init_def kCapacity_sb_def)

lemma decoder_reset_ok: "decoder_ok M d \<Longrightarrow> decoder_ok M (FrameDecoder_reset d)"
  by (simp add: decoder_ok_def FrameDecoder_reset_def)

lemma enterFramedMode_ok: "cli_ok cfg c \<Longrightarrow> cli_ok cfg (enterFramedMode c)"
  by (simp add: cli_ok_def enterFramedMode_def decoder_reset_ok)

lemma exitFramedMode_ok: "cli_ok cfg c \<Longrightarrow> cli_ok cfg (exitFramedMode c)"
  by (simp add: cli_ok_def exitFramedMode_def reset_ok)

lemma setProtocolHandler_ok: "cli_ok cfg c \<Longrightarrow> cli_ok cfg (setProtocolHandler b c)"
  by (simp add: cli_ok_def setProtocolHandler_def Let_def)

lemma feed_parser_ok: "cli_ok cfg c \<Longrightarrow> cli_ok cfg (feed_parser cfg b c)"
  using feed_ok [of cfg "m_parser c" b] feed_true_pending [of cfg b "m_parser c"]
    feed_keeps_pending [of "m_parser c" cfg b]
  by (auto simp: cli_ok_def feed_parser_def Let_def case_prod_unfold)

lemma getCommand_cli_ok: "cli_ok cfg c \<Longrightarrow> cli_ok cfg (snd (CLI_getCommand c))"
  using getCommand_ok [of cfg "m_parser c"]
  by (auto simp: cli_ok_def CLI_getCommand_def CommandParser_getCommand_def Let_def)

lemma flush_ok: "cli_ok cfg c \<Longrightarrow> cli_ok cfg (fst (flush strm (c, w)))"
  by (simp add: cli_ok_def flush_def Let_def) (simp add: sb_ok_def sb_clear_def kCapacity_sb_def)

lemma cli_ok_mode: "cli_ok cfg (c\<lparr>m_mode := mode\<rparr>) = cli_ok cfg c"
  by (simp add: cli_ok_def)

text \<open>What the CLI relies on in its handler: a callback keeps the invariant and the stream pointer. Its
  own processing then keeps them.\<close>

locale protocol_handler =
  fixes cfg :: Cfg and h :: "(CLI \<times> 'w) IProtocolHandler"
  assumes onHandshakeRequest_ok:
      "cli_ok cfg (fst s) \<Longrightarrow> cli_ok cfg (fst (onHandshakeRequest h v q s)) \<and>
       m_stream (fst (onHandshakeRequest h v q s)) = m_stream (fst s)"
    and onExitHandshake_ok:
      "cli_ok cfg (fst s) \<Longrightarrow> cli_ok cfg (fst (onExitHandshake h q s)) \<and>
       m_stream (fst (onExitHandshake h q s)) = m_stream (fst s)"
    and onMetricsRequest_ok:
      "cli_ok cfg (fst s) \<Longrightarrow> cli_ok cfg (fst (onMetricsRequest h q s)) \<and>
       m_stream (fst (onMetricsRequest h q s)) = m_stream (fst s)"
    and onHeartbeat_ok:
      "cli_ok cfg (fst s) \<Longrightarrow> cli_ok cfg (fst (onHeartbeat h q s)) \<and>
       m_stream (fst (onHeartbeat h q s)) = m_stream (fst s)"
begin

lemma dispatch_ok:
  "cli_ok cfg (fst s) \<Longrightarrow> t \<noteq> MT_COMMAND \<Longrightarrow>
   cli_ok cfg (fst (snd (dispatch (router_of h c) t q p s))) \<and>
   m_stream (fst (snd (dispatch (router_of h c) t q p s))) = m_stream (fst s)"
  by (auto simp: router_of_def dispatch_def dispatchHandshake_def Let_def onHandshakeRequest_ok
      onExitHandshake_ok onMetricsRequest_ok onHeartbeat_ok)

lemma handleDecodedFrame_ok:
  "cli_ok cfg (fst s) \<Longrightarrow> cli_ok cfg (fst (handleDecodedFrame h s)) \<and>
   m_stream (fst (handleDecodedFrame h s)) = m_stream (fst s)"
  using dispatch_ok [of s]
  by (auto simp: handleDecodedFrame_def Let_def case_prod_unfold) (auto simp: cli_ok_def)

lemma processFramedBytesFrom_ok:
  "cli_ok cfg (fst s) \<Longrightarrow> cli_ok cfg (fst (processFramedBytesFrom h bs s)) \<and>
   m_stream (fst (processFramedBytesFrom h bs s)) = m_stream (fst s)"
proof (induction bs arbitrary: s)
  case (Cons b bs)
  let ?d = "snd (decoder_step b (m_frameDecoder (fst s)))"
  let ?s = "((fst s)\<lparr>m_frameDecoder := ?d\<rparr>, snd s)"
  have "cli_ok cfg (fst ?s)"
    using Cons.prems decoder_step_some by (auto simp: cli_ok_def)
  then show ?case
    using handleDecodedFrame_ok [of ?s] Cons.IH [of ?s] Cons.IH [of "handleDecodedFrame h ?s"]
    by (simp add: Let_def case_prod_unfold)
qed simp

lemma tryHandshakeProbe_ok:
  "cli_ok cfg c \<Longrightarrow> cli_ok cfg (fst (snd (tryHandshakeProbe h (c, w)))) \<and>
   m_stream (fst (snd (tryHandshakeProbe h (c, w)))) = m_stream c"
  using dispatch_ok [of "(c, w)" MT_HANDSHAKE_REQ]
  by (auto simp: tryHandshakeProbe_def Let_def case_prod_unfold enterFramedMode_ok msgtype_defs)
     (auto simp: enterFramedMode_def)

lemma processTextBytes_ok:
  "cli_ok cfg c \<Longrightarrow> cli_ok cfg (fst (processTextBytes cfg h bs (c, w))) \<and>
   m_stream (fst (processTextBytes cfg h bs (c, w))) = m_stream c"
proof (induction bs arbitrary: c w)
  case (Cons b bs)
  have probe: "cli_ok cfg c' \<Longrightarrow> cli_ok cfg (c'\<lparr>m_probeActive := a, m_probeLen := 0\<rparr>)" for c' a
    by (simp add: cli_ok_def)
  have put: "cli_ok cfg c \<Longrightarrow> m_probeLen c < kMaxProbeSize \<Longrightarrow>
     cli_ok cfg (c\<lparr>m_probeBuf := (m_probeBuf c)[m_probeLen c := b], m_probeLen := m_probeLen c + 1\<rparr>)"
    by (auto simp: cli_ok_def)
  have st: "m_stream (feed_parser cfg b c') = m_stream c'" for c'
    by (simp add: feed_parser_def Let_def case_prod_unfold)
  show ?case
  proof (cases "b = kFrameDelimiter")
    case True
    obtain ok c1 w1 where t: "(if m_probeActive c \<and> m_probeLen c > 0 then tryHandshakeProbe h (c, w)
        else (False, c, w)) = (ok, c1, w1)"
      by (metis prod_cases3)
    have "cli_ok cfg c1 \<and> m_stream c1 = m_stream c"
      using t tryHandshakeProbe_ok [OF Cons.prems, of w] Cons.prems by (auto split: if_splits)
    then show ?thesis
      using True t Cons.IH [OF probe, of c1 True w1] processFramedBytesFrom_ok [of "(c1, w1)" bs]
      by (simp add: Let_def)
  next
    case False
    then show ?thesis
      using Cons.IH [OF put] Cons.IH [OF feed_parser_ok, OF probe] Cons.IH [OF feed_parser_ok]
        Cons.prems by (simp add: st)
  qed
qed simp

lemma CLI_tick_ok:
  "cli_ok cfg c \<Longrightarrow> cli_ok cfg (fst (CLI_tick cfg strm h (c, w))) \<and>
   m_stream (fst (CLI_tick cfg strm h (c, w))) = m_stream c"
  using processTextBytes_ok processFramedBytesFrom_ok
  by (auto simp: CLI_tick_def Let_def case_prod_unfold)

end

section \<open>Whole frames and lines\<close>

lemma processFramed_quiet:
  "feedBytes MaxPayload bs (m_frameDecoder c) = Some (rs, d') \<Longrightarrow> FRAME_READY \<notin> set rs \<Longrightarrow>
   processFramedBytesFrom h (bs @ rest) (c, w) = processFramedBytesFrom h rest (c\<lparr>m_frameDecoder := d'\<rparr>, w)"
proof (induction bs arbitrary: c rs)
  case (Cons b bs)
  obtain r1 d1 rs1 where f: "feedByte MaxPayload b (m_frameDecoder c) = Some (r1, d1)"
      "feedBytes MaxPayload bs d1 = Some (rs1, d')" "rs = r1 # rs1"
    using Cons.prems(1) by (auto simp: bind_eq_Some_conv)
  then show ?case
    using Cons.IH [of "c\<lparr>m_frameDecoder := d1\<rparr>" rs1] Cons.prems(2)
    by (auto simp: decoder_step_def)
next
  case (Nil c)
  then show ?case by (cases c) simp
qed

lemma processFramed_ready:
  assumes "feedBytes MaxPayload bs (m_frameDecoder c) = Some (replicate n INCOMPLETE @ [FRAME_READY], d')"
  shows "processFramedBytesFrom h (bs @ rest) (c, w)
     = processFramedBytesFrom h rest (handleDecodedFrame h (c\<lparr>m_frameDecoder := d'\<rparr>, w))"
proof -
  have len: "feedBytes M xs d = Some (rs, d1) \<Longrightarrow> length rs = length xs" for M xs d rs d1
    by (induction xs arbitrary: d rs) (auto simp: bind_eq_Some_conv)
  obtain xs z where bs: "bs = xs @ [z]" using len [OF assms] by (cases bs rule: rev_cases) auto
  then obtain rs d1 r where f: "feedBytes MaxPayload xs (m_frameDecoder c) = Some (rs, d1)"
      "feedByte MaxPayload z d1 = Some (r, d')" "replicate n INCOMPLETE @ [FRAME_READY] = rs @ [r]"
    using assms by (auto simp: feedBytes_append bind_eq_Some_conv)
  then have "FRAME_READY \<notin> set rs" "r = FRAME_READY" by auto
  then show ?thesis
    using processFramed_quiet [OF f(1), of h "[z] @ rest" w] f(2) by (simp add: bs decoder_step_def)
qed

text \<open>A decoder that has just delivered a frame.\<close>

definition holds_frame :: "byte \<Rightarrow> byte \<Rightarrow> byte list \<Rightarrow> FrameDecoder \<Rightarrow> bool" where
  "holds_frame t q p d \<longleftrightarrow> decoder_ready MaxPayload d \<and> fd_msgType d = t \<and> fd_seqNum d = q \<and>
     getPayload d = p \<and> fd_payloadLen d = length p"

lemma feed_frame_wire:
  assumes "decoder_ready MaxPayload d" "length p \<le> MaxPayload"
  obtains n d' where "feedBytes MaxPayload (frame_wire t q p) d = Some (replicate n INCOMPLETE @ [FRAME_READY], d')"
    "holds_frame t q p d'"
proof -
  have "length (frame_bytes t q p) \<le> kMaxRawSize MaxPayload"
    using assms(2) by (simp add: kMaxRawSize_def frame_consts)
  then obtain d' where d': "feedBytes MaxPayload (frame_wire t q p) d
        = Some (replicate (length (cobs [] (frame_bytes t q p))) INCOMPLETE @ [FRAME_READY], d')"
      "decoder_ready MaxPayload d'" "fd_msgType d' = t" "fd_seqNum d' = q" "getPayload d' = p"
    using feedBytes_stuffed [of MaxPayload d "frame_bytes t q p"] assms(1)
      parse_raw_frame_bytes [OF assms(2)] assms(2)
    by (auto simp: decoder_ready_def frame_wire_def kFrameDelimiter_def MaxPayload_def)
  moreover have "fd_payloadLen d' = length p"
    using d'(2,5) by (auto simp: decoder_ready_def decoder_ok_def getPayload_def)
  ultimately show ?thesis using that by (simp add: holds_frame_def)
qed

lemma processFramed_frame:
  assumes "decoder_ready MaxPayload (m_frameDecoder c)" "length p \<le> MaxPayload"
  obtains d' where "holds_frame t q p d'"
    "\<And>rest w. processFramedBytesFrom h (frame_wire t q p @ rest) (c, w)
     = processFramedBytesFrom h rest (handleDecodedFrame h (c\<lparr>m_frameDecoder := d'\<rparr>, w))"
  using feed_frame_wire [OF assms, of t q] processFramed_ready by metis

lemma handle_command_frame:
  assumes "holds_frame MT_COMMAND q p (m_frameDecoder c)"
  shows "handleDecodedFrame h (c, w) =
    (if length p = 6 then (c\<lparr>m_framedCommand := payload_command p, m_hasFramedCommand := True,
        m_framedSeqNum := q\<rparr>, w) else (c, w))"
  using assms by (simp add: handleDecodedFrame_def holds_frame_def)

lemma handle_other_frame:
  assumes "holds_frame t q p (m_frameDecoder c)" "t \<noteq> MT_COMMAND" "m_router c" "m_handler c"
  shows "handleDecodedFrame h (c, w) = snd (dispatch (Some h) t q p (c, w))"
  using assms by (simp add: handleDecodedFrame_def holds_frame_def router_of_def)

text \<open>One read of the stream: what is available is these bytes, and the read returns them.\<close>

definition delivers :: "'w IStream \<Rightarrow> byte list \<Rightarrow> 'w \<Rightarrow> 'w \<Rightarrow> bool" where
  "delivers strm bs w w' \<longleftrightarrow> bs \<noteq> [] \<and> length bs \<le> kReadBufSize \<and> available strm w = length bs \<and>
     read_stream strm (length bs) w = (bs, w')"

lemma CLI_tick_delivers:
  "delivers strm bs w w' \<Longrightarrow> m_stream c \<Longrightarrow>
   CLI_tick cfg strm h (c, w) =
     (if m_mode c = TEXT then processTextBytes cfg h bs (c, w') else processFramedBytesFrom h bs (c, w'))"
  by (auto simp: CLI_tick_def delivers_def Let_def min_def)

lemma processText_parser:
  "0 \<notin> set bs \<Longrightarrow> \<not> m_probeActive c \<Longrightarrow>
   processTextBytes cfg h bs (c, w) =
     (let (rs, p) = parser_feeds cfg bs (m_parser c) in
      (c\<lparr>m_parser := p, m_hasPending := m_hasPending c \<or> True \<in> set rs\<rparr>, w))"
proof (induction bs arbitrary: c)
  case (Cons b bs)
  have np: "\<not> m_probeActive (feed_parser cfg b c)"
    using Cons.prems by (simp add: feed_parser_def Let_def case_prod_unfold)
  show ?case
    using Cons.IH [OF _ np] Cons.prems
    by (auto simp: kFrameDelimiter_def feed_parser_def Let_def case_prod_unfold)
qed simp

text \<open>Without a zero byte, text mode only ever parses lines: no other state of the CLI changes.\<close>

lemma processText_mode:
  "0 \<notin> set bs \<Longrightarrow> m_mode (fst (processTextBytes cfg h bs (c, w))) = m_mode c \<and>
     snd (processTextBytes cfg h bs (c, w)) = w"
proof (induction bs arbitrary: c)
  case (Cons b bs)
  then show ?case
    by (auto simp: kFrameDelimiter_def feed_parser_def Let_def case_prod_unfold)
qed simp

text \<open>The bytes between two delimiters are collected and tried as a handshake.\<close>

lemma processText_collect:
  "0 \<notin> set bs \<Longrightarrow> m_probeActive c \<Longrightarrow> m_probeLen c + length bs \<le> kMaxProbeSize \<Longrightarrow>
   length (m_probeBuf c) = kMaxProbeSize \<Longrightarrow>
   \<exists>buf. processTextBytes cfg h (bs @ rest) (c, w)
      = processTextBytes cfg h rest (c\<lparr>m_probeBuf := buf, m_probeLen := m_probeLen c + length bs\<rparr>, w) \<and>
     length buf = kMaxProbeSize \<and>
     take (m_probeLen c + length bs) buf = take (m_probeLen c) (m_probeBuf c) @ bs"
proof (induction bs arbitrary: c)
  case Nil
  show ?case by (intro exI [of _ "m_probeBuf c"]) (use Nil in simp)
next
  case (Cons b bs)
  let ?c = "c\<lparr>m_probeBuf := (m_probeBuf c)[m_probeLen c := b], m_probeLen := m_probeLen c + 1\<rparr>"
  obtain buf where buf: "processTextBytes cfg h (bs @ rest) (?c, w)
      = processTextBytes cfg h rest (?c\<lparr>m_probeBuf := buf, m_probeLen := m_probeLen ?c + length bs\<rparr>, w)"
     "length buf = kMaxProbeSize"
     "take (m_probeLen ?c + length bs) buf = take (m_probeLen ?c) (m_probeBuf ?c) @ bs"
    using Cons.IH [of ?c] Cons.prems by auto
  have "take (Suc (m_probeLen c)) ((m_probeBuf c)[m_probeLen c := b]) = take (m_probeLen c) (m_probeBuf c) @ [b]"
    using Cons.prems by (simp add: take_Suc_update)
  then show ?case
    using buf Cons.prems by (intro exI [of _ buf]) (auto simp: kFrameDelimiter_def)
qed

lemma probe_feed_feedBytes:
  "feedBytes MaxPayload bs d = Some (rs, d') \<Longrightarrow> probe_feed bs d = d'"
  by (induction bs arbitrary: d rs) (auto simp: bind_eq_Some_conv decoder_step_def)

end
