(* ===== verification/CommsTask.thy ===== *)
theory CommsTask
  imports Cli
begin

text \<open>
  The communications task (\<^verbatim>\<open>include/sputteros/kernel/tasks/ScheduledCommsTask.h\<close>): it drives the CLI, is
  its protocol handler, and moves commands from the stream into the command queue.

  Parameters: the stream, the producer side \<open>push\<close> of the command queue (\<^verbatim>\<open>ICommandProducer::try_push\<close>) and
  the snapshot function, each acting on the world. The \<^verbatim>\<open>while\<close> loop of \<^verbatim>\<open>tick()\<close> is a partial function, so
  that a loop that never ends would be \<open>None\<close>.
\<close>

record CommsTask =
  ct_commandQueue :: bool
  ct_snapshotFn :: bool
  ct_cli :: CLI

definition CommsTask_init :: "Cfg \<Rightarrow> bool \<Rightarrow> bool \<Rightarrow> CommsTask" where
  "CommsTask_init cfg stream commandQueue =
     \<lparr>ct_commandQueue = commandQueue, ct_snapshotFn = False, ct_cli = CLI_init cfg stream\<rparr>"

definition setMetricsSnapshotFn :: "bool \<Rightarrow> CommsTask \<Rightarrow> CommsTask" where
  "setMetricsSnapshotFn fn t = t\<lparr>ct_snapshotFn := fn\<rparr>"

definition comms_periodUs :: "Cfg \<Rightarrow> micros" where
  "comms_periodUs cfg = CfgCommsBudgetUs cfg"

definition comms_schedulePriority :: byte where "comms_schedulePriority = 1"

definition comms_validateDependencies :: "CommsTask \<Rightarrow> bool" where
  "comms_validateDependencies t \<longleftrightarrow> hasStream (ct_cli t) \<and> ct_commandQueue t"

section \<open>The protocol handler\<close>

definition comms_onHandshakeRequest :: "'w IStream \<Rightarrow> u16 \<Rightarrow> byte \<Rightarrow> CLI \<times> 'w \<Rightarrow> CLI \<times> 'w" where
  "comms_onHandshakeRequest strm version seqNum s = sendFramedHandshakeResp strm seqNum s"

definition comms_onExitHandshake :: "'w IStream \<Rightarrow> byte \<Rightarrow> CLI \<times> 'w \<Rightarrow> CLI \<times> 'w" where
  "comms_onExitHandshake strm seqNum s =
     (let (c, w) = sendFramedAck strm seqNum MT_EXIT_HANDSHAKE s in (exitFramedMode c, w))"

definition kMetricsBufSize :: nat where
  "kMetricsBufSize = kMetricsHeaderSize + kMaxSnapshotTasks * kMetricsTaskSize"

definition comms_onMetricsRequest ::
  "'w IStream \<Rightarrow> ('w \<Rightarrow> PerformanceSnapshot \<times> 'w) \<Rightarrow> bool \<Rightarrow> byte \<Rightarrow> CLI \<times> 'w \<Rightarrow> CLI \<times> 'w" where
  "comms_onMetricsRequest strm snapshot snapshotFn seqNum s =
     (if \<not> snapshotFn then sendFramedMetricsResp strm seqNum None 0 s
      else
        let (c, w) = s; (snap, w) = snapshot w in
        (case serializeMetrics snap (replicate kMetricsBufSize 0) kMetricsBufSize of
           Some (len, buf) \<Rightarrow> sendFramedMetricsResp strm seqNum (Some buf) len (c, w)
         | None \<Rightarrow> (c, w)))"

definition comms_onHeartbeat :: "'w IStream \<Rightarrow> byte \<Rightarrow> CLI \<times> 'w \<Rightarrow> CLI \<times> 'w" where
  "comms_onHeartbeat strm seqNum s = sendFramedHeartbeat strm seqNum s"

definition comms_onCommand :: "command \<Rightarrow> byte \<Rightarrow> CLI \<times> 'w \<Rightarrow> CLI \<times> 'w" where
  "comms_onCommand cmd seqNum s = s"

definition comms_handler ::
  "'w IStream \<Rightarrow> ('w \<Rightarrow> PerformanceSnapshot \<times> 'w) \<Rightarrow> bool \<Rightarrow> (CLI \<times> 'w) IProtocolHandler" where
  "comms_handler strm snapshot snapshotFn =
     \<lparr>onCommand = comms_onCommand, onHandshakeRequest = comms_onHandshakeRequest strm,
      onExitHandshake = comms_onExitHandshake strm,
      onMetricsRequest = comms_onMetricsRequest strm snapshot snapshotFn,
      onHeartbeat = comms_onHeartbeat strm\<rparr>"

section \<open>Replies and the tick\<close>

definition ack_builder :: "command \<Rightarrow> LightweightStringBuilder \<Rightarrow> LightweightStringBuilder" where
  "ack_builder cmd b =
     append_char 10 (append_i32 (ucast (cmd_id cmd)) (append_str (Some (str ''ACK '')) (sb_clear b)))"

definition sendTextAck :: "'w IStream \<Rightarrow> command \<Rightarrow> CLI \<times> 'w \<Rightarrow> CLI \<times> 'w" where
  "sendTextAck strm cmd s = flush strm ((fst s)\<lparr>m_builder := ack_builder cmd (m_builder (fst s))\<rparr>, snd s)"

definition nack_builder :: "command \<Rightarrow> LightweightStringBuilder \<Rightarrow> LightweightStringBuilder" where
  "nack_builder cmd b =
     append_char 10 (append_f32 (cmd_value cmd) 3 (append_char 32 (append_i32 (ucast (targetDevice cmd))
       (append_char 32 (append_i32 (ucast (cmd_id cmd)) (append_str (Some (str ''NACK '')) (sb_clear b)))))))"

definition sendTextNack :: "'w IStream \<Rightarrow> command \<Rightarrow> CLI \<times> 'w \<Rightarrow> CLI \<times> 'w" where
  "sendTextNack strm cmd s = flush strm ((fst s)\<lparr>m_builder := nack_builder cmd (m_builder (fst s))\<rparr>, snd s)"

text \<open>The body of the loop for one retrieved command.\<close>

definition comms_deliver ::
  "'w IStream \<Rightarrow> (command \<Rightarrow> 'w \<Rightarrow> bool \<times> 'w) \<Rightarrow> command \<Rightarrow> CLI \<times> 'w \<Rightarrow> CLI \<times> 'w" where
  "comms_deliver strm push cmd s =
     (let (c, w) = s; (ok, w) = push cmd w in
      if ok then
        if m_mode c = FRAMED then sendFramedAck strm (m_framedSeqNum c) (cmd_id cmd) (c, w)
        else sendTextAck strm cmd (c, w)
      else
        if m_mode c = FRAMED then
          sendFramedNack strm (m_framedSeqNum c) (cmd_id cmd) (targetDevice cmd) (cmd_value cmd) (c, w)
        else sendTextNack strm cmd (c, w))"

partial_function (option) comms_loop ::
  "'w IStream \<Rightarrow> (command \<Rightarrow> 'w \<Rightarrow> bool \<times> 'w) \<Rightarrow> bool \<Rightarrow> CLI \<times> 'w \<Rightarrow> (CLI \<times> 'w) option" where
  "comms_loop strm push hasQueue s =
     (if hasCommand (fst s) then
        let (cmd, c) = CLI_getCommand (fst s) in
        if cmd \<noteq> None \<and> hasQueue
        then comms_loop strm push hasQueue (comms_deliver strm push (the cmd) (c, snd s))
        else comms_loop strm push hasQueue (c, snd s)
      else Some s)"

definition comms_tick ::
  "Cfg \<Rightarrow> 'w IStream \<Rightarrow> (command \<Rightarrow> 'w \<Rightarrow> bool \<times> 'w) \<Rightarrow> ('w \<Rightarrow> PerformanceSnapshot \<times> 'w) \<Rightarrow>
   CommsTask \<Rightarrow> 'w \<Rightarrow> (CommsTask \<times> 'w) option" where
  "comms_tick cfg strm push snapshot t w =
     (let s = CLI_tick cfg strm (comms_handler strm snapshot (ct_snapshotFn t)) (ct_cli t, w) in
      do {
        (c, w) \<leftarrow> comms_loop strm push (ct_commandQueue t) s;
        Some (t\<lparr>ct_cli := c\<rparr>, w) })"

definition comms_init ::
  "Cfg \<Rightarrow> 'w IStream \<Rightarrow> ('w \<Rightarrow> PerformanceSnapshot \<times> 'w) \<Rightarrow> CommsTask \<Rightarrow> 'w \<Rightarrow> CommsTask \<times> 'w" where
  "comms_init cfg strm snapshot t w =
     (let (c, w) = CLI_tick cfg strm (comms_handler strm snapshot (ct_snapshotFn t))
            (setProtocolHandler True (ct_cli t), w) in
      (t\<lparr>ct_cli := c\<rparr>, w))"

section \<open>The handler keeps its contract\<close>

lemma comms_handler_simps [simp]:
  "onCommand (comms_handler strm snap b) = comms_onCommand"
  "onHandshakeRequest (comms_handler strm snap b) = comms_onHandshakeRequest strm"
  "onExitHandshake (comms_handler strm snap b) = comms_onExitHandshake strm"
  "onMetricsRequest (comms_handler strm snap b) = comms_onMetricsRequest strm snap b"
  "onHeartbeat (comms_handler strm snap b) = comms_onHeartbeat strm"
  by (simp_all add: comms_handler_def)

lemma onMetricsRequest_fst [simp]: "fst (comms_onMetricsRequest strm snap b q s) = fst s"
  by (auto simp: comms_onMetricsRequest_def Let_def split: prod.splits option.splits)

interpretation comms: protocol_handler cfg "comms_handler strm snap b" for cfg strm snap b
proof
  fix s :: "CLI \<times> 'a" and q
  assume ok: "cli_ok cfg (fst s)"
  have "fst (comms_onExitHandshake strm q s) = exitFramedMode (fst s)"
    by (simp add: comms_onExitHandshake_def case_prod_unfold)
  then show "cli_ok cfg (fst (onExitHandshake (comms_handler strm snap b) q s)) \<and>
      m_stream (fst (onExitHandshake (comms_handler strm snap b) q s)) = m_stream (fst s)"
    using exitFramedMode_ok [OF ok] by (simp add: exitFramedMode_def)
qed (simp_all add: comms_onHandshakeRequest_def comms_onHeartbeat_def)

text \<open>The reply texts.\<close>

definition nack_text :: "command \<Rightarrow> byte list" where
  "nack_text cmd = str ''NACK '' @ renderU32 16 (ucast (cmd_id cmd)) @ [32] @
     renderU32 16 (ucast (targetDevice cmd)) @ [32] @ f32_text (cmd_value cmd) 3 @ [10]"

lemma length_float_pieces:
  "length ((if n then [45] else []) @ renderU32 16 a @
     (if unat (3 :: byte) > 0 then [46] @ concat (map (\<lambda>d. if P d then [48] else []) [1..<unat (3 :: byte)]) @
        renderU32 16 b else [])) \<le> 24"
proof -
  have u: "[Suc 0..<3] = [1, 2 :: nat]" by (simp add: upt_rec)
  show ?thesis using renderU32_length [of a] renderU32_length [of b] by (simp add: u)
qed

lemma length_f32_text_3: "length (f32_text v 3) \<le> 24"
  unfolding f32_text_def Let_def by (rule length_float_pieces)

lemma length_nack_text: "length (nack_text cmd) \<le> 38"
  using length_f32_text_3 [of "cmd_value cmd"] render_byte(2) [of "cmd_id cmd"]
    render_byte(2) [of "targetDevice cmd"]
  by (simp add: nack_text_def str_def)

lemma sb_ok_builders:
  assumes "sb_ok b"
  shows "sb_ok (ack_builder cmd b) \<and> sb_str (ack_builder cmd b) = str ''ACK '' @ renderU32 16 (ucast (cmd_id cmd)) @ [10]"
    and "sb_ok (nack_builder cmd b) \<and> sb_str (nack_builder cmd b) = nack_text cmd"
proof -
  have nn: "\<not> sint (ucast (x :: byte) :: u32) < 0" for x
    by (simp add: sint_uint unsigned_ucast_eq bit_take_bit_iff bit_uint_iff)
  have i32: "extends (renderU32 16 (ucast x)) sb (append_i32 (ucast (x :: byte)) sb)" if "sb_ok sb" for x sb
    using extends_i32 [OF that, of "ucast x"] nn by simp
  note c = sb_ok_clear(1) [OF assms]
  note a1 = extends_str [OF c, of "str ''ACK ''"]
  note a2 = extends_trans [OF a1 i32 [OF extends_ok [OF a1], of "cmd_id cmd"]]
  note a3 = extends_trans [OF a2 extends_char [OF extends_ok [OF a2], of 10]]
  have "length (renderU32 16 (ucast (cmd_id cmd))) \<le> 3" by (rule render_byte)
  with a3 show "sb_ok (ack_builder cmd b) \<and>
      sb_str (ack_builder cmd b) = str ''ACK '' @ renderU32 16 (ucast (cmd_id cmd)) @ [10]"
    by (simp add: ack_builder_def extends_def sb_ok_clear(2) kCapacity_sb_def str_def)
  note n1 = extends_str [OF c, of "str ''NACK ''"]
  note n2 = extends_trans [OF n1 i32 [OF extends_ok [OF n1], of "cmd_id cmd"]]
  note n3 = extends_trans [OF n2 extends_char [OF extends_ok [OF n2], of 32]]
  note n4 = extends_trans [OF n3 i32 [OF extends_ok [OF n3], of "targetDevice cmd"]]
  note n5 = extends_trans [OF n4 extends_char [OF extends_ok [OF n4], of 32]]
  note n6 = extends_trans [OF n5 extends_f32 [OF extends_ok [OF n5], of "cmd_value cmd" 3]]
  note n7 = extends_trans [OF n6 extends_char [OF extends_ok [OF n6], of 10]]
  show "sb_ok (nack_builder cmd b) \<and> sb_str (nack_builder cmd b) = nack_text cmd"
    using n7 length_nack_text [of cmd]
    by (simp add: nack_builder_def extends_def sb_ok_clear(2) kCapacity_sb_def nack_text_def)
qed

section \<open>One command per tick\<close>

text \<open>The command \<^verbatim>\<open>getCommand\<close> returns when one is announced, and the CLI it leaves.\<close>

definition announced :: "CLI \<Rightarrow> command" where
  "announced c = (if m_mode c = TEXT then cp_pending (m_parser c) else m_framedCommand c)"

lemma getCommand_announced:
  assumes "cli_ok cfg c" "hasCommand c"
  obtains c' where "CLI_getCommand c = (Some (announced c), c')" "cli_ok cfg c'" "\<not> hasCommand c'"
    "m_mode c' = m_mode c" "m_stream c' = m_stream c" "m_framedSeqNum c' = m_framedSeqNum c"
    "sb_ok (m_builder c')" "m_hasFramedCommand c' = (m_mode c = TEXT \<and> m_hasFramedCommand c)"
    "m_frameDecoder c' = m_frameDecoder c"
    "m_framedCommand c' = m_framedCommand c" "m_handler c' = m_handler c" "m_probeActive c' = m_probeActive c"
    "m_router c' = m_router c"
proof
  show "CLI_getCommand c = (Some (announced c), snd (CLI_getCommand c))"
    using assms by (auto simp: CLI_getCommand_def hasCommand_def announced_def cli_ok_def
        CommandParser_getCommand_def Let_def)
  show "cli_ok cfg (snd (CLI_getCommand c))" by (rule getCommand_cli_ok [OF assms(1)])
  show "\<not> hasCommand (snd (CLI_getCommand c))"
    using assms by (auto simp: CLI_getCommand_def hasCommand_def cli_ok_def
        CommandParser_getCommand_def Let_def)
qed (use assms in \<open>auto simp: CLI_getCommand_def hasCommand_def cli_ok_def
        CommandParser_getCommand_def Let_def\<close>)

lemma flush_builder:
  assumes "m_stream c" "sb_ok b" "sb_str b \<noteq> []"
  shows "flush strm (c\<lparr>m_builder := b\<rparr>, w) = (c\<lparr>m_builder := sb_clear b\<rparr>, write_bytes strm (sb_str b) w)"
  using assms by (auto simp: flush_def sb_str_def)

definition same_but_builder :: "CLI \<Rightarrow> CLI \<Rightarrow> bool" where
  "same_but_builder c c' \<longleftrightarrow> (\<exists>b. c' = c\<lparr>m_builder := b\<rparr>)"

lemma flush_same: "same_but_builder c (fst (flush strm (c\<lparr>m_builder := b\<rparr>, w)))"
  by (auto simp: flush_def same_but_builder_def)

lemma same_refl [simp]: "same_but_builder c c"
  by (auto simp: same_but_builder_def intro: exI [of _ "m_builder c"])

lemma comms_deliver_same: "same_but_builder c (fst (comms_deliver strm push cmd (c, w)))"
  by (auto simp: comms_deliver_def Let_def sendTextAck_def sendTextNack_def flush_same split: prod.splits)

lemma sb_ok_flush: "sb_ok b \<Longrightarrow> sb_ok (m_builder (fst (flush strm (c\<lparr>m_builder := b\<rparr>, w))))"
  by (auto simp: flush_def sb_ok_clear)

lemma comms_deliver_ok: "cli_ok cfg c \<Longrightarrow> cli_ok cfg (fst (comms_deliver strm push cmd (c, w)))"
proof -
  assume ok: "cli_ok cfg c"
  have "sb_ok (m_builder (fst (comms_deliver strm push cmd (c, w))))"
    using ok sb_ok_builders [of "m_builder c" cmd]
    by (auto simp: comms_deliver_def Let_def sendTextAck_def sendTextNack_def sb_ok_flush cli_ok_def
        split: prod.splits)
  then show ?thesis
    using comms_deliver_same [of c strm push cmd w] ok by (auto simp: same_but_builder_def cli_ok_def)
qed

text \<open>What is answered to a command.\<close>

definition reply :: "CommsMode \<Rightarrow> byte \<Rightarrow> command \<Rightarrow> bool \<Rightarrow> byte list" where
  "reply mode seqNum cmd ok =
     (if mode = FRAMED then
        (if ok then frame_wire MT_ACK seqNum [cmd_id cmd]
         else frame_wire MT_NACK seqNum (cmd_id cmd # targetDevice cmd # le32 (cmd_value cmd)))
      else
        (if ok then str ''ACK '' @ renderU32 16 (ucast (cmd_id cmd)) @ [10] else nack_text cmd))"

lemma comms_deliver_world:
  assumes "m_stream c" "sb_ok (m_builder c)" "push cmd w = (ok, w1)"
  shows "snd (comms_deliver strm push cmd (c, w)) = write_bytes strm (reply (m_mode c) (m_framedSeqNum c) cmd ok) w1"
  using assms sb_ok_builders [OF assms(2), of cmd] flush_builder [OF assms(1), of "ack_builder cmd (m_builder c)" strm w1]
    flush_builder [OF assms(1), of "nack_builder cmd (m_builder c)" strm w1]
  by (simp add: comms_deliver_def reply_def sendFramedAck_frame sendFramedNack_frame
      sendTextAck_def sendTextNack_def) (simp add: nack_text_def)

text \<open>The loop of \<^verbatim>\<open>tick()\<close> runs at most once.\<close>

lemma comms_loop_done: "\<not> hasCommand (fst s) \<Longrightarrow> comms_loop strm push q s = Some s"
  by (subst comms_loop.simps) simp

lemma hasCommand_same: "same_but_builder c c' \<Longrightarrow> hasCommand c' = hasCommand c"
  by (auto simp: same_but_builder_def hasCommand_def)

lemma m_stream_same: "same_but_builder c c' \<Longrightarrow> m_stream c' = m_stream c"
  by (auto simp: same_but_builder_def)

lemma comms_loop_once:
  assumes "cli_ok cfg c"
  shows "comms_loop strm push q (c, w) = Some
     (if hasCommand c then
        let c' = snd (CLI_getCommand c) in
        if q then comms_deliver strm push (announced c) (c', w) else (c', w)
      else (c, w))"
proof (cases "hasCommand c")
  case True
  obtain c' where c': "CLI_getCommand c = (Some (announced c), c')" "\<not> hasCommand c'"
    using getCommand_announced [OF assms True] by metis
  let ?d = "comms_deliver strm push (announced c) (c', w)"
  have "\<not> hasCommand (fst ?d)" using c'(2) by (simp add: hasCommand_same [OF comms_deliver_same])
  then show ?thesis
    using True c' by (subst comms_loop.simps) (simp add: comms_loop_done)
qed (simp add: comms_loop_done)

text \<open>The handshake bytes, up to the mode switch.\<close>

lemma handshake_tick:
  assumes "cli_ok cfg (ct_cli t)" "m_stream (ct_cli t)" "m_handler (ct_cli t)"
    and "m_mode (ct_cli t) = TEXT" "\<not> m_probeActive (ct_cli t)"
    and "delivers strm (0 # frame_wire MT_HANDSHAKE_REQ q (le16 version @ le32 kHandshakeMagic)) w w1"
  shows "\<exists>c. CLI_tick cfg strm (comms_handler strm snapshot (ct_snapshotFn t)) (ct_cli t, w)
      = (c, write_bytes strm (frame_wire MT_HANDSHAKE_RESP q handshake_payload) w1) \<and>
    m_mode c = FRAMED \<and> m_hasFramedCommand c = m_hasFramedCommand (ct_cli t) \<and>
    m_framedCommand c = m_framedCommand (ct_cli t) \<and> m_framedSeqNum c = m_framedSeqNum (ct_cli t) \<and>
    decoder_ready MaxPayload (m_frameDecoder c)"
proof -
  let ?h = "comms_handler strm snapshot (ct_snapshotFn t)" and ?c = "ct_cli t"
  let ?p = "le16 version @ le32 kHandshakeMagic"
  let ?body = "cobs [] (frame_bytes MT_HANDSHAKE_REQ q ?p)"
  have wire: "frame_wire MT_HANDSHAKE_REQ q ?p = ?body @ [0]" by (simp add: frame_wire_def kFrameDelimiter_def)
  have nz: "0 \<notin> set ?body" using cobs_codec.stuffed_nonzero by simp
  have len: "Suc (length ?body) \<le> 64" using assms(6) by (simp add: delivers_def wire kReadBufSize_def)
  let ?c1 = "?c\<lparr>m_probeActive := True, m_probeLen := 0\<rparr>"
  obtain buf where buf: "processTextBytes cfg ?h (?body @ [0]) (?c1, w1)
      = processTextBytes cfg ?h [0] (?c1\<lparr>m_probeBuf := buf, m_probeLen := length ?body\<rparr>, w1)"
     "length buf = kMaxProbeSize" "take (length ?body) buf = ?body"
    using processText_collect [OF nz, of ?c1 cfg ?h "[0]" w1] len assms(1)
    by (auto simp: kMaxProbeSize_def cli_ok_def)
  let ?c2 = "?c1\<lparr>m_probeBuf := buf, m_probeLen := length ?body\<rparr>"
  obtain n d' where d': "feedBytes MaxPayload (?body @ [0]) (FrameDecoder_init MaxPayload)
       = Some (replicate n INCOMPLETE @ [FRAME_READY], d')" "holds_frame MT_HANDSHAKE_REQ q ?p d'"
    using feed_frame_wire [OF decoder_ready_init, of ?p MT_HANDSHAKE_REQ q] by (auto simp: wire MaxPayload_def)
  then obtain rs d1 where d1: "feedBytes MaxPayload ?body (FrameDecoder_init MaxPayload) = Some (rs, d1)"
      "feedByte MaxPayload 0 d1 = Some (FRAME_READY, d')"
    by (auto simp: feedBytes_append bind_eq_Some_conv)
  let ?w2 = "write_bytes strm (frame_wire MT_HANDSHAKE_RESP q handshake_payload) w1"
  have "dispatch (Some ?h) MT_HANDSHAKE_REQ q ?p (?c2, w1) = (True, ?c2, ?w2)"
    using dispatch_handshake_magic [of ?h q version "(?c2, w1)"] assms(2)
    by (simp add: comms_onHandshakeRequest_def sendFramedHandshakeResp_frame)
  then have probe: "tryHandshakeProbe ?h (?c2, w1) = (True, enterFramedMode ?c2, ?w2)"
    using assms(1,3) buf d' d1
    by (simp add: tryHandshakeProbe_def probe_feed_feedBytes decoder_step_def kFrameDelimiter_def
        holds_frame_def router_of_def cli_ok_def)
  have "?body \<noteq> []" using cobs_codec.stuffed_nonempty by simp
  then have "CLI_tick cfg strm ?h (?c, w) = (enterFramedMode ?c2, ?w2)"
    using CLI_tick_delivers [OF assms(6,2), of cfg ?h] assms(4,5) buf(1) probe
    by (simp add: wire kFrameDelimiter_def)
  moreover have "decoder_ready MaxPayload (m_frameDecoder (enterFramedMode ?c2))"
    using assms(1) by (simp add: cli_ok_def enterFramedMode_def decoder_ready_def decoder_reset_ok)
       (simp add: FrameDecoder_reset_def)
  ultimately show ?thesis
    by (intro exI [of _ "enterFramedMode ?c2"]) (simp add: enterFramedMode_def)
qed

section \<open>Properties\<close>

lemma comms_tick_ok:
  assumes "cli_ok cfg (ct_cli t)"
  shows "\<exists>t' w'. comms_tick cfg strm push snapshot t w = Some (t', w') \<and> cli_ok cfg (ct_cli t') \<and>
     \<not> hasCommand (ct_cli t') \<and> m_stream (ct_cli t') = m_stream (ct_cli t) \<and>
     ct_commandQueue t' = ct_commandQueue t \<and> ct_snapshotFn t' = ct_snapshotFn t"
proof -
  obtain c1 w1 where s: "CLI_tick cfg strm (comms_handler strm snapshot (ct_snapshotFn t)) (ct_cli t, w) = (c1, w1)"
    by fastforce
  have ok: "cli_ok cfg c1" "m_stream c1 = m_stream (ct_cli t)"
    using comms.CLI_tick_ok [OF assms, of strm strm snapshot "ct_snapshotFn t" w] s by auto
  show ?thesis
  proof (cases "hasCommand c1")
    case True
    then obtain c2 where c2: "CLI_getCommand c1 = (Some (announced c1), c2)" "cli_ok cfg c2"
      "\<not> hasCommand c2" "m_stream c2 = m_stream c1"
      using getCommand_announced [OF ok(1)] by metis
    let ?d = "if ct_commandQueue t then comms_deliver strm push (announced c1) (c2, w1) else (c2, w1)"
    have d: "cli_ok cfg (fst ?d) \<and> \<not> hasCommand (fst ?d) \<and> m_stream (fst ?d) = m_stream c1"
      using c2 by (simp add: comms_deliver_ok hasCommand_same [OF comms_deliver_same]
          m_stream_same [OF comms_deliver_same])
    have "comms_tick cfg strm push snapshot t w = Some (t\<lparr>ct_cli := fst ?d\<rparr>, snd ?d)"
      using s c2 True comms_loop_once [OF ok(1), of strm push "ct_commandQueue t" w1]
      by (simp add: comms_tick_def case_prod_unfold)
    then show ?thesis using d ok(2) by simp
  next
    case False
    then show ?thesis using s ok by (simp add: comms_tick_def comms_loop_done)
  qed
qed

text \<open>The communications tick always returns. From a consistent CLI, whatever the stream delivers and
  whatever the queue answers, the loop over pending commands ends, hands at most one command to the queue,
  leaves no command pending and keeps every buffer index in bounds.\<close>

theorem comms_tick_returns:
  assumes "cli_ok cfg (ct_cli t)"
  shows "\<exists>t' w'. comms_tick cfg strm push snapshot t w = Some (t', w') \<and> cli_ok cfg (ct_cli t') \<and>
     \<not> hasCommand (ct_cli t') \<and> m_stream (ct_cli t') = m_stream (ct_cli t) \<and>
     ct_commandQueue t' = ct_commandQueue t \<and> ct_snapshotFn t' = ct_snapshotFn t"
  using comms_tick_ok [OF assms] .

text \<open>A stream whose world is the bytes still to come, the writes so far, and a queue of commands, for the
  witnesses.\<close>

type_synonym example_world = "byte list \<times> byte list list \<times> command list"

definition example_stream :: "example_world IStream" where
  "example_stream = \<lparr>available = \<lambda>(i, out, q). length i,
     read_stream = \<lambda>n (i, out, q). (take n i, drop n i, out, q),
     write_stream = \<lambda>bs (i, out, q). (length bs, i, out @ [bs], q),
     isConnected = \<lambda>w. True\<rparr>"

definition example_push :: "nat \<Rightarrow> command \<Rightarrow> example_world \<Rightarrow> bool \<times> example_world" where
  "example_push cap cmd w =
     (let (i, out, q) = w in if length q < cap then (True, i, out, q @ [cmd]) else (False, w))"

definition example_snap :: "nat \<Rightarrow> example_world \<Rightarrow> PerformanceSnapshot \<times> example_world" where
  "example_snap n w = (example_snapshot n, w)"

definition example_comms :: "CommsMode \<Rightarrow> CommsTask" where
  "example_comms mode = \<lparr>ct_commandQueue = True, ct_snapshotFn = True,
     ct_cli = (setProtocolHandler True (CLI_init example_cfg True))\<lparr>m_mode := mode\<rparr>\<rparr>"

lemma example_comms_ok: "cli_ok example_cfg (ct_cli (example_comms mode))"
proof -
  have "cli_ok example_cfg (CLI_init example_cfg True)"
    by (rule cli_ok_init) (simp add: cfg_traits example_cfg_def)
  then have "cli_ok example_cfg (setProtocolHandler True (CLI_init example_cfg True))"
    by (rule setProtocolHandler_ok)
  then show ?thesis by (simp add: example_comms_def cli_ok_mode)
qed

lemma example_comms_simps [simp]:
  "m_mode (ct_cli (example_comms mode)) = mode" "m_stream (ct_cli (example_comms mode))"
  "ct_commandQueue (example_comms mode)" "ct_snapshotFn (example_comms mode)"
  "m_handler (ct_cli (example_comms mode))" "m_router (ct_cli (example_comms mode))"
  "\<not> m_probeActive (ct_cli (example_comms mode))" "\<not> m_hasPending (ct_cli (example_comms mode))"
  "\<not> m_hasFramedCommand (ct_cli (example_comms mode))"
  "fd_cobsLen (m_frameDecoder (ct_cli (example_comms mode))) = 0"
  "cp_len (m_parser (ct_cli (example_comms mode))) = 0"
  by (simp_all add: example_comms_def setProtocolHandler_def CLI_init_def FrameDecoder_init_def
      FrameDecoder_reset_def CommandParser_init_def)

theorem comms_tick_returns_witness:
  "\<exists>t' w'. comms_tick example_cfg example_stream (example_push 1) (example_snap 2) (example_comms TEXT)
       ([49, 32, 50, 32, 51, 10], [], []) = Some (t', w') \<and> cli_ok example_cfg (ct_cli t') \<and>
     \<not> hasCommand (ct_cli t') \<and> m_stream (ct_cli t') = m_stream (ct_cli (example_comms TEXT)) \<and>
     ct_commandQueue t' = ct_commandQueue (example_comms TEXT) \<and>
     ct_snapshotFn t' = ct_snapshotFn (example_comms TEXT)"
  by (rule comms_tick_returns) (rule example_comms_ok)

lemma delivers_example:
  "bs \<noteq> [] \<Longrightarrow> length bs \<le> 64 \<Longrightarrow> delivers example_stream bs (bs, out, q) ([], out, q)"
  by (simp add: delivers_def example_stream_def kReadBufSize_def)

lemma short_frame: "length p \<le> 6 \<Longrightarrow> length (frame_wire t q p) \<le> 15"
  using length_frame_wire [of t q p] maxWireSize_mono [of "length p" 6]
  by (simp add: maxWireSize_def rawFrameSize_def frame_consts cobsMaxEncodedLen_def)

lemma comms_tick_loop:
  assumes "CLI_tick cfg strm (comms_handler strm snapshot (ct_snapshotFn t)) (ct_cli t, w) = (c, w1)"
    and "cli_ok cfg (ct_cli t)"
  shows "comms_tick cfg strm push snapshot t w =
    (if hasCommand c then
       let c' = snd (CLI_getCommand c);
           s = (if ct_commandQueue t then comms_deliver strm push (announced c) (c', w1) else (c', w1)) in
       Some (t\<lparr>ct_cli := fst s\<rparr>, snd s)
     else Some (t\<lparr>ct_cli := c\<rparr>, w1))"
proof -
  have "cli_ok cfg c"
    using comms.CLI_tick_ok [OF assms(2), of strm strm snapshot "ct_snapshotFn t" w] assms(1) by simp
  then show ?thesis
    using assms(1) comms_loop_once [of cfg c strm push "ct_commandQueue t" w1]
    by (auto simp: comms_tick_def Let_def case_prod_unfold)
qed

definition command_payload :: "command \<Rightarrow> byte list" where
  "command_payload cmd = cmd_id cmd # targetDevice cmd # le32 (cmd_value cmd)"

lemma reply_framed: "reply FRAMED q cmd ok =
    (if ok then frame_wire MT_ACK q [cmd_id cmd] else frame_wire MT_NACK q (command_payload cmd))"
  by (simp add: reply_def command_payload_def)

lemma reply_text: "reply TEXT q cmd ok =
    (if ok then str ''ACK '' @ renderU32 16 (ucast (cmd_id cmd)) @ [10] else nack_text cmd)"
  by (simp add: reply_def)

text \<open>A tick that leaves one command announced pushes it and answers.\<close>

lemma comms_tick_command:
  assumes "CLI_tick cfg strm (comms_handler strm snapshot (ct_snapshotFn t)) (ct_cli t, w) = (c, w1)"
    and "cli_ok cfg (ct_cli t)" "m_stream (ct_cli t)" "ct_commandQueue t"
    and "hasCommand c" "push (announced c) w1 = (ok, w2)"
  obtains t' where "comms_tick cfg strm push snapshot t w
      = Some (t', write_bytes strm (reply (m_mode c) (m_framedSeqNum c) (announced c) ok) w2)"
    "m_mode (ct_cli t') = m_mode c" "\<not> hasCommand (ct_cli t')"
proof -
  have ok: "cli_ok cfg c" "m_stream c"
    using comms.CLI_tick_ok [OF assms(2), of strm strm snapshot "ct_snapshotFn t" w] assms(1,3) by auto
  obtain c' where c': "CLI_getCommand c = (Some (announced c), c')" "\<not> hasCommand c'"
    "m_mode c' = m_mode c" "m_stream c' = m_stream c" "m_framedSeqNum c' = m_framedSeqNum c" "sb_ok (m_builder c')"
    using getCommand_announced [OF ok(1) assms(5)] by metis
  let ?s = "comms_deliver strm push (announced c) (c', w1)"
  have "snd ?s = write_bytes strm (reply (m_mode c) (m_framedSeqNum c) (announced c) ok) w2"
    using comms_deliver_world [of c' push "announced c" w1 ok w2 strm] c' ok(2) assms(6) by simp
  moreover have "comms_tick cfg strm push snapshot t w = Some (t\<lparr>ct_cli := fst ?s\<rparr>, snd ?s)"
    using comms_tick_loop [OF assms(1,2), of push] assms(4,5) c'(1) by (simp add: Let_def)
  moreover have "m_mode (fst ?s) = m_mode c"
    using comms_deliver_same [of c' strm push "announced c" w1] c'(3) by (auto simp: same_but_builder_def)
  ultimately show ?thesis
    using that c'(2) by (simp add: hasCommand_same [OF comms_deliver_same])
qed

lemma comms_tick_answer:
  assumes "CLI_tick cfg strm (comms_handler strm snapshot (ct_snapshotFn t)) (ct_cli t, w) = (c, w1)"
    and "cli_ok cfg (ct_cli t)" "m_stream (ct_cli t)" "ct_commandQueue t" "hasCommand c"
    and "announced c = cmd" "m_mode c = mode" "m_framedSeqNum c = q" "push cmd w1 = (ok, w2)"
    and "reply mode q cmd ok = bs"
  shows "\<exists>t'. comms_tick cfg strm push snapshot t w = Some (t', write_bytes strm bs w2) \<and>
     m_mode (ct_cli t') = mode"
proof -
  from assms(6,9) have p: "push (announced c) w1 = (ok, w2)" by simp
  obtain t' where "comms_tick cfg strm push snapshot t w
      = Some (t', write_bytes strm (reply (m_mode c) (m_framedSeqNum c) (announced c) ok) w2)"
    "m_mode (ct_cli t') = m_mode c"
    by (rule comms_tick_command [where push = push, OF assms(1-5) p])
  then show ?thesis unfolding assms(6-8,10) by blast
qed

lemma length_command_payload [simp]: "length (command_payload cmd) = 6"
  by (simp add: command_payload_def)

lemma payload_command_payload [simp]: "payload_command (command_payload cmd) = cmd"
  by (simp add: command_payload_def payload_command_image)

lemma cli_ready: "cli_ok cfg c \<Longrightarrow> fd_cobsLen (m_frameDecoder c) = 0 \<Longrightarrow> decoder_ready MaxPayload (m_frameDecoder c)"
  by (simp add: cli_ok_def decoder_ready_def)

lemma framed_command_tick:
  assumes "cli_ok cfg (ct_cli t)" "m_stream (ct_cli t)" "ct_commandQueue t"
    and "m_mode (ct_cli t) = FRAMED" "fd_cobsLen (m_frameDecoder (ct_cli t)) = 0"
    and "delivers strm (frame_wire MT_COMMAND q (command_payload cmd)) w w1"
    and "push cmd w1 = (ok, w2)"
  shows "\<exists>t'. comms_tick cfg strm push snapshot t w = Some (t', write_bytes strm
       (if ok then frame_wire MT_ACK q [cmd_id cmd] else frame_wire MT_NACK q (command_payload cmd)) w2) \<and>
     m_mode (ct_cli t') = FRAMED"
proof -
  let ?h = "comms_handler strm snapshot (ct_snapshotFn t)"
  let ?p = "command_payload cmd"
  have lp: "length ?p \<le> MaxPayload" by (simp add: MaxPayload_def)
  obtain d' where d': "holds_frame MT_COMMAND q ?p d'"
    "\<And>rest w. processFramedBytesFrom ?h (frame_wire MT_COMMAND q ?p @ rest) (ct_cli t, w)
     = processFramedBytesFrom ?h rest (handleDecodedFrame ?h ((ct_cli t)\<lparr>m_frameDecoder := d'\<rparr>, w))"
    using processFramed_frame [OF cli_ready [OF assms(1,5)] lp] by metis
  let ?c = "(ct_cli t)\<lparr>m_frameDecoder := d', m_framedCommand := cmd, m_hasFramedCommand := True, m_framedSeqNum := q\<rparr>"
  have "CLI_tick cfg strm ?h (ct_cli t, w) = (?c, w1)"
    using CLI_tick_delivers [OF assms(6,2), of cfg ?h] d'(2) [of "[]" w1] assms(4)
      handle_command_frame [of q ?p "(ct_cli t)\<lparr>m_frameDecoder := d'\<rparr>" ?h w1] d'(1)
    by simp
  then show ?thesis
    by (rule comms_tick_answer [where push = push, OF _ assms(1-3) _ _ _ _ assms(7) reply_framed])
       (use assms(4) in \<open>simp_all add: hasCommand_def announced_def\<close>)
qed

text \<open>A framed command is queued and answered. A COMMAND frame that arrives in framed mode is pushed into
  the command queue with exactly its identifier, device and value, and the only bytes written are one
  frame with the same sequence number: an ACK with the identifier when the queue took it, a NACK that
  returns the whole command when the queue was full.\<close>

theorem framed_command_answered:
  assumes "cli_ok cfg (ct_cli t)" "m_stream (ct_cli t)" "ct_commandQueue t"
    and "m_mode (ct_cli t) = FRAMED" "fd_cobsLen (m_frameDecoder (ct_cli t)) = 0"
    and "delivers strm (frame_wire MT_COMMAND q (command_payload cmd)) w w1"
    and "push cmd w1 = (ok, w2)"
  shows "\<exists>t'. comms_tick cfg strm push snapshot t w = Some (t', write_bytes strm
       (if ok then frame_wire MT_ACK q [cmd_id cmd] else frame_wire MT_NACK q (command_payload cmd)) w2) \<and>
     m_mode (ct_cli t') = FRAMED"
  using framed_command_tick [where push = push, OF assms] .

theorem framed_command_answered_witness:
  "let cmd = \<lparr>cmd_id = 1, targetDevice = 0, cmd_value = 0x42480000\<rparr>;
       bs = frame_wire MT_COMMAND 3 (command_payload cmd) in
   \<exists>t'. comms_tick example_cfg example_stream (example_push 1) (example_snap 2) (example_comms FRAMED) (bs, [], [])
       = Some (t', write_bytes example_stream
           (if True then frame_wire MT_ACK 3 [cmd_id cmd] else frame_wire MT_NACK 3 (command_payload cmd))
           ([], [], [cmd])) \<and>
     m_mode (ct_cli t') = FRAMED"
  unfolding Let_def
proof (rule framed_command_answered)
  let ?p = "command_payload \<lparr>cmd_id = 1, targetDevice = 0, cmd_value = 0x42480000\<rparr>"
  have "length (frame_wire MT_COMMAND 3 ?p) \<le> 15" by (rule short_frame) simp
  then show "delivers example_stream (frame_wire MT_COMMAND 3 ?p) (frame_wire MT_COMMAND 3 ?p, [], []) ([], [], [])"
    by (intro delivers_example) (simp_all add: frame_wire_nonempty)
qed (simp_all add: example_comms_ok example_push_def)

text \<open>C27: A typed command is queued and answered. A command line \<^verbatim>\<open><id> <device> <float>\<close> in text mode, with any blanks
  between the fields and any decimal number, within one read and with no handshake probe under way, is pushed into the
  queue as the command it denotes, and the only bytes written are the answer line, \<^verbatim>\<open>ACK <id>\<close> or
  \<^verbatim>\<open>NACK <id> <device> <value>\<close>, as the queue took it or not.\<close>

theorem text_command_answered:
  assumes "cli_ok cfg (ct_cli t)" "m_stream (ct_cli t)" "ct_commandQueue t"
    and "m_mode (ct_cli t) = TEXT" "\<not> m_probeActive (ct_cli t)" "cp_len (m_parser (ct_cli t)) = 0"
    and "i \<le> CfgMaxValidCommandID cfg" "32 \<le> longBits cfg" "eol e"
    and "blanks sp1" "blanks sp2" "decimal_ok sign ds frac"
    and "line = command_line i sp1 d sp2 (decimal sign ds frac)" "length line < CfgMaxLineLen cfg"
    and "delivers strm (line @ [e]) w w1"
    and "cmd = \<lparr>cmd_id = i, targetDevice = d, cmd_value = decimal_value sign ds frac\<rparr>" "push cmd w1 = (ok, w2)"
  shows "\<exists>t'. comms_tick cfg strm push snapshot t w = Some (t', write_bytes strm
       (if ok then str ''ACK '' @ renderU32 16 (ucast i) @ [10] else nack_text cmd) w2) \<and>
     m_mode (ct_cli t') = TEXT"
proof -
  let ?h = "comms_handler strm snapshot (ct_snapshotFn t)"
  have pok: "parser_ok cfg (m_parser (ct_cli t))" using assms(1) by (simp add: cli_ok_def)
  obtain p' where p': "parser_feeds cfg (line @ [e]) (m_parser (ct_cli t)) = (replicate (length line) False @ [True], p')"
      "fst (CommandParser_getCommand p') = Some cmd"
    using command_line_parsed [OF pok assms(6-14)] assms(16) by auto
  have z: "0 \<notin> set (line @ [e])"
    using command_line_chars [OF assms(10-12)] assms(9) unfolding assms(13) by (auto simp: eol_def)
  let ?c = "(ct_cli t)\<lparr>m_parser := p', m_hasPending := True\<rparr>"
  have "CLI_tick cfg strm ?h (ct_cli t, w) = (?c, w1)"
    using CLI_tick_delivers [OF assms(15,2), of cfg ?h] assms(4)
      processText_parser [OF z assms(5), of cfg ?h w1] p'(1) by simp
  then show ?thesis
    by (rule comms_tick_answer [where push = push, OF _ assms(1-3) _ _ _ refl assms(17)])
       (use p'(2) assms(4,16) in \<open>simp_all add: announced_def hasCommand_def CommandParser_getCommand_def
          reply_text split: if_splits\<close>)
qed

theorem text_command_answered_witness:
  "let cmd = \<lparr>cmd_id = 1, targetDevice = 0, cmd_value = 0x42480000\<rparr> in
   \<exists>t'. comms_tick example_cfg example_stream (example_push 0) (example_snap 2) (example_comms TEXT)
         (str ''1 0 50.0'' @ [10], [], [])
       = Some (t', write_bytes example_stream
           (if False then str ''ACK '' @ renderU32 16 (ucast (1 :: byte)) @ [10] else nack_text cmd) ([], [], [])) \<and>
     m_mode (ct_cli t') = TEXT"
  unfolding Let_def
proof (rule text_command_answered [OF _ _ _ _ _ _ _ _ _ _ _ _ example_lines(1) [symmetric]])
  show "delivers example_stream (str ''1 0 50.0'' @ [10]) (str ''1 0 50.0'' @ [10], [], []) ([], [], [])"
    by (intro delivers_example) (simp_all add: str_def)
qed (simp_all only: example_lines(2), simp_all add: example_comms_ok example_push_def eol_def blanks_def decimal_ok_def
  frac_digits_def str_def is_digit_def)

text \<open>C26: the handshake. In text mode the delimited wire image of a HANDSHAKE_REQ with the protocol magic,
  of any version, switches the CLI to framed mode, ready for the next frame, and the only bytes written are
  one HANDSHAKE_RESP frame with the same sequence number, carrying the protocol version and the magic.\<close>

theorem handshake_enters_framed_mode:
  assumes "cli_ok cfg (ct_cli t)" "m_stream (ct_cli t)" "m_handler (ct_cli t)"
    and "m_mode (ct_cli t) = TEXT" "\<not> m_probeActive (ct_cli t)" "\<not> m_hasFramedCommand (ct_cli t)"
    and "delivers strm (0 # frame_wire MT_HANDSHAKE_REQ q (le16 version @ le32 kHandshakeMagic)) w w1"
  shows "\<exists>t'. comms_tick cfg strm push snapshot t w
       = Some (t', write_bytes strm (frame_wire MT_HANDSHAKE_RESP q (le16 kProtocolVersion @ le32 kHandshakeMagic)) w1) \<and>
     m_mode (ct_cli t') = FRAMED \<and> decoder_ready MaxPayload (m_frameDecoder (ct_cli t'))"
proof -
  let ?h = "comms_handler strm snapshot (ct_snapshotFn t)"
  note tick = handshake_tick [OF assms(1-5,7), of snapshot]
  then obtain c where c: "CLI_tick cfg strm ?h (ct_cli t, w)
      = (c, write_bytes strm (frame_wire MT_HANDSHAKE_RESP q handshake_payload) w1)"
    "m_mode c = FRAMED" "m_hasFramedCommand c = m_hasFramedCommand (ct_cli t)"
    "decoder_ready MaxPayload (m_frameDecoder c)"
    by metis
  then have "\<not> hasCommand c" using assms(6) by (simp add: hasCommand_def)
  then show ?thesis
    using comms_tick_loop [OF c(1) assms(1), of push] c by (simp add: handshake_payload_def)
qed

theorem handshake_enters_framed_mode_witness:
  "let bs = 0 # frame_wire MT_HANDSHAKE_REQ 3 (le16 1 @ le32 kHandshakeMagic) in
   \<exists>t'. comms_tick example_cfg example_stream (example_push 1) (example_snap 2) (example_comms TEXT) (bs, [], [])
       = Some (t', write_bytes example_stream
           (frame_wire MT_HANDSHAKE_RESP 3 (le16 kProtocolVersion @ le32 kHandshakeMagic)) ([], [], [])) \<and>
     m_mode (ct_cli t') = FRAMED \<and> decoder_ready MaxPayload (m_frameDecoder (ct_cli t'))"
  unfolding Let_def
proof (rule handshake_enters_framed_mode)
  have "length (frame_wire MT_HANDSHAKE_REQ 3 (le16 1 @ le32 kHandshakeMagic)) \<le> 15"
    by (rule short_frame) simp
  then show "delivers example_stream (0 # frame_wire MT_HANDSHAKE_REQ 3 (le16 1 @ le32 kHandshakeMagic))
      (0 # frame_wire MT_HANDSHAKE_REQ 3 (le16 1 @ le32 kHandshakeMagic), [], []) ([], [], [])"
    by (intro delivers_example) simp_all
qed (simp_all add: example_comms_ok)

text \<open>Text mode is stable. A read without a zero byte, whatever it contains, leaves the CLI in text mode
  and writes nothing but the answer to at most one command; in particular no ASCII input switches the
  protocol.\<close>

theorem ascii_keeps_text_mode:
  assumes "cli_ok cfg (ct_cli t)" "m_stream (ct_cli t)" "m_mode (ct_cli t) = TEXT"
    and "delivers strm bs w w1" "0 \<notin> set bs"
  shows "\<exists>t' w'. comms_tick cfg strm push snapshot t w = Some (t', w') \<and> m_mode (ct_cli t') = TEXT \<and>
     (w' = w1 \<or> (\<exists>cmd ok w2. ct_commandQueue t \<and> push cmd w1 = (ok, w2) \<and>
        w' = write_bytes strm (if ok then str ''ACK '' @ renderU32 16 (ucast (cmd_id cmd)) @ [10] else nack_text cmd) w2))"
proof -
  let ?h = "comms_handler strm snapshot (ct_snapshotFn t)"
  obtain c where c: "CLI_tick cfg strm ?h (ct_cli t, w) = (c, w1)" "m_mode c = TEXT"
    using CLI_tick_delivers [OF assms(4,2), of cfg ?h] assms(3)
      processText_mode [OF assms(5), of cfg ?h "ct_cli t" w1]
    by (intro that [of "fst (CLI_tick cfg strm ?h (ct_cli t, w))"]) (simp_all add: prod_eq_iff)
  show ?thesis
  proof (cases "hasCommand c \<and> ct_commandQueue t")
    case True
    obtain ok w2 where p: "push (announced c) w1 = (ok, w2)" by fastforce
    have "\<exists>t'. comms_tick cfg strm push snapshot t w = Some (t', write_bytes strm
        (reply TEXT (m_framedSeqNum c) (announced c) ok) w2) \<and> m_mode (ct_cli t') = TEXT"
      by (rule comms_tick_answer [where push = push, OF c(1) assms(1,2) _ _ refl c(2) refl p refl]) (use True in auto)
    then show ?thesis using True p unfolding reply_text by blast
  next
    case False
    have "m_mode (snd (CLI_getCommand c)) = TEXT"
      using c(2) by (simp add: CLI_getCommand_def Let_def case_prod_unfold)
    then show ?thesis
      using False c(2) comms_tick_loop [OF c(1) assms(1), of push] by (auto simp: Let_def)
  qed
qed

theorem ascii_keeps_text_mode_witness:
  "\<exists>t' w'. comms_tick example_cfg example_stream (example_push 1) (example_snap 2) (example_comms TEXT)
       ([72, 105, 10], [], []) = Some (t', w') \<and> m_mode (ct_cli t') = TEXT \<and>
     (w' = ([], [], []) \<or> (\<exists>cmd ok w2. ct_commandQueue (example_comms TEXT) \<and>
        example_push 1 cmd ([], [], []) = (ok, w2) \<and>
        w' = write_bytes example_stream
          (if ok then str ''ACK '' @ renderU32 16 (ucast (cmd_id cmd)) @ [10] else nack_text cmd) w2))"
  by (rule ascii_keeps_text_mode [OF example_comms_ok, where bs = "[72, 105, 10]"])
     (simp_all add: delivers_example)

text \<open>C37: only the last command of a read survives. Two COMMAND frames that arrive in the same read are both
  decoded, but the CLI has one slot: the first command is never queued and is not answered, neither with an
  ACK nor with a NACK.\<close>

theorem first_of_two_commands_lost:
  assumes "cli_ok cfg (ct_cli t)" "m_stream (ct_cli t)" "ct_commandQueue t"
    and "m_mode (ct_cli t) = FRAMED" "fd_cobsLen (m_frameDecoder (ct_cli t)) = 0"
    and "delivers strm (frame_wire MT_COMMAND q1 (command_payload cmd1) @
           frame_wire MT_COMMAND q2 (command_payload cmd2)) w w1"
    and "push cmd2 w1 = (ok, w2)"
  shows "\<exists>t'. comms_tick cfg strm push snapshot t w = Some (t', write_bytes strm
       (if ok then frame_wire MT_ACK q2 [cmd_id cmd2] else frame_wire MT_NACK q2 (command_payload cmd2)) w2) \<and>
     m_mode (ct_cli t') = FRAMED"
proof -
  let ?h = "comms_handler strm snapshot (ct_snapshotFn t)"
  let ?p1 = "command_payload cmd1" and ?p2 = "command_payload cmd2"
  have lp: "length ?p1 \<le> MaxPayload" "length ?p2 \<le> MaxPayload" by (simp_all add: MaxPayload_def)
  obtain d1 where d1: "holds_frame MT_COMMAND q1 ?p1 d1"
    "\<And>rest w. processFramedBytesFrom ?h (frame_wire MT_COMMAND q1 ?p1 @ rest) (ct_cli t, w)
     = processFramedBytesFrom ?h rest (handleDecodedFrame ?h ((ct_cli t)\<lparr>m_frameDecoder := d1\<rparr>, w))"
    using processFramed_frame [OF cli_ready [OF assms(1,5)] lp(1)] by metis
  let ?c1 = "(ct_cli t)\<lparr>m_frameDecoder := d1, m_framedCommand := cmd1, m_hasFramedCommand := True, m_framedSeqNum := q1\<rparr>"
  have h1: "handleDecodedFrame ?h ((ct_cli t)\<lparr>m_frameDecoder := d1\<rparr>, w1) = (?c1, w1)"
    using handle_command_frame [of q1 ?p1 "(ct_cli t)\<lparr>m_frameDecoder := d1\<rparr>" ?h w1] d1(1) by simp
  have "decoder_ready MaxPayload (m_frameDecoder ?c1)" using d1(1) by (simp add: holds_frame_def)
  then obtain d2 where d2: "holds_frame MT_COMMAND q2 ?p2 d2"
    "\<And>rest w. processFramedBytesFrom ?h (frame_wire MT_COMMAND q2 ?p2 @ rest) (?c1, w)
     = processFramedBytesFrom ?h rest (handleDecodedFrame ?h (?c1\<lparr>m_frameDecoder := d2\<rparr>, w))"
    using processFramed_frame [OF _ lp(2)] by metis
  let ?c2 = "(ct_cli t)\<lparr>m_frameDecoder := d2, m_framedCommand := cmd2, m_hasFramedCommand := True, m_framedSeqNum := q2\<rparr>"
  have h2: "handleDecodedFrame ?h (?c1\<lparr>m_frameDecoder := d2\<rparr>, w1) = (?c2, w1)"
    using handle_command_frame [of q2 ?p2 "?c1\<lparr>m_frameDecoder := d2\<rparr>" ?h w1] d2(1) by simp
  have "CLI_tick cfg strm ?h (ct_cli t, w) = (?c2, w1)"
    using CLI_tick_delivers [OF assms(6,2), of cfg ?h] d1(2) [of "frame_wire MT_COMMAND q2 ?p2" w1] assms(4)
      d2(2) [of "[]" w1] h1 h2 by simp
  then show ?thesis
    by (rule comms_tick_answer [where push = push, OF _ assms(1-3) _ _ _ _ assms(7) reply_framed])
       (use assms(4) in \<open>simp_all add: hasCommand_def announced_def\<close>)
qed

theorem first_of_two_commands_lost_witness:
  "let cmd1 = \<lparr>cmd_id = 1, targetDevice = 0, cmd_value = 0\<rparr>; cmd2 = \<lparr>cmd_id = 2, targetDevice = 0, cmd_value = 0\<rparr>;
       bs = frame_wire MT_COMMAND 3 (command_payload cmd1) @ frame_wire MT_COMMAND 4 (command_payload cmd2) in
   \<exists>t'. comms_tick example_cfg example_stream (example_push 5) (example_snap 2) (example_comms FRAMED) (bs, [], [])
       = Some (t', write_bytes example_stream
           (if True then frame_wire MT_ACK 4 [cmd_id cmd2] else frame_wire MT_NACK 4 (command_payload cmd2))
           ([], [], [cmd2])) \<and>
     m_mode (ct_cli t') = FRAMED"
  unfolding Let_def
proof (rule first_of_two_commands_lost)
  let ?b = "\<lambda>q i. frame_wire MT_COMMAND q (command_payload \<lparr>cmd_id = i, targetDevice = 0, cmd_value = 0\<rparr>)"
  have "length (?b q i) \<le> 15" for q i by (rule short_frame) simp
  from this [of 3 1] this [of 4 2] show "delivers example_stream (?b 3 1 @ ?b 4 2) (?b 3 1 @ ?b 4 2, [], []) ([], [], [])"
    by (intro delivers_example) (simp_all add: frame_wire_nonempty)
qed (simp_all add: example_comms_ok example_push_def)

lemma metrics_tick:
  assumes "cli_ok cfg (ct_cli t)" "m_stream (ct_cli t)" "m_handler (ct_cli t)" "ct_snapshotFn t"
    and "m_mode (ct_cli t) = FRAMED" "fd_cobsLen (m_frameDecoder (ct_cli t)) = 0"
    and "\<not> m_hasFramedCommand (ct_cli t)" "length p \<le> MaxPayload"
    and "delivers strm (frame_wire MT_METRICS_REQ q p) w w1"
    and "snapshot w1 = (snap, w2)" "snapshot_ok snap"
  shows "\<exists>t'. comms_tick cfg strm push snapshot t w = Some (t',
       if ps_taskCount snap \<le> 7 then write_bytes strm (frame_wire MT_METRICS_RESP q (metrics_image snap)) w2
       else w2) \<and> m_mode (ct_cli t') = FRAMED"
proof -
  let ?h = "comms_handler strm snapshot (ct_snapshotFn t)"
  obtain d' where d': "holds_frame MT_METRICS_REQ q p d'"
    "\<And>rest w. processFramedBytesFrom ?h (frame_wire MT_METRICS_REQ q p @ rest) (ct_cli t, w)
     = processFramedBytesFrom ?h rest (handleDecodedFrame ?h ((ct_cli t)\<lparr>m_frameDecoder := d'\<rparr>, w))"
    using processFramed_frame [OF cli_ready [OF assms(1,6)] assms(8)] by metis
  let ?c = "(ct_cli t)\<lparr>m_frameDecoder := d'\<rparr>"
  let ?n = "length (metrics_image snap)"
  let ?buf = "metrics_image snap @ drop ?n (replicate kMetricsBufSize 0)"
  have n: "?n = 66 + 26 * ps_taskCount snap"
    using length_metrics_image [OF assms(11)] by (simp add: kMetricsHeaderSize_def kMetricsTaskSize_def)
  have fits: "\<not> kMetricsBufSize < ?n"
    using n assms(11) by (simp add: kMetricsBufSize_def snapshot_ok_def kMaxSnapshotTasks_def
        kMetricsHeaderSize_def kMetricsTaskSize_def)
  have m: "comms_onMetricsRequest strm snapshot True q (?c, w1)
      = sendFrame strm MT_METRICS_RESP q (Some ?buf) ?n (?c, w2)"
    using serializeMetrics_image [OF assms(11), of kMetricsBufSize "replicate kMetricsBufSize 0"] fits assms(10)
    by (simp add: comms_onMetricsRequest_def sendFramedMetricsResp_def)
  have "sendFrame strm MT_METRICS_RESP q (Some ?buf) ?n (?c, w2)
      = (?c, if ps_taskCount snap \<le> 7 then write_bytes strm (frame_wire MT_METRICS_RESP q (metrics_image snap)) w2
             else w2)" (is "_ = (?c, ?w')")
  proof (cases "ps_taskCount snap \<le> 7")
    case True
    then have "?n \<le> MaxPayload" by (simp add: n MaxPayload_def)
    then show ?thesis using sendFrame_frame [of "metrics_image snap" ?c] assms(2) True by simp
  next
    case False
    then have "MaxPayload < ?n" by (simp add: n MaxPayload_def)
    then show ?thesis using sendFrame_too_long False by simp
  qed
  then have "handleDecodedFrame ?h (?c, w1) = (?c, ?w')"
    using handle_other_frame [of MT_METRICS_REQ q p ?c ?h w1] d'(1) assms(1,3,4) m
    by (simp add: dispatch_def msgtype_defs cli_ok_def)
  then have "CLI_tick cfg strm ?h (ct_cli t, w) = (?c, ?w')"
    using CLI_tick_delivers [OF assms(9,2), of cfg ?h] d'(2) [of "[]" w1] assms(5) by simp
  from comms_tick_loop [OF this assms(1), of push] show ?thesis
    using assms(5,7) by (simp add: hasCommand_def)
qed

text \<open>The metrics response and its limit. A METRICS_REQ is answered with one METRICS_RESP frame that
  carries the whole snapshot as long as at most seven tasks are in it; with eight to sixteen tasks the
  serialized snapshot is longer than the CLI's frame payload and nothing is sent at all.\<close>

theorem metrics_response:
  assumes "cli_ok cfg (ct_cli t)" "m_stream (ct_cli t)" "m_handler (ct_cli t)" "ct_snapshotFn t"
    and "m_mode (ct_cli t) = FRAMED" "fd_cobsLen (m_frameDecoder (ct_cli t)) = 0"
    and "\<not> m_hasFramedCommand (ct_cli t)" "length p \<le> MaxPayload"
    and "delivers strm (frame_wire MT_METRICS_REQ q p) w w1"
    and "snapshot w1 = (snap, w2)" "snapshot_ok snap"
  shows "\<exists>t'. comms_tick cfg strm push snapshot t w = Some (t',
       if ps_taskCount snap \<le> 7 then write_bytes strm (frame_wire MT_METRICS_RESP q (metrics_image snap)) w2
       else w2) \<and> m_mode (ct_cli t') = FRAMED"
  using metrics_tick [where snapshot = snapshot, OF assms] .

theorem metrics_response_witness:
  "\<exists>t'. comms_tick example_cfg example_stream (example_push 5) (example_snap 8) (example_comms FRAMED)
         (frame_wire MT_METRICS_REQ 3 [], [], []) = Some (t',
       if ps_taskCount (example_snapshot 8) \<le> 7
       then write_bytes example_stream (frame_wire MT_METRICS_RESP 3 (metrics_image (example_snapshot 8))) ([], [], [])
       else ([], [], [])) \<and> m_mode (ct_cli t') = FRAMED"
proof (rule metrics_response)
  have "length (frame_wire MT_METRICS_REQ 3 []) \<le> 15" by (rule short_frame) simp
  then show "delivers example_stream (frame_wire MT_METRICS_REQ 3 []) (frame_wire MT_METRICS_REQ 3 [], [], []) ([], [], [])"
    by (intro delivers_example) (simp_all add: frame_wire_nonempty)
qed (simp_all add: example_comms_ok example_snap_def example_snapshot_ok)

text \<open>A command can outlive its session. A COMMAND frame that follows an EXIT_HANDSHAKE in the same read is
  stored although the CLI is already back in text mode; it is not queued then, but when the next handshake
  switches to framed mode, possibly much later and by another host, the old command is queued and
  acknowledged.\<close>

theorem stale_command_replayed:
  assumes "cli_ok cfg (ct_cli t)" "m_stream (ct_cli t)" "m_handler (ct_cli t)" "ct_commandQueue t"
    and "m_mode (ct_cli t) = FRAMED" "fd_cobsLen (m_frameDecoder (ct_cli t)) = 0" "\<not> m_probeActive (ct_cli t)"
    and "delivers strm (frame_wire MT_EXIT_HANDSHAKE q1 [] @ frame_wire MT_COMMAND q2 (command_payload cmd)) w w1"
    and "delivers strm (0 # frame_wire MT_HANDSHAKE_REQ q3 (le16 version @ le32 kHandshakeMagic))
           (write_bytes strm (frame_wire MT_ACK q1 [MT_EXIT_HANDSHAKE]) w1) w2"
    and "push cmd (write_bytes strm (frame_wire MT_HANDSHAKE_RESP q3 handshake_payload) w2) = (ok, w3)"
  shows "\<exists>t1. comms_tick cfg strm push snapshot t w
       = Some (t1, write_bytes strm (frame_wire MT_ACK q1 [MT_EXIT_HANDSHAKE]) w1) \<and> m_mode (ct_cli t1) = TEXT \<and>
     (\<exists>t2. comms_tick cfg strm push snapshot t1 (write_bytes strm (frame_wire MT_ACK q1 [MT_EXIT_HANDSHAKE]) w1)
       = Some (t2, write_bytes strm
           (if ok then frame_wire MT_ACK q2 [cmd_id cmd] else frame_wire MT_NACK q2 (command_payload cmd)) w3))"
proof -
  let ?h = "comms_handler strm snapshot (ct_snapshotFn t)"
  let ?p = "command_payload cmd"
  have lp: "length ([] :: byte list) \<le> MaxPayload" "length ?p \<le> MaxPayload" by (simp_all add: MaxPayload_def)
  obtain d1 where d1: "holds_frame MT_EXIT_HANDSHAKE q1 [] d1"
    "\<And>rest w. processFramedBytesFrom ?h (frame_wire MT_EXIT_HANDSHAKE q1 [] @ rest) (ct_cli t, w)
     = processFramedBytesFrom ?h rest (handleDecodedFrame ?h ((ct_cli t)\<lparr>m_frameDecoder := d1\<rparr>, w))"
    using processFramed_frame [OF cli_ready [OF assms(1,6)] lp(1)] by metis
  let ?wa = "write_bytes strm (frame_wire MT_ACK q1 [MT_EXIT_HANDSHAKE]) w1"
  let ?c1 = "exitFramedMode ((ct_cli t)\<lparr>m_frameDecoder := d1\<rparr>)"
  have h1: "handleDecodedFrame ?h ((ct_cli t)\<lparr>m_frameDecoder := d1\<rparr>, w1) = (?c1, ?wa)"
    using handle_other_frame [of MT_EXIT_HANDSHAKE q1 "[]" "(ct_cli t)\<lparr>m_frameDecoder := d1\<rparr>" ?h w1] d1(1)
      assms(1-3) by (simp add: dispatch_def msgtype_defs cli_ok_def comms_onExitHandshake_def
        sendFramedAck_frame [unfolded msgtype_defs])
  have "decoder_ready MaxPayload (m_frameDecoder ?c1)"
    using d1(1) by (simp add: holds_frame_def exitFramedMode_def)
  then obtain d2 where d2: "holds_frame MT_COMMAND q2 ?p d2"
    "\<And>rest w. processFramedBytesFrom ?h (frame_wire MT_COMMAND q2 ?p @ rest) (?c1, w)
     = processFramedBytesFrom ?h rest (handleDecodedFrame ?h (?c1\<lparr>m_frameDecoder := d2\<rparr>, w))"
    using processFramed_frame [OF _ lp(2)] by metis
  let ?c2 = "?c1\<lparr>m_frameDecoder := d2, m_framedCommand := cmd, m_hasFramedCommand := True, m_framedSeqNum := q2\<rparr>"
  have h2: "handleDecodedFrame ?h (?c1\<lparr>m_frameDecoder := d2\<rparr>, ?wa) = (?c2, ?wa)"
    using handle_command_frame [of q2 ?p "?c1\<lparr>m_frameDecoder := d2\<rparr>" ?h ?wa] d2(1) by simp
  have tick1: "CLI_tick cfg strm ?h (ct_cli t, w) = (?c2, ?wa)"
    using CLI_tick_delivers [OF assms(8,2), of cfg ?h] d1(2) [of "frame_wire MT_COMMAND q2 ?p" w1] assms(5)
      d2(2) [of "[]" ?wa] h1 h2 by simp
  have c2: "m_mode ?c2 = TEXT" "\<not> m_hasPending ?c2" "m_stream ?c2" "m_handler ?c2" "\<not> m_probeActive ?c2"
    using assms(2,3,7) by (simp_all add: exitFramedMode_def)
  let ?t1 = "t\<lparr>ct_cli := ?c2\<rparr>"
  have r1: "comms_tick cfg strm push snapshot t w = Some (?t1, ?wa)"
    using comms_tick_loop [OF tick1 assms(1), of push] c2(1,2) by (simp add: hasCommand_def)
  have ok1: "cli_ok cfg (ct_cli ?t1)"
    using comms.CLI_tick_ok [OF assms(1), of strm strm snapshot "ct_snapshotFn t" w] tick1 by simp
  obtain c3 where c3: "CLI_tick cfg strm (comms_handler strm snapshot (ct_snapshotFn ?t1)) (ct_cli ?t1, ?wa)
      = (c3, write_bytes strm (frame_wire MT_HANDSHAKE_RESP q3 handshake_payload) w2)"
      "m_mode c3 = FRAMED" "m_hasFramedCommand c3" "m_framedCommand c3 = cmd" "m_framedSeqNum c3 = q2"
    using handshake_tick [OF ok1 _ _ _ _ assms(9), of snapshot] c2 by auto
  have "\<exists>t2. comms_tick cfg strm push snapshot ?t1 ?wa = Some (t2, write_bytes strm
           (if ok then frame_wire MT_ACK q2 [cmd_id cmd] else frame_wire MT_NACK q2 ?p) w3) \<and>
         m_mode (ct_cli t2) = FRAMED"
    by (rule comms_tick_answer [where push = push, OF c3(1) ok1 _ _ _ _ c3(2,5) assms(10) reply_framed])
       (use c2 c3 assms(4) in \<open>simp_all add: hasCommand_def announced_def\<close>)
  then show ?thesis using r1 c2(1) by (intro exI [of _ ?t1]) auto
qed

theorem stale_command_replayed_witness:
  "let cmd = \<lparr>cmd_id = 9, targetDevice = 0, cmd_value = 0\<rparr>;
       b1 = frame_wire MT_EXIT_HANDSHAKE 1 [] @ frame_wire MT_COMMAND 2 (command_payload cmd);
       b2 = 0 # frame_wire MT_HANDSHAKE_REQ 3 (le16 1 @ le32 kHandshakeMagic);
       strm = example_stream\<lparr>available := \<lambda>(i, out, q). if length out = 0 then length b1 else length i\<rparr>;
       wa = write_bytes strm (frame_wire MT_ACK 1 [MT_EXIT_HANDSHAKE]) (b2, [], []) in
   \<exists>t1. comms_tick example_cfg strm (example_push 5) (example_snap 2) (example_comms FRAMED) (b1 @ b2, [], [])
       = Some (t1, wa) \<and> m_mode (ct_cli t1) = TEXT \<and>
     (\<exists>t2. comms_tick example_cfg strm (example_push 5) (example_snap 2) t1 wa = Some (t2, write_bytes strm
           (if True then frame_wire MT_ACK 2 [cmd_id cmd] else frame_wire MT_NACK 2 (command_payload cmd))
           ([], [frame_wire MT_ACK 1 [MT_EXIT_HANDSHAKE],
                 frame_wire MT_HANDSHAKE_RESP 3 handshake_payload], [cmd])))"
  unfolding Let_def
proof (rule stale_command_replayed)
  let ?cmd = "\<lparr>cmd_id = 9, targetDevice = 0, cmd_value = 0\<rparr>"
  let ?b1 = "frame_wire MT_EXIT_HANDSHAKE 1 [] @ frame_wire MT_COMMAND 2 (command_payload ?cmd)"
  let ?b2 = "0 # frame_wire MT_HANDSHAKE_REQ 3 (le16 1 @ le32 kHandshakeMagic)"
  let ?strm = "example_stream\<lparr>available := \<lambda>(i, out, q). if length out = 0 then length ?b1 else length i\<rparr>"
  have "length (frame_wire MT_EXIT_HANDSHAKE 1 []) \<le> 15" "length (frame_wire MT_COMMAND 2 (command_payload ?cmd)) \<le> 15"
    "length (frame_wire MT_HANDSHAKE_REQ 3 (le16 1 @ le32 kHandshakeMagic)) \<le> 15"
    by (rule short_frame; simp)+
  then show "delivers ?strm ?b1 (?b1 @ ?b2, [], []) (?b2, [], [])"
    and "delivers ?strm ?b2 (write_bytes ?strm (frame_wire MT_ACK 1 [MT_EXIT_HANDSHAKE]) (?b2, [], []))
          ([], [frame_wire MT_ACK 1 [MT_EXIT_HANDSHAKE]], [])"
    by (simp_all add: delivers_def example_stream_def write_bytes_def kReadBufSize_def frame_wire_nonempty)
qed (simp_all add: example_comms_ok example_push_def example_stream_def write_bytes_def)

end
