(* ===== verification/KernelPub.thy ===== *)
theory KernelPub
  imports CommsTask Sync LockFreeQueue
begin

text \<open>
  What user code can reach of the kernel, and the user code itself.

  \<open>pub\<close> is the state behind the public static accessors of \<^verbatim>\<open>System<Cfg>\<close> (\<^verbatim>\<open>kernel/System.h\<close>) and the
  embedded timer of every task. The state of the user's own objects (application, devices, streams, clock)
  is the field \<open>world\<close>. The private members of \<^verbatim>\<open>System\<close>, among them the three kernel tasks, are in the
  theory \<open>KernelSystem\<close>; user code cannot change them.

  \<open>user\<close> collects the user-supplied code, which is not part of the sources: the virtual functions of
  \<^verbatim>\<open>IUserApplication\<close>, \<^verbatim>\<open>ISafetyMonitor\<close>, \<^verbatim>\<open>ITask\<close> and its subclasses, \<^verbatim>\<open>ICrunchTask\<close>, the platform functions.
  Each may change anything in \<open>pub\<close>. A task's \<^verbatim>\<open>tick\<close> and a \<^verbatim>\<open>crunch\<close> iteration are \<open>None\<close> when they do not
  return. The attributes a
  task declares (period, WCET, priority, budget) are constants of the task, as their comments say.

  A pointer to a task is a \<open>tref\<close>.
\<close>

datatype tref = TControl | TComms | TDiags | TUser nat | TCrunch nat

record MemoryProfiler =
  mp_baselineFreeBytes :: nat
  mp_peakUsedBytes :: nat

record 'u pub =
  world :: 'u
  commandQueue :: "command lf_queue"
  watchdog :: WatchdogSync
  errorLogger :: ErrorLogger
  telemetryLogger :: TelemetryLogger
  memProfiler :: MemoryProfiler
  sysTimer :: SystemTimer
  utilTracker :: "CoreUtilizationTracker list"
  queueMonitor :: QueueDepthMonitor
  schedulerHealth :: SchedulerHealthMetrics
  safetyAbort :: bool
  timers :: "tref \<Rightarrow> TaskTimer"

record 'u itask =
  isScheduled :: bool
  kernelManagedPeriod :: bool
  periodUs :: micros
  declaredWcetUs :: micros
  schedulePriority :: byte
  maxBudgetUs :: micros
  task_init :: "'u pub \<Rightarrow> 'u pub"
  task_tick :: "micros \<Rightarrow> 'u pub \<Rightarrow> 'u pub option"
  onOverrun :: "micros \<Rightarrow> micros \<Rightarrow> 'u pub \<Rightarrow> 'u pub"
  validateDependencies :: "'u pub \<Rightarrow> bool"

record 'u icrunch =
  crunch_init :: "'u pub \<Rightarrow> 'u pub"
  crunch :: "micros \<Rightarrow> 'u pub \<Rightarrow> 'u pub option"
  crunchPeriodUs :: micros
  maxIterationUs :: micros
  onCrunchAbort :: "'u pub \<Rightarrow> 'u pub"

record 'u user =
  clk :: "'u clock"
  strm :: "'u IStream"
  app_init :: "'u pub \<Rightarrow> 'u pub"
  app_tick :: "micros \<Rightarrow> 'u pub \<Rightarrow> 'u pub"
  handleCommand :: "command \<Rightarrow> 'u pub \<Rightarrow> 'u pub"
  forceSafeAbort :: "'u pub \<Rightarrow> 'u pub"
  monitors :: "('u pub \<Rightarrow> bool) option list"
  user_task :: "nat \<Rightarrow> 'u itask"
  crunch_task :: "nat \<Rightarrow> 'u icrunch"
  stopCondition :: "nat \<Rightarrow> 'u pub \<Rightarrow> bool \<times> 'u pub"
  watchdogKick :: "'u pub \<Rightarrow> 'u pub"
  drainFn :: "byte list \<Rightarrow> 'u \<Rightarrow> 'u"
  mutex_lock :: "millis \<Rightarrow> 'u \<Rightarrow> bool \<times> 'u"
  mutex_unlock :: "'u \<Rightarrow> 'u"

section \<open>Access to the shared components\<close>

definition pub_now :: "'u user \<Rightarrow> 'u pub \<Rightarrow> micros \<times> 'u pub" where
  "pub_now U p = (let (t, w) = nowMicros (clk U) (sysTimer p) (world p) in (t, p\<lparr>world := w\<rparr>))"

definition log_error :: "ErrorCode \<Rightarrow> micros \<Rightarrow> f32 \<Rightarrow> 'u pub \<Rightarrow> 'u pub" where
  "log_error code t v p = p\<lparr>errorLogger := ErrorLogger_log code t v (errorLogger p)\<rparr>"

definition signalSafetyAbort :: "'u pub \<Rightarrow> 'u pub" where
  "signalSafetyAbort p = p\<lparr>safetyAbort := True\<rparr>"

definition isSafetyAborted :: "'u pub \<Rightarrow> bool" where
  "isSafetyAborted p = safetyAbort p"

definition clearSafetyAbort :: "'u pub \<Rightarrow> 'u pub" where
  "clearSafetyAbort p = p\<lparr>safetyAbort := False\<rparr>"

definition timer_start :: "'u user \<Rightarrow> tref \<Rightarrow> 'u pub \<Rightarrow> 'u pub" where
  "timer_start U r p =
     (let (tm, w) = TaskTimer_start (clk U) (timers p r) (world p) in
      p\<lparr>timers := (timers p)(r := tm), world := w\<rparr>)"

definition timer_stop :: "'u user \<Rightarrow> tref \<Rightarrow> 'u pub \<Rightarrow> 'u pub" where
  "timer_stop U r p =
     (let (tm, w) = TaskTimer_stop (clk U) (timers p r) (world p) in
      p\<lparr>timers := (timers p)(r := tm), world := w\<rparr>)"

definition lastDuration :: "tref \<Rightarrow> 'u pub \<Rightarrow> micros" where
  "lastDuration r p = tt_lastDuration (timers p r)"

definition pub_try_push :: "Cfg \<Rightarrow> command \<Rightarrow> 'u pub \<Rightarrow> bool \<times> 'u pub" where
  "pub_try_push cfg cmd p =
     (let (ok, q) = try_push (kQueueCapacity cfg) cmd (commandQueue p) in (ok, p\<lparr>commandQueue := q\<rparr>))"

definition pub_try_pop :: "Cfg \<Rightarrow> 'u pub \<Rightarrow> command option \<times> 'u pub" where
  "pub_try_pop cfg p =
     (let (c, q) = try_pop (kQueueCapacity cfg) (commandQueue p) in (c, p\<lparr>commandQueue := q\<rparr>))"

text \<open>The user's stream acts on the user's part of the state.\<close>

definition pub_stream :: "'u user \<Rightarrow> 'u pub IStream" where
  "pub_stream U = \<lparr>available = \<lambda>p. available (strm U) (world p),
     read_stream = \<lambda>n p. let (bs, w) = read_stream (strm U) n (world p) in (bs, p\<lparr>world := w\<rparr>),
     write_stream = \<lambda>bs p. let (n, w) = write_stream (strm U) bs (world p) in (n, p\<lparr>world := w\<rparr>),
     isConnected = \<lambda>p. isConnected (strm U) (world p)\<rparr>"

section \<open>Memory profiler\<close>

text \<open>\<^verbatim>\<open>src/utils/MemoryProfiler.cpp\<close>; the portable library has no heap query.\<close>

definition getFreeHeapBytes :: nat where "getFreeHeapBytes = 0"
definition getStackHighWaterMark :: nat where "getStackHighWaterMark = 0"

definition MemoryProfiler_init :: MemoryProfiler where
  "MemoryProfiler_init = \<lparr>mp_baselineFreeBytes = getFreeHeapBytes, mp_peakUsedBytes = 0\<rparr>"

definition MemoryProfiler_update :: "MemoryProfiler \<Rightarrow> MemoryProfiler" where
  "MemoryProfiler_update m =
     (let freeNow = getFreeHeapBytes;
          usedNow = (if freeNow \<le> mp_baselineFreeBytes m then mp_baselineFreeBytes m - freeNow else 0) in
      if usedNow > mp_peakUsedBytes m then m\<lparr>mp_peakUsedBytes := usedNow\<rparr> else m)"

definition MemoryProfiler_reset :: "MemoryProfiler \<Rightarrow> MemoryProfiler" where
  "MemoryProfiler_reset m = m\<lparr>mp_baselineFreeBytes := getFreeHeapBytes, mp_peakUsedBytes := 0\<rparr>"

definition getPeakHeapUsedBytes :: "MemoryProfiler \<Rightarrow> nat" where
  "getPeakHeapUsedBytes m = mp_peakUsedBytes m"

section \<open>The initial state\<close>

text \<open>The static initialisers of the members of \<^verbatim>\<open>System\<close> that are in \<open>pub\<close>, for a given state of the user's
  objects.\<close>

definition pub_init :: "Cfg \<Rightarrow> 'u \<Rightarrow> 'u pub" where
  "pub_init cfg u = \<lparr>world = u, commandQueue = LockFreeQueue_init (kQueueCapacity cfg) command_default,
     watchdog = WatchdogSync_init (kCoreCount cfg), errorLogger = ErrorLogger_init,
     telemetryLogger = TelemetryLogger_init False, memProfiler = MemoryProfiler_init,
     sysTimer = SystemTimer_init, utilTracker = replicate (kCoreCount cfg) CoreUtilizationTracker_init,
     queueMonitor = QueueDepthMonitor_init, schedulerHealth = SchedulerHealthMetrics_init,
     safetyAbort = False, timers = (\<lambda>_. TaskTimer_init)\<rparr>"

section \<open>An example application\<close>

text \<open>A concrete user for the witnesses. Its clock advances with every reading, the application records the
  commands it is given, and task \<open>n\<close> takes \<open>100 * n\<close> microseconds, is scheduled for \<open>n < 50\<close> (with a
  kernel-managed period of \<open>1000 * n\<close>) and is a background task otherwise.\<close>

record example_user_state =
  ex_time :: micros
  ex_safe :: bool
  ex_in :: "byte list"
  ex_out :: "byte list list"
  ex_log :: "command list"
  ex_ran :: "nat list"

definition on_world :: "('u \<Rightarrow> 'u) \<Rightarrow> 'u pub \<Rightarrow> 'u pub" where
  "on_world f p = p\<lparr>world := f (world p)\<rparr>"

definition spend :: "micros \<Rightarrow> example_user_state \<Rightarrow> example_user_state" where
  "spend d u = u\<lparr>ex_time := ex_time u + d\<rparr>"

definition example_task :: "nat \<Rightarrow> example_user_state itask" where
  "example_task n = \<lparr>isScheduled = (n < 50), kernelManagedPeriod = True, periodUs = 1000 * of_nat n,
     declaredWcetUs = 0, schedulePriority = (if n < 10 then of_nat n else 0xFF), maxBudgetUs = 1000,
     task_init = (\<lambda>p. p),
     task_tick = (\<lambda>now p. Some (on_world (\<lambda>u. spend (100 * of_nat n) (u\<lparr>ex_ran := ex_ran u @ [n]\<rparr>)) p)),
     onOverrun = (\<lambda>actual budget p. p), validateDependencies = (\<lambda>p. True)\<rparr>"

definition example_crunch :: "nat \<Rightarrow> example_user_state icrunch" where
  "example_crunch n = \<lparr>crunch_init = (\<lambda>p. p), crunch = (\<lambda>now p. Some (on_world (spend (100 * of_nat n)) p)),
     crunchPeriodUs = 1000, maxIterationUs = 500,
     onCrunchAbort = on_world (\<lambda>u. u\<lparr>ex_ran := ex_ran u @ [n]\<rparr>)\<rparr>"

definition example_user :: "example_user_state user" where
  "example_user = \<lparr>clk = (\<lambda>u. (ex_time u, spend 1 u)),
     strm = \<lparr>available = (\<lambda>u. length (ex_in u)),
       read_stream = (\<lambda>n u. (take n (ex_in u), u\<lparr>ex_in := drop n (ex_in u)\<rparr>)),
       write_stream = (\<lambda>bs u. (length bs, u\<lparr>ex_out := ex_out u @ [bs]\<rparr>)), isConnected = (\<lambda>u. True)\<rparr>,
     app_init = (\<lambda>p. p), app_tick = (\<lambda>now. on_world (spend 5)),
     handleCommand = (\<lambda>c. on_world (\<lambda>u. u\<lparr>ex_log := ex_log u @ [c]\<rparr>)),
     forceSafeAbort = on_world (\<lambda>u. u\<lparr>ex_out := [[0xFF]]\<rparr>),
     monitors = [None, Some (\<lambda>p. ex_safe (world p))], user_task = example_task, crunch_task = example_crunch,
     stopCondition = (\<lambda>n p. (of_nat n \<le> ex_time (world p), p)), watchdogKick = (\<lambda>p. p),
     drainFn = (\<lambda>bs u. u\<lparr>ex_out := ex_out u @ [bs]\<rparr>), mutex_lock = (\<lambda>t u. (True, u)), mutex_unlock = (\<lambda>u. u)\<rparr>"

definition example_state :: example_user_state where
  "example_state = \<lparr>ex_time = 1000, ex_safe = True, ex_in = [], ex_out = [], ex_log = [], ex_ran = []\<rparr>"

end
