(* ===== verification/KernelTasks.thy ===== *)
theory KernelTasks
  imports KernelPub
begin

text \<open>
  The control task (\<^verbatim>\<open>kernel/tasks/ScheduledControlTask.h\<close>) and the diagnostics task
  (\<^verbatim>\<open>kernel/tasks/BackgroundDiagnosticsTask.h\<close>, \<^verbatim>\<open>src/kernel/BackgroundDiagnosticsTask.cpp\<close>). The third kernel
  task is in the theory \<open>CommsTask\<close>.
\<close>

section \<open>The control task\<close>

record ControlTask =
  kc_commandQueue :: bool
  kc_app :: bool

definition control_periodUs :: "Cfg \<Rightarrow> micros" where
  "control_periodUs cfg = ucast (CfgControlBudgetUs cfg)"

definition control_schedulePriority :: byte where "control_schedulePriority = 0"

definition control_init :: "'u user \<Rightarrow> ControlTask \<Rightarrow> 'u pub \<Rightarrow> 'u pub" where
  "control_init U t p = (if kc_app t then app_init U p else p)"

definition control_validateDependencies :: "ControlTask \<Rightarrow> bool" where
  "control_validateDependencies t \<longleftrightarrow> kc_commandQueue t \<and> kc_app t"

fun evaluateSafety :: "'u user \<Rightarrow> ControlTask \<Rightarrow> ('u pub \<Rightarrow> bool) option list \<Rightarrow> 'u pub \<Rightarrow> bool \<times> 'u pub" where
  "evaluateSafety U t [] p = (True, p)"
| "evaluateSafety U t (m # ms) p =
     (case m of
        None \<Rightarrow> evaluateSafety U t ms p
      | Some isSafe \<Rightarrow>
          if \<not> isSafe p then
            let p = (if kc_app t then forceSafeAbort U p else p) in
            (False, signalSafetyAbort p)
          else evaluateSafety U t ms p)"

fun processCommands_loop :: "'u user \<Rightarrow> Cfg \<Rightarrow> nat \<Rightarrow> 'u pub \<Rightarrow> 'u pub" where
  "processCommands_loop U cfg 0 p = p"
| "processCommands_loop U cfg (Suc left) p =
     (case pub_try_pop cfg p of
        (None, p) \<Rightarrow> p
      | (Some cmd, p) \<Rightarrow> processCommands_loop U cfg left (handleCommand U cmd p))"

definition processCommands :: "'u user \<Rightarrow> Cfg \<Rightarrow> ControlTask \<Rightarrow> 'u pub \<Rightarrow> 'u pub" where
  "processCommands U cfg t p =
     (if \<not> kc_commandQueue t \<or> \<not> kc_app t then p
      else processCommands_loop U cfg (CfgMaxCommandsPerTick cfg) p)"

definition control_tick :: "'u user \<Rightarrow> Cfg \<Rightarrow> ControlTask \<Rightarrow> micros \<Rightarrow> 'u pub \<Rightarrow> 'u pub" where
  "control_tick U cfg t now p =
     (let (safe, p) = evaluateSafety U t (monitors U) p in
      if \<not> safe then p
      else
        let p = processCommands U cfg t p in
        if kc_app t then app_tick U now p else p)"

section \<open>The diagnostics task\<close>

definition kMaxMonitoredTasks :: nat where "kMaxMonitoredTasks = 16"
definition kMemCheckInterval :: u32 where "kMemCheckInterval = 100"

record DiagnosticsTask =
  kd_watchdogKick :: bool
  kd_monitoredTasks :: "tref list"
  kd_controlBudget :: micros
  kd_tickCount :: u32
  kd_schedulerHealth :: bool
  kd_telemetryLogger :: bool
  kd_drainFn :: bool

definition DiagnosticsTask_init :: "bool \<Rightarrow> u32 \<Rightarrow> DiagnosticsTask" where
  "DiagnosticsTask_init kickFn controlBudgetUs = \<lparr>kd_watchdogKick = kickFn, kd_monitoredTasks = [],
     kd_controlBudget = ucast controlBudgetUs, kd_tickCount = 0, kd_schedulerHealth = False,
     kd_telemetryLogger = False, kd_drainFn = False\<rparr>"

definition setMonitoredTasks :: "tref list \<Rightarrow> DiagnosticsTask \<Rightarrow> DiagnosticsTask" where
  "setMonitoredTasks tasks d =
     (let count = length tasks; n = (if count < kMaxMonitoredTasks then count else kMaxMonitoredTasks) in
      d\<lparr>kd_monitoredTasks := take n tasks\<rparr>)"

definition setTelemetryDrain :: "bool \<Rightarrow> bool \<Rightarrow> DiagnosticsTask \<Rightarrow> DiagnosticsTask" where
  "setTelemetryDrain logger writeFn d = d\<lparr>kd_telemetryLogger := logger, kd_drainFn := writeFn\<rparr>"

definition diags_maxBudgetUs :: micros where "diags_maxBudgetUs = 1000"

definition reset_timer :: "tref \<Rightarrow> 'u pub \<Rightarrow> 'u pub" where
  "reset_timer r p = p\<lparr>timers := (timers p)(r := TaskTimer_reset (timers p r))\<rparr>"

definition diags_init :: "DiagnosticsTask \<Rightarrow> 'u pub \<Rightarrow> 'u pub" where
  "diags_init d p =
     (let p = p\<lparr>memProfiler := MemoryProfiler_reset (memProfiler p)\<rparr> in
      fold reset_timer (kd_monitoredTasks d) p)"

text \<open>The scan for budget violations and the aggregation of the counters.\<close>

definition check_budget :: "micros \<Rightarrow> tref \<Rightarrow> 'u pub \<Rightarrow> 'u pub" where
  "check_budget budget r p =
     (if isOverBudget budget (timers p r)
      then log_error SENSOR_ERROR 0 (f32_of_u64 (lastDuration r p)) p else p)"

definition sum_counts :: "(TaskTimer \<Rightarrow> u32) \<Rightarrow> tref list \<Rightarrow> 'u pub \<Rightarrow> u32" where
  "sum_counts f rs p = fold (\<lambda>r n. n + f (timers p r)) rs 0"

definition diags_drain :: "'u user \<Rightarrow> DiagnosticsTask \<Rightarrow> 'u pub \<Rightarrow> 'u pub" where
  "diags_drain U d p =
     (if kd_telemetryLogger d \<and> kd_drainFn d then
        let (l, w) = TelemetryLogger_drain (mutex_lock U) (mutex_unlock U) (Some (drainFn U))
              (telemetryLogger p, world p) in
        p\<lparr>telemetryLogger := l, world := w\<rparr>
      else p)"

definition diags_tick :: "'u user \<Rightarrow> micros \<Rightarrow> DiagnosticsTask \<times> 'u pub \<Rightarrow> DiagnosticsTask \<times> 'u pub" where
  "diags_tick U now s =
     (let (d, p) = s;
          p = (if kd_watchdogKick d then watchdogKick U p else p);
          p = fold (check_budget (kd_controlBudget d)) (kd_monitoredTasks d) p;
          p = p\<lparr>memProfiler := MemoryProfiler_update (memProfiler p)\<rparr>;
          p = (if kd_schedulerHealth d then
                 p\<lparr>schedulerHealth := setAggregates (sum_counts overrunCount (kd_monitoredTasks d) p)
                    (sum_counts deadlineMissCount (kd_monitoredTasks d) p) (schedulerHealth p)\<rparr>
               else p);
          d = d\<lparr>kd_tickCount := kd_tickCount d + 1\<rparr>;
          (d, p) = (if kd_tickCount d \<ge> kMemCheckInterval then
                 (d\<lparr>kd_tickCount := 0\<rparr>,
                  log_error WATCHDOG_KICK 0 (f32_of_nat (getPeakHeapUsedBytes (memProfiler p))) p)
               else (d, p)) in
      (d, diags_drain U d p))"

section \<open>Safety evaluation\<close>

definition unsafe :: "'u user \<Rightarrow> 'u pub \<Rightarrow> bool" where
  "unsafe U p \<longleftrightarrow> (\<exists>isSafe. Some isSafe \<in> set (monitors U) \<and> \<not> isSafe p)"

lemma evaluateSafety_iff:
  "evaluateSafety U t ms p =
     (if \<exists>isSafe. Some isSafe \<in> set ms \<and> \<not> isSafe p
      then (False, signalSafetyAbort (if kc_app t then forceSafeAbort U p else p)) else (True, p))"
  by (induction ms) (auto split: option.splits)

section \<open>Draining the queue\<close>

text \<open>The application leaves the command queue to the kernel: handling a command neither reads nor changes
  it.\<close>

definition leaves_queue :: "('u pub \<Rightarrow> 'u pub) \<Rightarrow> bool" where
  "leaves_queue f \<longleftrightarrow> (\<forall>p q. f (p\<lparr>commandQueue := q\<rparr>) = (f p)\<lparr>commandQueue := q\<rparr>)"

lemma leaves_queue_fold:
  "(\<And>c. leaves_queue (f c)) \<Longrightarrow> fold f cs (p\<lparr>commandQueue := q\<rparr>) = (fold f cs p)\<lparr>commandQueue := q\<rparr>"
  by (induction cs arbitrary: p) (simp_all add: leaves_queue_def)

lemma processCommands_loop_fifo:
  assumes "\<And>c. leaves_queue (handleCommand U c)" "queue_ok (kQueueCapacity cfg) (commandQueue p)"
  shows "\<exists>q. processCommands_loop U cfg n p
       = (fold (handleCommand U) (take n (queue_list (commandQueue p))) p)\<lparr>commandQueue := q\<rparr> \<and>
     queue_ok (kQueueCapacity cfg) q \<and> queue_list q = drop n (queue_list (commandQueue p))"
  using assms(2)
proof (induction n arbitrary: p)
  case 0
  then show ?case
    by (intro exI [of _ "commandQueue p"]) (cases p, simp)
next
  case (Suc n)
  show ?case
  proof (cases "queue_list (commandQueue p)")
    case Nil
    then show ?thesis
      using lfq.pop_empty [OF Suc.prems] Suc.prems
      by (intro exI [of _ "commandQueue p"]) (cases p, simp add: pub_try_pop_def)
  next
    case (Cons c cs)
    obtain q1 where q1: "try_pop (kQueueCapacity cfg) (commandQueue p) = (Some c, q1)"
        "queue_ok (kQueueCapacity cfg) q1" "queue_list q1 = cs"
      using lfq.pop_some [OF Suc.prems Cons] by blast
    let ?p = "(handleCommand U c p)\<lparr>commandQueue := q1\<rparr>"
    have "handleCommand U c (p\<lparr>commandQueue := q1\<rparr>) = ?p"
      using assms(1) [of c] by (simp add: leaves_queue_def)
    moreover obtain q where "processCommands_loop U cfg n ?p
        = (fold (handleCommand U) (take n cs) ?p)\<lparr>commandQueue := q\<rparr>"
        "queue_ok (kQueueCapacity cfg) q" "queue_list q = drop n cs"
      using Suc.IH [of ?p] q1(2,3) by auto
    moreover have "fold (handleCommand U) (take n cs) ?p
        = (fold (handleCommand U) (take n cs) (handleCommand U c p))\<lparr>commandQueue := q1\<rparr>"
      by (rule leaves_queue_fold) (rule assms(1))
    ultimately show ?thesis using q1 Cons by (intro exI [of _ q]) (simp add: pub_try_pop_def)
  qed
qed

section \<open>Diagnostics log entries\<close>

definition error_logged :: "'u pub \<Rightarrow> error_entry list" where
  "error_logged p = error_entries (errorLogger p)"

lemma check_budget_fold:
  "fold (check_budget b) rs p = p\<lparr>errorLogger := fold error_put
     (map (\<lambda>r. \<lparr>ee_code = SENSOR_ERROR, ee_timestamp = 0, ee_value = f32_of_u64 (lastDuration r p)\<rparr>)
       (filter (\<lambda>r. isOverBudget b (timers p r)) rs)) (errorLogger p)\<rparr>"
proof (induction rs arbitrary: p)
  case (Cons r rs)
  then show ?case
    by (simp add: check_budget_def log_error_def error_put_def lastDuration_def)
qed (cases p, simp)

section \<open>Properties\<close>

lemma control_tick_fifo:
  assumes "kc_app t" "kc_commandQueue t" "\<And>c. leaves_queue (handleCommand U c)"
    and "queue_ok (kQueueCapacity cfg) (commandQueue p)"
  shows "if unsafe U p then control_tick U cfg t now p = signalSafetyAbort (forceSafeAbort U p)
     else \<exists>q. control_tick U cfg t now p = app_tick U now ((fold (handleCommand U)
           (take (CfgMaxCommandsPerTick cfg) (queue_list (commandQueue p))) p)\<lparr>commandQueue := q\<rparr>) \<and>
         queue_ok (kQueueCapacity cfg) q \<and>
         queue_list q = drop (CfgMaxCommandsPerTick cfg) (queue_list (commandQueue p))"
  using assms(1,2) processCommands_loop_fifo [OF assms(3,4), of "CfgMaxCommandsPerTick cfg"]
  by (auto simp: control_tick_def evaluateSafety_iff unsafe_def processCommands_def)

text \<open>The control cycle. When any installed monitor reports unsafe, the tick does exactly two things: it
  has the application abort and raises the safety-abort flag; no command is taken from the queue and the
  application is not ticked. Otherwise it hands the oldest commands, at most the configured number, to the
  application in the order in which they were queued, leaves the others in the queue, and then ticks the
  application. (For an application that leaves the queue itself alone.)\<close>

theorem control_tick_spec:
  assumes "kc_app t" "kc_commandQueue t" "\<And>c. leaves_queue (handleCommand U c)"
    and "queue_ok (kQueueCapacity cfg) (commandQueue p)"
  shows "if unsafe U p then control_tick U cfg t now p = signalSafetyAbort (forceSafeAbort U p)
     else \<exists>q. control_tick U cfg t now p = app_tick U now ((fold (handleCommand U)
           (take (CfgMaxCommandsPerTick cfg) (queue_list (commandQueue p))) p)\<lparr>commandQueue := q\<rparr>) \<and>
         queue_ok (kQueueCapacity cfg) q \<and>
         queue_list q = drop (CfgMaxCommandsPerTick cfg) (queue_list (commandQueue p))"
  using control_tick_fifo [OF assms] .

definition queued3 :: "example_user_state pub" where
  "queued3 = snd (pub_try_push example_cfg \<lparr>cmd_id = 3, targetDevice = 0, cmd_value = 0\<rparr>
     (pub_init example_cfg example_state))"

theorem control_tick_spec_witness:
  "if unsafe example_user queued3
   then control_tick example_user example_cfg \<lparr>kc_commandQueue = True, kc_app = True\<rparr> 5 queued3
     = signalSafetyAbort (forceSafeAbort example_user queued3)
   else \<exists>q. control_tick example_user example_cfg \<lparr>kc_commandQueue = True, kc_app = True\<rparr> 5 queued3
       = app_tick example_user 5 ((fold (handleCommand example_user)
           (take (CfgMaxCommandsPerTick example_cfg) (queue_list (commandQueue queued3))) queued3)\<lparr>commandQueue := q\<rparr>) \<and>
     queue_ok (kQueueCapacity example_cfg) q \<and>
     queue_list q = drop (CfgMaxCommandsPerTick example_cfg) (queue_list (commandQueue queued3))"
proof (rule control_tick_spec)
  show "leaves_queue (handleCommand example_user c)" for c
    by (simp add: leaves_queue_def example_user_def on_world_def)
  show "queue_ok (kQueueCapacity example_cfg) (commandQueue queued3)"
    by code_simp
qed simp_all

text \<open>What one diagnostics cycle reports.\<close>

definition budget_violations :: "micros \<Rightarrow> tref list \<Rightarrow> 'u pub \<Rightarrow> error_entry list" where
  "budget_violations b rs p =
     map (\<lambda>r. \<lparr>ee_code = SENSOR_ERROR, ee_timestamp = 0, ee_value = f32_of_u64 (lastDuration r p)\<rparr>)
       (filter (\<lambda>r. lastDuration r p > b) rs)"

definition memory_report :: "u32 \<Rightarrow> 'u pub \<Rightarrow> error_entry list" where
  "memory_report n p = (if n + 1 \<ge> kMemCheckInterval
     then [\<lparr>ee_code = WATCHDOG_KICK, ee_timestamp = 0,
            ee_value = f32_of_nat (getPeakHeapUsedBytes (MemoryProfiler_update (memProfiler p)))\<rparr>] else [])"

lemma check_budget_violations:
  "fold (check_budget b) rs p = p\<lparr>errorLogger := fold error_put (budget_violations b rs p) (errorLogger p)\<rparr>"
  by (simp add: check_budget_fold budget_violations_def isOverBudget_def lastDuration_def)

lemma diags_drain_frame:
  "errorLogger (diags_drain U d p) = errorLogger p \<and> memProfiler (diags_drain U d p) = memProfiler p \<and>
   timers (diags_drain U d p) = timers p \<and> commandQueue (diags_drain U d p) = commandQueue p"
  by (simp add: diags_drain_def split: prod.split)

text \<open>The diagnostics cycle reports every violation. After the watchdog kick, the fault log has received,
  in the order of the monitored list, one SENSOR_ERROR entry with the measured duration for each monitored
  task whose last run exceeded the control budget, and for no other; on every hundredth cycle one further
  entry with the peak heap use, with the cycle counter restarted. The counter never reaches the interval.\<close>

theorem diags_tick_reports:
  assumes "p1 = (if kd_watchdogKick d then watchdogKick U p else p)" "kd_tickCount d < kMemCheckInterval"
  shows "let (d', p') = diags_tick U now (d, p) in
     errorLogger p' = fold error_put (budget_violations (kd_controlBudget d) (kd_monitoredTasks d) p1 @
       memory_report (kd_tickCount d) p1) (errorLogger p1) \<and>
     kd_tickCount d' = (if kd_tickCount d + 1 \<ge> kMemCheckInterval then 0 else kd_tickCount d + 1) \<and>
     kd_tickCount d' < kMemCheckInterval"
  unfolding diags_tick_def Let_def split_def fst_conv snd_conv assms(1) [symmetric]
  using assms(2)
  by (simp add: check_budget_violations diags_drain_frame memory_report_def log_error_def error_put_def
      kMemCheckInterval_def) (simp add: linorder_not_le)

definition slow_control :: "example_user_state pub" where
  "slow_control = (pub_init example_cfg example_state)\<lparr>timers :=
     (\<lambda>_. TaskTimer_init)(TControl := TaskTimer_init\<lparr>tt_lastDuration := 12000\<rparr>)\<rparr>"

theorem diags_tick_reports_witness:
  "let (d', p') = diags_tick example_user 7
       (setMonitoredTasks [TControl, TComms] (DiagnosticsTask_init False 10000), slow_control) in
     errorLogger p' = fold error_put
       (budget_violations 10000 [TControl, TComms] slow_control @ memory_report 0 slow_control)
       (errorLogger slow_control) \<and> kd_tickCount d' = 1 \<and> kd_tickCount d' < kMemCheckInterval"
  using diags_tick_reports [of slow_control
      "setMonitoredTasks [TControl, TComms] (DiagnosticsTask_init False 10000)" example_user slow_control 7]
  by (simp add: setMonitoredTasks_def DiagnosticsTask_init_def kMaxMonitoredTasks_def kMemCheckInterval_def word_le_nat_alt split: prod.splits)

end
