(* ===== verification/KernelSystem.thy ===== *)
theory KernelSystem
  imports KernelTasks
begin

text \<open>
  The singleton \<^verbatim>\<open>System<Cfg>\<close> of \<^verbatim>\<open>kernel/System.h\<close>: its static members, the kernel state machine, task
  initialisation, the performance snapshot, the safety-abort bridge and \<^verbatim>\<open>reset()\<close>. The per-tick dispatch
  is in the theory \<open>KernelTick\<close>, the run loop in \<open>KernelRun\<close>.

  The record \<open>System\<close> holds the private members; \<open>sy_pub\<close> is the part user code reaches. A virtual call on
  an \<^verbatim>\<open>ITask *\<close> is a case distinction on the \<open>tref\<close>. A list stands for an array together with its count
  member. \<open>None\<close> is a call that does not return: a user tick that hangs, a failed \<^verbatim>\<open>SPUTTEROS_ASSERT\<close> (an
  endless loop in debug builds) or a dereferenced kernel task that was never created.
\<close>

section \<open>The state\<close>

datatype KernelState = UNCONFIGURED | CONFIGURED | INITIALIZING | RUNNING | SUSPENDING | SUSPENDED
  | ABORTING | ABORTED | SHUTTING_DOWN | SHUTDOWN

fun kernel_state_num :: "KernelState \<Rightarrow> nat" where
  "kernel_state_num UNCONFIGURED = 0"
| "kernel_state_num CONFIGURED = 1"
| "kernel_state_num INITIALIZING = 2"
| "kernel_state_num RUNNING = 3"
| "kernel_state_num SUSPENDING = 4"
| "kernel_state_num SUSPENDED = 5"
| "kernel_state_num ABORTING = 6"
| "kernel_state_num ABORTED = 7"
| "kernel_state_num SHUTTING_DOWN = 8"
| "kernel_state_num SHUTDOWN = 9"

datatype CoreDispatchMode = FLAT_LOOP | CRUNCH

record CoreData =
  cd_tasks :: "tref list"
  cd_mode :: CoreDispatchMode
  cd_crunchTask :: "nat option"

definition CoreData_init :: CoreData where
  "CoreData_init = \<lparr>cd_tasks = [], cd_mode = FLAT_LOOP, cd_crunchTask = None\<rparr>"

definition isActive :: "CoreData \<Rightarrow> bool" where
  "isActive c \<longleftrightarrow> length (cd_tasks c) > 0 \<or> cd_crunchTask c \<noteq> None"

definition core_task :: "nat \<Rightarrow> CoreData \<Rightarrow> tref option" where
  "core_task idx c = (if idx < length (cd_tasks c) then Some (cd_tasks c ! idx) else None)"

definition addTask :: "tref option \<Rightarrow> CoreData \<Rightarrow> CoreData" where
  "addTask tsk c =
     (case tsk of
        None \<Rightarrow> c
      | Some r \<Rightarrow> if length (cd_tasks c) < kMaxTasksPerCore then c\<lparr>cd_tasks := cd_tasks c @ [r]\<rparr> else c)"

definition prependTask :: "tref option \<Rightarrow> CoreData \<Rightarrow> CoreData" where
  "prependTask tsk c =
     (case tsk of
        None \<Rightarrow> c
      | Some r \<Rightarrow> if length (cd_tasks c) < kMaxTasksPerCore then c\<lparr>cd_tasks := r # cd_tasks c\<rparr> else c)"

record CrunchDispatcher =
  cr_task :: "nat option"
  cr_watchdogKick :: bool
  cr_consecutiveOverruns :: u32
  cr_totalOverruns :: u32

definition kMaxStopConditions :: nat where "kMaxStopConditions = 8"

record 'u System =
  sy_pub :: "'u pub"
  sy_sync :: MultiCoreSync
  sy_crunchDispatcher :: CrunchDispatcher
  sy_controlTask :: "ControlTask option"
  sy_commsTask :: "CommsTask option"
  sy_diagsTask :: "DiagnosticsTask option"
  sy_backgroundTasks :: "tref list"
  sy_bgRoundRobin :: nat
  sy_backgroundCoreId :: nat
  sy_cores :: "CoreData list"
  sy_allTasks :: "tref list"
  sy_lastDispatch :: "micros list list"
  sy_built :: bool
  sy_lastTime :: "micros list"
  sy_kernelState :: KernelState
  sy_stopConditions :: "nat list"
  sy_drainFn :: bool
  sy_coreInitialized :: "bool list"
  sy_watchdogKickFn :: bool

definition System_static :: "Cfg \<Rightarrow> 'u \<Rightarrow> 'u System" where
  "System_static cfg u = \<lparr>sy_pub = pub_init cfg u, sy_sync = MultiCoreSync_init (kCoreCount cfg) False,
     sy_crunchDispatcher = \<lparr>cr_task = None, cr_watchdogKick = False, cr_consecutiveOverruns = 0,
       cr_totalOverruns = 0\<rparr>,
     sy_controlTask = None, sy_commsTask = None, sy_diagsTask = None, sy_backgroundTasks = [],
     sy_bgRoundRobin = 0, sy_backgroundCoreId = 0, sy_cores = replicate (kCoreCount cfg) CoreData_init,
     sy_allTasks = [], sy_lastDispatch = replicate (kCoreCount cfg) (replicate kMaxTasksPerCore 0),
     sy_built = False, sy_lastTime = replicate (kCoreCount cfg) 0, sy_kernelState = UNCONFIGURED,
     sy_stopConditions = [], sy_drainFn = False, sy_coreInitialized = replicate (kCoreCount cfg) False,
     sy_watchdogKickFn = False\<rparr>"

definition kMultiCore :: "Cfg \<Rightarrow> bool" where
  "kMultiCore cfg \<longleftrightarrow> kCoreCount cfg \<ge> 2"

definition on_pub :: "('u pub \<Rightarrow> 'u pub) \<Rightarrow> 'u System \<Rightarrow> 'u System" where
  "on_pub f s = s\<lparr>sy_pub := f (sy_pub s)\<rparr>"

section \<open>Queries\<close>

definition isBuilt :: "'u System \<Rightarrow> bool" where
  "isBuilt s = sy_built s"

definition kernelState :: "'u System \<Rightarrow> KernelState" where
  "kernelState s = sy_kernelState s"

definition taskCount :: "Cfg \<Rightarrow> nat \<Rightarrow> 'u System \<Rightarrow> nat" where
  "taskCount cfg coreId s = (if coreId < kCoreCount cfg then length (cd_tasks (sy_cores s ! coreId)) else 0)"

definition System_task :: "Cfg \<Rightarrow> nat \<Rightarrow> nat \<Rightarrow> 'u System \<Rightarrow> tref option" where
  "System_task cfg coreId taskIdx s =
     (if coreId < kCoreCount cfg then core_task taskIdx (sy_cores s ! coreId) else None)"

definition backgroundTaskCount :: "'u System \<Rightarrow> nat" where
  "backgroundTaskCount s = length (sy_backgroundTasks s)"

section \<open>The kernel state machine\<close>

fun valid_transition :: "KernelState \<Rightarrow> KernelState \<Rightarrow> bool" where
  "valid_transition UNCONFIGURED target = (target = CONFIGURED)"
| "valid_transition CONFIGURED target = (target = INITIALIZING)"
| "valid_transition INITIALIZING target = (target = RUNNING)"
| "valid_transition RUNNING target = (target = SUSPENDING \<or> target = ABORTING \<or> target = SHUTTING_DOWN)"
| "valid_transition SUSPENDING target = (target = SUSPENDED)"
| "valid_transition SUSPENDED target = (target = RUNNING \<or> target = SHUTTING_DOWN)"
| "valid_transition ABORTING target = (target = ABORTED)"
| "valid_transition ABORTED target = (target = RUNNING \<or> target = SHUTTING_DOWN)"
| "valid_transition SHUTTING_DOWN target = (target = SHUTDOWN)"
| "valid_transition SHUTDOWN target = False"

text \<open>\<^verbatim>\<open>transitionTo\<close>, \<^verbatim>\<open>init\<close> and the end of \<^verbatim>\<open>run\<close> test and store \<^verbatim>\<open>s_kernelState\<close>, a plain variable. The definitions
  here are these bodies as one core executes them undisturbed; the theory \<open>KernelRace\<close> has the single
  accesses and their interleavings with the other cores.\<close>

definition transitionTo :: "KernelState \<Rightarrow> 'u System \<Rightarrow> bool \<times> 'u System" where
  "transitionTo target s =
     (if valid_transition (sy_kernelState s) target then (True, s\<lparr>sy_kernelState := target\<rparr>)
      else (False, on_pub (log_error INVALID_STATE 0 (f32_of_nat (kernel_state_num target))) s))"

definition isActiveState :: "KernelState \<Rightarrow> bool" where
  "isActiveState st \<longleftrightarrow> st = RUNNING \<or> st = SUSPENDING \<or> st = SUSPENDED"

text \<open>\<^verbatim>\<open>anyStopConditionFired()\<close>: the predicates in order, up to the first that holds.\<close>

fun anyStopCondition_loop :: "'u user \<Rightarrow> nat list \<Rightarrow> 'u pub \<Rightarrow> bool \<times> 'u pub" where
  "anyStopCondition_loop U [] p = (False, p)"
| "anyStopCondition_loop U (i # is) p =
     (let (fired, p) = stopCondition U i p in if fired then (True, p) else anyStopCondition_loop U is p)"

definition anyStopConditionFired :: "'u user \<Rightarrow> 'u System \<Rightarrow> bool \<times> 'u System" where
  "anyStopConditionFired U s =
     (let (fired, p) = anyStopCondition_loop U (sy_stopConditions s) (sy_pub s) in (fired, s\<lparr>sy_pub := p\<rparr>))"

section \<open>The performance snapshot\<close>

definition task_snapshot :: "'u pub \<Rightarrow> nat \<Rightarrow> nat \<Rightarrow> tref \<Rightarrow> TaskSnapshot" where
  "task_snapshot p c t r =
     (let tmr = timers p r in
      \<lparr>ts_taskIndex = t, ts_coreId = c, ts_lastUs = tt_lastDuration tmr, ts_minUs = minDuration tmr,
       ts_maxUs = maxDuration tmr, ts_avgUs = getAverageDurationUs tmr, ts_samples = TaskTimer_sampleCount tmr,
       ts_overruns = overrunCount tmr, ts_misses = deadlineMissCount tmr, ts_histogram = histogram tmr\<rparr>)"

definition task_snapshot_default :: TaskSnapshot where
  "task_snapshot_default = \<lparr>ts_taskIndex = 0, ts_coreId = 0, ts_lastUs = 0, ts_minUs = 0, ts_maxUs = 0,
     ts_avgUs = 0, ts_samples = 0, ts_overruns = 0, ts_misses = 0, ts_histogram = replicate kHistogramBuckets 0\<rparr>"

fun snapshot_tasks :: "'u pub \<Rightarrow> nat \<Rightarrow> nat \<Rightarrow> tref list \<Rightarrow> TaskSnapshot list \<Rightarrow> TaskSnapshot list" where
  "snapshot_tasks p c t [] acc = acc"
| "snapshot_tasks p c t (r # rs) acc =
     (if length acc < kMaxSnapshotTasks then snapshot_tasks p c (Suc t) rs (acc @ [task_snapshot p c t r])
      else acc)"

fun snapshot_cores :: "'u pub \<Rightarrow> nat \<Rightarrow> CoreData list \<Rightarrow> TaskSnapshot list \<Rightarrow> TaskSnapshot list" where
  "snapshot_cores p c [] acc = acc"
| "snapshot_cores p c (cd # cds) acc =
     (if length acc < kMaxSnapshotTasks then snapshot_cores p (Suc c) cds (snapshot_tasks p c 0 (cd_tasks cd) acc)
      else acc)"

text \<open>\<^verbatim>\<open>snapshot()\<close> reads the shared state and the task lists, and the clock.\<close>

definition snapshot :: "'u user \<Rightarrow> Cfg \<Rightarrow> CoreData list \<Rightarrow> 'u pub \<Rightarrow> PerformanceSnapshot \<times> 'u pub" where
  "snapshot U cfg cores p =
     (let (now, p) = pub_now U p;
          ts = snapshot_cores p 0 cores [] in
      (\<lparr>ps_timestamp = now, ps_coreCount = kCoreCount cfg,
        ps_coreUtilization = map (\<lambda>c. if c < kCoreCount cfg then getUtilization (utilTracker p ! c) else 0)
          [0..<kMaxSnapshotCores],
        ps_queueDepth = qd_lastDepth (queueMonitor p), ps_queueMaxDepth = maxDepth (queueMonitor p),
        ps_queueAvgDepth = averageDepth (queueMonitor p),
        ps_peakHeapUsed = getPeakHeapUsedBytes (memProfiler p), ps_freeHeap = getFreeHeapBytes,
        ps_stackHighWater = getStackHighWaterMark,
        ps_totalGapUs = totalGapUs (schedulerHealth p), ps_maxGapUs = maxGapUs (schedulerHealth p),
        ps_avgGapUs = averageGapUs (schedulerHealth p), ps_schedulerTickCount = tickCount (schedulerHealth p),
        ps_totalOverruns = sh_totalOverruns (schedulerHealth p),
        ps_totalDeadlineMisses = sh_totalDeadlineMisses (schedulerHealth p),
        ps_taskCount = length ts,
        ps_tasks = ts @ replicate (kMaxSnapshotTasks - length ts) task_snapshot_default\<rparr>, p))"

section \<open>Virtual calls\<close>

definition tref_isScheduled :: "'u user \<Rightarrow> tref \<Rightarrow> bool" where
  "tref_isScheduled U r = (case r of TControl \<Rightarrow> True | TComms \<Rightarrow> True | TDiags \<Rightarrow> False
     | TUser n \<Rightarrow> isScheduled (user_task U n) | TCrunch n \<Rightarrow> False)"

definition tref_kernelManagedPeriod :: "'u user \<Rightarrow> tref \<Rightarrow> bool" where
  "tref_kernelManagedPeriod U r = (case r of TUser n \<Rightarrow> kernelManagedPeriod (user_task U n) | _ \<Rightarrow> False)"

definition tref_periodUs :: "'u user \<Rightarrow> Cfg \<Rightarrow> tref \<Rightarrow> micros" where
  "tref_periodUs U cfg r = (case r of TControl \<Rightarrow> control_periodUs cfg | TComms \<Rightarrow> comms_periodUs cfg
     | TUser n \<Rightarrow> periodUs (user_task U n) | _ \<Rightarrow> 0)"

definition tref_declaredWcetUs :: "'u user \<Rightarrow> tref \<Rightarrow> micros" where
  "tref_declaredWcetUs U r = (case r of TUser n \<Rightarrow> declaredWcetUs (user_task U n) | _ \<Rightarrow> 0)"

definition tref_schedulePriority :: "'u user \<Rightarrow> tref \<Rightarrow> byte" where
  "tref_schedulePriority U r = (case r of TControl \<Rightarrow> control_schedulePriority | TComms \<Rightarrow> comms_schedulePriority
     | TUser n \<Rightarrow> schedulePriority (user_task U n) | _ \<Rightarrow> 0xFF)"

definition tref_maxBudgetUs :: "'u user \<Rightarrow> tref \<Rightarrow> micros" where
  "tref_maxBudgetUs U r = (case r of TDiags \<Rightarrow> diags_maxBudgetUs
     | TUser n \<Rightarrow> maxBudgetUs (user_task U n) | _ \<Rightarrow> 1000)"

definition tref_onOverrun :: "'u user \<Rightarrow> tref \<Rightarrow> micros \<Rightarrow> micros \<Rightarrow> 'u pub \<Rightarrow> 'u pub" where
  "tref_onOverrun U r actual budget p =
     (case r of TUser n \<Rightarrow> onOverrun (user_task U n) actual budget p | _ \<Rightarrow> p)"

definition tref_validateDependencies :: "'u user \<Rightarrow> tref \<Rightarrow> 'u System \<Rightarrow> bool" where
  "tref_validateDependencies U r s =
     (case r of
        TControl \<Rightarrow> (case sy_controlTask s of Some t \<Rightarrow> control_validateDependencies t | None \<Rightarrow> False)
      | TComms \<Rightarrow> (case sy_commsTask s of Some t \<Rightarrow> comms_validateDependencies t | None \<Rightarrow> False)
      | TUser n \<Rightarrow> validateDependencies (user_task U n) (sy_pub s)
      | _ \<Rightarrow> True)"

definition tref_init :: "'u user \<Rightarrow> Cfg \<Rightarrow> tref \<Rightarrow> 'u System \<Rightarrow> 'u System option" where
  "tref_init U cfg r s =
     (case r of
        TControl \<Rightarrow> (case sy_controlTask s of None \<Rightarrow> None | Some t \<Rightarrow> Some (on_pub (control_init U t) s))
      | TComms \<Rightarrow> (case sy_commsTask s of None \<Rightarrow> None | Some t \<Rightarrow>
          let (t, p) = comms_init cfg (pub_stream U) (snapshot U cfg (sy_cores s)) t (sy_pub s) in
          Some (s\<lparr>sy_commsTask := Some t, sy_pub := p\<rparr>))
      | TDiags \<Rightarrow> (case sy_diagsTask s of None \<Rightarrow> None | Some d \<Rightarrow> Some (on_pub (diags_init d) s))
      | TUser n \<Rightarrow> Some (on_pub (task_init (user_task U n)) s)
      | TCrunch n \<Rightarrow> Some (on_pub (crunch_init (crunch_task U n)) s))"

definition tref_tick :: "'u user \<Rightarrow> Cfg \<Rightarrow> tref \<Rightarrow> micros \<Rightarrow> 'u System \<Rightarrow> 'u System option" where
  "tref_tick U cfg r now s =
     (case r of
        TControl \<Rightarrow> (case sy_controlTask s of None \<Rightarrow> None | Some t \<Rightarrow> Some (on_pub (control_tick U cfg t now) s))
      | TComms \<Rightarrow> (case sy_commsTask s of None \<Rightarrow> None | Some t \<Rightarrow> do {
          (t, p) \<leftarrow> comms_tick cfg (pub_stream U) (pub_try_push cfg) (snapshot U cfg (sy_cores s)) t (sy_pub s);
          Some (s\<lparr>sy_commsTask := Some t, sy_pub := p\<rparr>) })
      | TDiags \<Rightarrow> (case sy_diagsTask s of None \<Rightarrow> None | Some d \<Rightarrow>
          let (d, p) = diags_tick U now (d, sy_pub s) in Some (s\<lparr>sy_diagsTask := Some d, sy_pub := p\<rparr>))
      | TUser n \<Rightarrow> do { p \<leftarrow> task_tick (user_task U n) now (sy_pub s); Some (s\<lparr>sy_pub := p\<rparr>) }
      | TCrunch n \<Rightarrow> None)"

section \<open>Initialisation\<close>

fun init_tasks :: "'u user \<Rightarrow> Cfg \<Rightarrow> tref list \<Rightarrow> 'u System \<Rightarrow> 'u System option" where
  "init_tasks U cfg [] s = Some s"
| "init_tasks U cfg (r # rs) s = do { s \<leftarrow> tref_init U cfg r s; init_tasks U cfg rs s }"

definition System_init :: "'u user \<Rightarrow> Cfg \<Rightarrow> nat \<Rightarrow> 'u System \<Rightarrow> 'u System option" where
  "System_init U cfg coreId s =
     (if \<not> sy_built s then None
      else if coreId \<ge> kCoreCount cfg then Some s
      else do {
        let s = (if sy_kernelState s = CONFIGURED then snd (transitionTo INITIALIZING s) else s);
        s \<leftarrow> init_tasks U cfg (cd_tasks (sy_cores s ! coreId)) s;
        s \<leftarrow> (case cd_crunchTask (sy_cores s ! coreId) of
               Some n \<Rightarrow> if cd_mode (sy_cores s ! coreId) = CRUNCH then tref_init U cfg (TCrunch n) s else Some s
             | None \<Rightarrow> Some s);
        s \<leftarrow> (if coreId = sy_backgroundCoreId s then init_tasks U cfg (sy_backgroundTasks s) s else Some s);
        let s = (if sy_kernelState s = INITIALIZING then snd (transitionTo RUNNING s) else s);
        Some (s\<lparr>sy_coreInitialized := (sy_coreInitialized s)[coreId := True]\<rparr>) })"

section \<open>Reset\<close>

definition System_reset :: "'u user \<Rightarrow> Cfg \<Rightarrow> 'u System \<Rightarrow> 'u System" where
  "System_reset U cfg s =
     (let p = sy_pub s;
          (tl, w) = TelemetryLogger_clear (mutex_lock U) (mutex_unlock U) (telemetryLogger p, world p);
          p = p\<lparr>world := w, commandQueue := queue_clear (commandQueue p),
                watchdog := WatchdogSync_init (kCoreCount cfg), errorLogger := ErrorLogger_clear (errorLogger p),
                telemetryLogger := tl, sysTimer := SystemTimer_init,
                utilTracker := map CoreUtilizationTracker_reset (utilTracker p),
                queueMonitor := QueueDepthMonitor_reset (queueMonitor p),
                schedulerHealth := SchedulerHealthMetrics_reset (schedulerHealth p), safetyAbort := False\<rparr> in
      s\<lparr>sy_pub := p, sy_sync := MultiCoreSync_init (kCoreCount cfg) False, sy_controlTask := None,
        sy_commsTask := None, sy_diagsTask := None, sy_backgroundTasks := [], sy_bgRoundRobin := 0,
        sy_backgroundCoreId := 0, sy_cores := replicate (kCoreCount cfg) CoreData_init, sy_allTasks := [],
        sy_lastDispatch := replicate (kCoreCount cfg) (replicate kMaxTasksPerCore 0), sy_built := False,
        sy_lastTime := replicate (kCoreCount cfg) 0, sy_kernelState := UNCONFIGURED, sy_stopConditions := [],
        sy_drainFn := False, sy_coreInitialized := replicate (kCoreCount cfg) False, sy_watchdogKickFn := False\<rparr>)"

end
