(* ===== verification/KernelTick.thy ===== *)
theory KernelTick
  imports KernelSystem "HOL-Library.Sublist"
begin

text \<open>
  \<^verbatim>\<open>System<Cfg>::tick\<close> of \<^verbatim>\<open>kernel/System.h\<close>: the priority-ordered, period-aware phase over the scheduled tasks
  of a core, and the budget-gated round-robin ring of background tasks.

  The loops recurse over what is left of the array; \<open>t\<close> is the index in it, \<open>i\<close> the iteration of the ring
  loop and \<open>n\<close> how many iterations are left. The lemmas show that phase one runs exactly the due tasks in list
  order, that the ring always advances and runs its head, and when it never reaches a task.
\<close>

section \<open>Phase 1: scheduled tasks\<close>

text \<open>Whether the task in slot \<open>t\<close> is dispatched, and the state with its last dispatch time updated.\<close>

definition period_gate :: "'u user \<Rightarrow> Cfg \<Rightarrow> nat \<Rightarrow> micros \<Rightarrow> nat \<Rightarrow> tref \<Rightarrow> 'u System \<Rightarrow> bool \<times> 'u System" where
  "period_gate U cfg coreId now t r s =
     (if tref_isScheduled U r \<and> tref_kernelManagedPeriod U r \<and> tref_periodUs U cfg r > 0 then
        let last = sy_lastDispatch s ! coreId ! t in
        if last \<noteq> 0 \<and> now - last < tref_periodUs U cfg r then (False, s)
        else (True, s\<lparr>sy_lastDispatch := (sy_lastDispatch s)[coreId := (sy_lastDispatch s ! coreId)[t := now]]\<rparr>)
      else (True, s))"

definition timed_tick :: "'u user \<Rightarrow> Cfg \<Rightarrow> tref \<Rightarrow> micros \<Rightarrow> 'u System \<Rightarrow> 'u System option" where
  "timed_tick U cfg r now s = do {
     s \<leftarrow> tref_tick U cfg r now (on_pub (timer_start U r) s);
     Some (on_pub (timer_stop U r) s) }"

definition deadline_miss :: "'u user \<Rightarrow> micros \<Rightarrow> tref \<Rightarrow> micros \<Rightarrow> micros \<Rightarrow> 'u pub \<Rightarrow> 'u pub" where
  "deadline_miss U now r wcet actual p =
     tref_onOverrun U r actual wcet (log_error DEADLINE_MISS now (f32_of_u64 actual)
       (p\<lparr>timers := (timers p)(r := recordDeadlineMiss (timers p r))\<rparr>))"

definition deadline_check :: "'u user \<Rightarrow> micros \<Rightarrow> tref \<Rightarrow> 'u System \<Rightarrow> 'u System" where
  "deadline_check U now r s =
     (if tref_isScheduled U r then
        let wcet = tref_declaredWcetUs U r; actual = lastDuration r (sy_pub s) in
        if wcet > 0 \<and> actual > wcet then on_pub (deadline_miss U now r wcet actual) s else s
      else s)"

fun phase1 :: "'u user \<Rightarrow> Cfg \<Rightarrow> nat \<Rightarrow> micros \<Rightarrow> nat \<Rightarrow> tref list \<Rightarrow> micros \<times> 'u System \<Rightarrow> (micros \<times> 'u System) option" where
  "phase1 U cfg coreId now t [] bs = Some bs"
| "phase1 U cfg coreId now t (r # rs) bs =
     (let (busyAccum, s) = bs; (go, s) = period_gate U cfg coreId now t r s in
      if \<not> go then phase1 U cfg coreId now (Suc t) rs (busyAccum, s)
      else do {
        s \<leftarrow> timed_tick U cfg r now s;
        let busyAccum = busyAccum + lastDuration r (sy_pub s);
        phase1 U cfg coreId now (Suc t) rs (busyAccum, deadline_check U now r s) })"

section \<open>Phase 2: the background ring\<close>

fun phase2_loop :: "'u user \<Rightarrow> Cfg \<Rightarrow> micros \<Rightarrow> micros \<Rightarrow> nat \<Rightarrow> nat \<Rightarrow> micros \<times> 'u System \<Rightarrow> (micros \<times> 'u System) option" where
  "phase2_loop U cfg now gapBudget i 0 us = Some us"
| "phase2_loop U cfg now gapBudget i (Suc n) us =
     (let (used, s) = us;
          bg = sy_backgroundTasks s ! sy_bgRoundRobin s;
          s = s\<lparr>sy_bgRoundRobin := (sy_bgRoundRobin s + 1) mod length (sy_backgroundTasks s)\<rparr> in
      if i > 0 \<and> used + tref_maxBudgetUs U bg > gapBudget then Some (used, s)
      else do {
        s \<leftarrow> timed_tick U cfg bg now s;
        phase2_loop U cfg now gapBudget (Suc i) n (used + lastDuration bg (sy_pub s), s) })"

definition gap_budget :: "Cfg \<Rightarrow> micros \<Rightarrow> micros" where
  "gap_budget cfg busyAccum =
     (let gapBudget = ucast (CfgControlBudgetUs cfg) in
      if gapBudget > busyAccum then gapBudget - busyAccum else 0)"

definition phase2 :: "'u user \<Rightarrow> Cfg \<Rightarrow> nat \<Rightarrow> micros \<Rightarrow> micros \<times> 'u System \<Rightarrow> (micros \<times> 'u System) option" where
  "phase2 U cfg coreId now bs =
     (let (busyAccum, s) = bs in
      if coreId = sy_backgroundCoreId s \<and> length (sy_backgroundTasks s) > 0 then do {
        (used, s) \<leftarrow> phase2_loop U cfg now (gap_budget cfg busyAccum) 0 (length (sy_backgroundTasks s)) (0, s);
        Some (busyAccum + used, s) }
      else Some (busyAccum, s))"

section \<open>The tick\<close>

definition tick_begin :: "nat \<Rightarrow> micros \<Rightarrow> 'u System \<Rightarrow> 'u System" where
  "tick_begin coreId now s =
     (let s = (if now < sy_lastTime s ! coreId \<and> sy_lastTime s ! coreId \<noteq> 0
               then on_pub (log_error TIMER_ROLLOVER now 0) s else s);
          s = s\<lparr>sy_lastTime := (sy_lastTime s)[coreId := now]\<rparr> in
      on_pub (\<lambda>p. p\<lparr>utilTracker := (utilTracker p)[coreId := recordTickStart now (utilTracker p ! coreId)]\<rparr>) s)"

definition tick_end_at :: "Cfg \<Rightarrow> nat \<Rightarrow> micros \<Rightarrow> micros \<Rightarrow> micros \<Rightarrow> 'u pub \<Rightarrow> 'u pub" where
  "tick_end_at cfg coreId now busyAccum tickEndTime p =
     (let wallTime = (if tickEndTime \<ge> now then tickEndTime - now else 0);
          gapUs = (if wallTime \<ge> busyAccum then wallTime - busyAccum else 0) in
      p\<lparr>utilTracker := (utilTracker p)[coreId := recordTickEnd tickEndTime busyAccum (utilTracker p ! coreId)],
        schedulerHealth := recordGap gapUs tickEndTime (schedulerHealth p),
        queueMonitor := (if coreId = 0
          then sample (queue_size (kQueueCapacity cfg) (commandQueue p)) tickEndTime (queueMonitor p)
          else queueMonitor p)\<rparr>)"

definition tick_end :: "'u user \<Rightarrow> Cfg \<Rightarrow> nat \<Rightarrow> micros \<Rightarrow> micros \<times> 'u System \<Rightarrow> 'u System" where
  "tick_end U cfg coreId now bs =
     (let (busyAccum, s) = bs; (tickEndTime, p) = pub_now U (sy_pub s) in
      s\<lparr>sy_pub := tick_end_at cfg coreId now busyAccum tickEndTime p\<rparr>)"

definition System_tick :: "'u user \<Rightarrow> Cfg \<Rightarrow> nat \<Rightarrow> micros \<Rightarrow> 'u System \<Rightarrow> 'u System option" where
  "System_tick U cfg coreId now s =
     (if \<not> sy_built s then None
      else if coreId \<ge> kCoreCount cfg then Some s
      else do {
        let s = tick_begin coreId now s;
        bs \<leftarrow> phase1 U cfg coreId now 0 (cd_tasks (sy_cores s ! coreId)) (0, s);
        bs \<leftarrow> phase2 U cfg coreId now bs;
        Some (tick_end U cfg coreId now bs) })"

section \<open>What a tick leaves alone\<close>

text \<open>Task code changes the public state and the communications and diagnostics tasks themselves, nothing else.\<close>

definition task_effect :: "'u System \<Rightarrow> 'u System \<Rightarrow> bool" where
  "task_effect s s' \<longleftrightarrow> s' = s\<lparr>sy_pub := sy_pub s', sy_commsTask := sy_commsTask s', sy_diagsTask := sy_diagsTask s'\<rparr>"

lemma task_effect_refl [simp]: "task_effect s s"
  by (simp add: task_effect_def)

lemma task_effect_on_pub [simp]: "task_effect s (on_pub f s)"
  by (simp add: task_effect_def on_pub_def)

lemma task_effect_trans:
  assumes "task_effect s s'" "task_effect s' s''"
  shows "task_effect s s''"
proof -
  obtain p c d where "s' = s\<lparr>sy_pub := p, sy_commsTask := c, sy_diagsTask := d\<rparr>"
    using assms(1) unfolding task_effect_def by blast
  moreover obtain p' c' d' where "s'' = s'\<lparr>sy_pub := p', sy_commsTask := c', sy_diagsTask := d'\<rparr>"
    using assms(2) unfolding task_effect_def by blast
  ultimately show ?thesis by (simp add: task_effect_def)
qed

lemma task_effect_fields:
  assumes "task_effect s s'"
  shows "sy_sync s' = sy_sync s" "sy_crunchDispatcher s' = sy_crunchDispatcher s"
    "sy_controlTask s' = sy_controlTask s" "sy_backgroundTasks s' = sy_backgroundTasks s"
    "sy_bgRoundRobin s' = sy_bgRoundRobin s" "sy_backgroundCoreId s' = sy_backgroundCoreId s"
    "sy_cores s' = sy_cores s" "sy_lastDispatch s' = sy_lastDispatch s" "sy_built s' = sy_built s"
    "sy_lastTime s' = sy_lastTime s" "sy_kernelState s' = sy_kernelState s"
    "sy_stopConditions s' = sy_stopConditions s" "sy_coreInitialized s' = sy_coreInitialized s"
    "sy_watchdogKickFn s' = sy_watchdogKickFn s" "sy_drainFn s' = sy_drainFn s" "sy_allTasks s' = sy_allTasks s"
  by (subst assms [unfolded task_effect_def], simp)+

lemma tref_tick_effect: "tref_tick U cfg r now s = Some s' \<Longrightarrow> task_effect s s'"
  by (auto simp: tref_tick_def task_effect_def on_pub_def split: tref.splits option.splits prod.splits bind_splits)

lemma deadline_check_effect [simp]: "task_effect s (deadline_check U now r s)"
  by (simp add: deadline_check_def Let_def)

lemma timed_tick_effect: "timed_tick U cfg r now s = Some s' \<Longrightarrow> task_effect s s'"
  unfolding timed_tick_def
  by (auto split: bind_splits intro: task_effect_trans [OF task_effect_on_pub task_effect_trans [OF tref_tick_effect]])

section \<open>Phase 1 runs the due tasks in order\<close>

definition due :: "'u user \<Rightarrow> Cfg \<Rightarrow> nat \<Rightarrow> micros \<Rightarrow> 'u System \<Rightarrow> nat \<times> tref \<Rightarrow> bool" where
  "due U cfg coreId now s tr \<longleftrightarrow> (let (t, r) = tr; last = sy_lastDispatch s ! coreId ! t in
     \<not> (tref_isScheduled U r \<and> tref_kernelManagedPeriod U r \<and> tref_periodUs U cfg r > 0 \<and>
        last \<noteq> 0 \<and> now - last < tref_periodUs U cfg r))"

definition dispatch_slot ::
    "'u user \<Rightarrow> Cfg \<Rightarrow> nat \<Rightarrow> micros \<Rightarrow> nat \<times> tref \<Rightarrow> micros \<times> 'u System \<Rightarrow> (micros \<times> 'u System) option" where
  "dispatch_slot U cfg coreId now tr bs =
     (let (t, r) = tr; (busyAccum, s) = bs in do {
        s \<leftarrow> timed_tick U cfg r now (snd (period_gate U cfg coreId now t r s));
        Some (busyAccum + lastDuration r (sy_pub s), deadline_check U now r s) })"

lemma period_gate_due: "fst (period_gate U cfg c now t r s) \<longleftrightarrow> due U cfg c now s (t, r)"
  by (auto simp: period_gate_def due_def Let_def)

lemma period_gate_not_due: "\<not> due U cfg c now s (t, r) \<Longrightarrow> snd (period_gate U cfg c now t r s) = s"
  by (auto simp: period_gate_def due_def Let_def)

lemma period_gate_other:
  "t' \<noteq> t \<Longrightarrow> sy_lastDispatch (snd (period_gate U cfg c now t r s)) ! c ! t' = sy_lastDispatch s ! c ! t'"
  by (cases "c < length (sy_lastDispatch s)") (simp_all add: period_gate_def Let_def list_update_beyond [OF leI])

lemma dispatch_slot_other:
  assumes "dispatch_slot U cfg c now (t, r) (b, s) = Some (b', s')" "t' \<noteq> t"
  shows "sy_lastDispatch s' ! c ! t' = sy_lastDispatch s ! c ! t'"
proof -
  obtain s1 where s1: "timed_tick U cfg r now (snd (period_gate U cfg c now t r s)) = Some s1"
      "s' = deadline_check U now r s1"
    using assms(1) by (auto simp: dispatch_slot_def split: bind_splits)
  then have "sy_lastDispatch s' = sy_lastDispatch (snd (period_gate U cfg c now t r s))"
    by (metis timed_tick_effect deadline_check_effect task_effect_fields(8))
  then show ?thesis using period_gate_other [OF assms(2)] by simp
qed

lemma due_cong: "sy_lastDispatch s' ! c ! t = sy_lastDispatch s ! c ! t \<Longrightarrow> due U cfg c now s' (t, r) = due U cfg c now s (t, r)"
  by (simp add: due_def)

lemma phase1_step:
  "phase1 U cfg c now t (r # rs) (b, s) =
     (if due U cfg c now s (t, r)
      then do { bs \<leftarrow> dispatch_slot U cfg c now (t, r) (b, s); phase1 U cfg c now (Suc t) rs bs }
      else phase1 U cfg c now (Suc t) rs (b, s))"
  using period_gate_not_due [of U cfg c now s t r]
  by (auto simp: dispatch_slot_def period_gate_due [symmetric] split: prod.splits option.splits)

lemma phase1_foldM:
  "phase1 U cfg c now t rs (b, s) =
     foldM (dispatch_slot U cfg c now) (filter (due U cfg c now s) (enumerate t rs)) (b, s)"
proof (induction rs arbitrary: t b s)
  case (Cons r rs)
  show ?case
  proof (cases "due U cfg c now s (t, r)")
    case True
    have "filter (due U cfg c now s') (enumerate (Suc t) rs) = filter (due U cfg c now s) (enumerate (Suc t) rs)"
      if "dispatch_slot U cfg c now (t, r) (b, s) = Some (b', s')" for b' s'
      using dispatch_slot_other [OF that]
      by (intro filter_cong refl) (auto simp: in_set_enumerate_eq intro!: due_cong)
    with True show ?thesis
      by (cases "dispatch_slot U cfg c now (t, r) (b, s)")
         (auto simp: phase1_step Cons.IH simp del: phase1.simps)
  qed (simp add: phase1_step Cons.IH del: phase1.simps)
qed simp

text \<open>The slots of the dispatch times after a tick.\<close>

definition managed :: "'u user \<Rightarrow> Cfg \<Rightarrow> tref \<Rightarrow> bool" where
  "managed U cfg r \<longleftrightarrow> tref_isScheduled U r \<and> tref_kernelManagedPeriod U r \<and> tref_periodUs U cfg r > 0"

definition gate_lengths :: "nat \<Rightarrow> 'u System \<Rightarrow> 'u System \<Rightarrow> bool" where
  "gate_lengths c s s' \<longleftrightarrow> length (sy_lastDispatch s') = length (sy_lastDispatch s) \<and>
     length (sy_lastDispatch s' ! c) = length (sy_lastDispatch s ! c)"

lemma period_gate_slot:
  assumes "c < length (sy_lastDispatch s)" "t < length (sy_lastDispatch s ! c)" "due U cfg c now s (t, r)"
  shows "sy_lastDispatch (snd (period_gate U cfg c now t r s)) ! c ! t
       = (if managed U cfg r then now else sy_lastDispatch s ! c ! t)"
  using assms by (auto simp: period_gate_def due_def managed_def Let_def)

lemma dispatch_slot_lastDispatch:
  assumes "dispatch_slot U cfg c now (t, r) (b, s) = Some (b', s')"
  shows "sy_lastDispatch s' = sy_lastDispatch (snd (period_gate U cfg c now t r s))"
  using assms by (auto simp: dispatch_slot_def split: bind_splits)
    (metis timed_tick_effect deadline_check_effect task_effect_fields(8))

lemma gate_lengths_gate: "gate_lengths c s (snd (period_gate U cfg c now t r s))"
  by (cases "c < length (sy_lastDispatch s)")
     (simp_all add: gate_lengths_def period_gate_def Let_def list_update_beyond [OF leI])

lemma phase1_lastDispatch:
  assumes "phase1 U cfg c now t rs (b, s) = Some (b', s')" "c < length (sy_lastDispatch s)"
    and "t + length rs \<le> length (sy_lastDispatch s ! c)"
  shows "gate_lengths c s s' \<and> sy_lastDispatch s' ! c ! k =
       (if t \<le> k \<and> k < t + length rs \<and> managed U cfg (rs ! (k - t)) \<and> due U cfg c now s (k, rs ! (k - t))
        then now else sy_lastDispatch s ! c ! k)"
  using assms
proof (induction rs arbitrary: t b s)
  case (Cons r rs)
  have index: "Suc t \<le> k \<Longrightarrow> (r # rs) ! (k - t) = rs ! (k - Suc t)"
    by (metis Suc_diff_le diff_Suc_Suc nth_Cons_Suc)
  show ?case
  proof (cases "due U cfg c now s (t, r)")
    case True
    then obtain b1 s1 where s1: "dispatch_slot U cfg c now (t, r) (b, s) = Some (b1, s1)"
        "phase1 U cfg c now (Suc t) rs (b1, s1) = Some (b', s')"
      using Cons.prems(1) by (auto simp: phase1_step simp del: phase1.simps split: bind_splits)
    note d = dispatch_slot_lastDispatch [OF s1(1)]
    have len: "gate_lengths c s s1"
      using gate_lengths_gate [of c s U cfg now t r] d by (simp add: gate_lengths_def)
    have ih: "gate_lengths c s1 s' \<and> sy_lastDispatch s' ! c ! k =
        (if Suc t \<le> k \<and> k < Suc t + length rs \<and> managed U cfg (rs ! (k - Suc t)) \<and>
            due U cfg c now s1 (k, rs ! (k - Suc t)) then now else sy_lastDispatch s1 ! c ! k)"
      using Cons.prems(2,3) len by (intro Cons.IH [OF s1(2)]) (simp_all add: gate_lengths_def)
    show ?thesis
    proof (cases "k = t")
      case True
      with ih len d period_gate_slot [OF Cons.prems(2) _ \<open>due U cfg c now s (t, r)\<close>] Cons.prems(3)
      show ?thesis
        using \<open>due U cfg c now s (t, r)\<close> by (simp add: gate_lengths_def)
    next
      case False
      with dispatch_slot_other [OF s1(1) False] due_cong [of s1 c k s]
      have "sy_lastDispatch s1 ! c ! k = sy_lastDispatch s ! c ! k"
        "due U cfg c now s1 (k, r') = due U cfg c now s (k, r')" for r' by blast+
      with ih len False index show ?thesis by (auto simp: gate_lengths_def)
    qed
  next
    case False
    with Cons.prems have "phase1 U cfg c now (Suc t) rs (b, s) = Some (b', s')"
      by (simp add: phase1_step del: phase1.simps)
    from Cons.IH [OF this] Cons.prems(2,3) index False show ?thesis
      by (cases "k = t") auto
  qed
qed (auto simp: gate_lengths_def)

section \<open>The frame of a tick\<close>

definition tick_effect :: "'u System \<Rightarrow> 'u System \<Rightarrow> bool" where
  "tick_effect s s' \<longleftrightarrow> s' = s\<lparr>sy_pub := sy_pub s', sy_commsTask := sy_commsTask s', sy_diagsTask := sy_diagsTask s',
     sy_lastDispatch := sy_lastDispatch s', sy_lastTime := sy_lastTime s', sy_bgRoundRobin := sy_bgRoundRobin s'\<rparr>"

lemma tick_effect_refl [simp]: "tick_effect s s"
  by (simp add: tick_effect_def)

lemma tick_effectI:
  "s' = s\<lparr>sy_pub := p, sy_commsTask := ct, sy_diagsTask := d, sy_lastDispatch := l, sy_lastTime := tm, sy_bgRoundRobin := rr\<rparr> \<Longrightarrow>
   tick_effect s s'"
  by (simp add: tick_effect_def)

lemma tick_effect_trans:
  assumes "tick_effect s s'" "tick_effect s' s''"
  shows "tick_effect s s''"
proof -
  obtain p ct d l tm rr where "s' = s\<lparr>sy_pub := p, sy_commsTask := ct, sy_diagsTask := d, sy_lastDispatch := l, sy_lastTime := tm, sy_bgRoundRobin := rr\<rparr>"
    using assms(1) unfolding tick_effect_def by blast
  then show ?thesis using assms(2) unfolding tick_effect_def [of s'] by (auto intro!: tick_effectI)
qed

lemma tick_effect_fields:
  assumes "tick_effect s s'"
  shows "sy_sync s' = sy_sync s" "sy_crunchDispatcher s' = sy_crunchDispatcher s"
    "sy_controlTask s' = sy_controlTask s" "sy_backgroundTasks s' = sy_backgroundTasks s"
    "sy_backgroundCoreId s' = sy_backgroundCoreId s"
    "sy_cores s' = sy_cores s" "sy_built s' = sy_built s" "sy_kernelState s' = sy_kernelState s"
    "sy_stopConditions s' = sy_stopConditions s" "sy_coreInitialized s' = sy_coreInitialized s"
    "sy_watchdogKickFn s' = sy_watchdogKickFn s" "sy_drainFn s' = sy_drainFn s" "sy_allTasks s' = sy_allTasks s"
  by (subst assms [unfolded tick_effect_def], simp)+

lemma task_tick_effect: "task_effect s s' \<Longrightarrow> tick_effect s s'"
proof -
  assume "task_effect s s'"
  then obtain p ct d where "s' = s\<lparr>sy_pub := p, sy_commsTask := ct, sy_diagsTask := d\<rparr>"
    unfolding task_effect_def by blast
  then show ?thesis by (simp add: tick_effect_def)
qed

lemma period_gate_effect: "tick_effect s (snd (period_gate U cfg c now t r s))"
  by (simp add: period_gate_def tick_effect_def Let_def)

lemma dispatch_slot_effect:
  assumes "dispatch_slot U cfg c now tr (b, s) = Some (b', s')"
  shows "tick_effect s s'"
proof -
  obtain t r where tr: "tr = (t, r)" by (cases tr)
  obtain s1 where "timed_tick U cfg r now (snd (period_gate U cfg c now t r s)) = Some s1"
      "s' = deadline_check U now r s1"
    using assms by (auto simp: dispatch_slot_def tr split: bind_splits)
  then show ?thesis
    using period_gate_effect timed_tick_effect deadline_check_effect task_tick_effect tick_effect_trans by metis
qed

lemma foldM_dispatch_effect:
  "foldM (dispatch_slot U cfg c now) xs (b, s) = Some (b', s') \<Longrightarrow> tick_effect s s'"
proof (induction xs arbitrary: b s)
  case (Cons x xs)
  then obtain b1 s1 where "dispatch_slot U cfg c now x (b, s) = Some (b1, s1)"
      "foldM (dispatch_slot U cfg c now) xs (b1, s1) = Some (b', s')"
    by (auto split: bind_splits)
  with Cons.IH dispatch_slot_effect tick_effect_trans show ?case by blast
qed simp

lemma phase1_effect: "phase1 U cfg c now t rs (b, s) = Some (b', s') \<Longrightarrow> tick_effect s s'"
  by (simp only: phase1_foldM) (rule foldM_dispatch_effect)

lemma phase2_loop_effect:
  "phase2_loop U cfg now g i n (u, s) = Some (u', s') \<Longrightarrow> tick_effect s s' \<and> sy_lastDispatch s' = sy_lastDispatch s"
proof (induction n arbitrary: i u s)
  case (Suc n)
  let ?s = "s\<lparr>sy_bgRoundRobin := (sy_bgRoundRobin s + 1) mod length (sy_backgroundTasks s)\<rparr>"
  let ?bg = "sy_backgroundTasks s ! sy_bgRoundRobin s"
  have rr: "tick_effect s ?s" by (simp add: tick_effect_def)
  show ?case
  proof (cases "i > 0 \<and> u + tref_maxBudgetUs U ?bg > g")
    case True
    with Suc.prems rr show ?thesis by (auto simp: Let_def)
  next
    case False
    with Suc.prems obtain s1 where s1: "timed_tick U cfg ?bg now ?s = Some s1"
        "phase2_loop U cfg now g (Suc i) n (u + lastDuration ?bg (sy_pub s1), s1) = Some (u', s')"
      by (auto simp: Let_def split: bind_splits if_splits)
    have "tick_effect s s1"
      using rr timed_tick_effect [OF s1(1)] task_tick_effect tick_effect_trans by blast
    moreover have "sy_lastDispatch s1 = sy_lastDispatch s"
      using task_effect_fields(8) [OF timed_tick_effect [OF s1(1)]] by simp
    ultimately show ?thesis using Suc.IH [OF s1(2)] tick_effect_trans by metis
  qed
qed simp

lemma phase2_effect:
  "phase2 U cfg c now (b, s) = Some (b', s') \<Longrightarrow> tick_effect s s' \<and> sy_lastDispatch s' = sy_lastDispatch s"
  using phase2_loop_effect by (fastforce simp: phase2_def split: bind_splits if_splits prod.splits)

lemma tick_begin_effect: "tick_effect s (tick_begin c now s) \<and> sy_lastDispatch (tick_begin c now s) = sy_lastDispatch s"
  by (simp add: tick_begin_def tick_effect_def on_pub_def Let_def)

lemma tick_end_effect: "task_effect s (tick_end U cfg c now (b, s))"
  by (simp add: tick_end_def task_effect_def split: prod.split)

lemma System_tickE:
  assumes "System_tick U cfg c now s = Some s'" "c < kCoreCount cfg"
  obtains b1 s1 b2 s2 where "sy_built s"
    and "phase1 U cfg c now 0 (cd_tasks (sy_cores s ! c)) (0, tick_begin c now s) = Some (b1, s1)"
    and "phase2 U cfg c now (b1, s1) = Some (b2, s2)" "s' = tick_end U cfg c now (b2, s2)"
proof -
  have "sy_cores (tick_begin c now s) = sy_cores s"
    by (rule tick_effect_fields(6) [OF conjunct1 [OF tick_begin_effect]])
  with assms that show ?thesis by (auto simp: System_tick_def Let_def split: bind_splits if_splits)
qed

lemma System_tick_effect:
  assumes "System_tick U cfg c now s = Some s'"
  shows "tick_effect s s'"
proof (cases "c < kCoreCount cfg")
  case True
  obtain b1 s1 b2 s2 where steps:
      "phase1 U cfg c now 0 (cd_tasks (sy_cores s ! c)) (0, tick_begin c now s) = Some (b1, s1)"
      "phase2 U cfg c now (b1, s1) = Some (b2, s2)" "s' = tick_end U cfg c now (b2, s2)"
    by (rule System_tickE [OF assms True])
  show ?thesis
    using tick_begin_effect [of s c now] phase1_effect [OF steps(1)] phase2_effect [OF steps(2)]
      tick_end_effect [of s2 U cfg c now b2, folded steps(3)] task_tick_effect tick_effect_trans
    by metis
qed (use assms in \<open>auto simp: System_tick_def split: if_splits\<close>)

section \<open>Sequences of ticks\<close>

fun System_ticks :: "'u user \<Rightarrow> Cfg \<Rightarrow> nat \<Rightarrow> micros list \<Rightarrow> 'u System \<Rightarrow> 'u System option" where
  "System_ticks U cfg c [] s = Some s"
| "System_ticks U cfg c (now # nows) s = do { s \<leftarrow> System_tick U cfg c now s; System_ticks U cfg c nows s }"

text \<open>The reference execution: a tick that dispatches exactly the slots \<open>ds\<close>, and a run of such ticks.\<close>

definition exec_tick :: "'u user \<Rightarrow> Cfg \<Rightarrow> nat \<Rightarrow> micros \<Rightarrow> (nat \<times> tref) list \<Rightarrow> 'u System \<Rightarrow> 'u System option" where
  "exec_tick U cfg c now ds s = do {
     bs \<leftarrow> foldM (dispatch_slot U cfg c now) ds (0, tick_begin c now s);
     bs \<leftarrow> phase2 U cfg c now bs;
     Some (tick_end U cfg c now bs) }"

fun exec_ticks :: "'u user \<Rightarrow> Cfg \<Rightarrow> nat \<Rightarrow> (micros \<times> (nat \<times> tref) list) list \<Rightarrow> 'u System \<Rightarrow> 'u System option" where
  "exec_ticks U cfg c [] s = Some s"
| "exec_ticks U cfg c ((now, ds) # tds) s = do { s \<leftarrow> exec_tick U cfg c now ds s; exec_ticks U cfg c tds s }"

text \<open>The times at which such a run dispatches a slot.\<close>

definition times_of :: "nat \<times> tref \<Rightarrow> (micros \<times> (nat \<times> tref) list) list \<Rightarrow> micros list" where
  "times_of tr tds = map fst (filter (\<lambda>(now, ds). tr \<in> set ds) tds)"

lemma times_of_simps [simp]:
  "times_of tr [] = []"
  "times_of tr ((now, ds) # tds) = (if tr \<in> set ds then now # times_of tr tds else times_of tr tds)"
  by (simp_all add: times_of_def)

text \<open>The reference: a rate limiter that lets a time pass when the period has elapsed since the last one it let
  pass.\<close>

fun rate_limit :: "micros \<Rightarrow> micros \<Rightarrow> micros list \<Rightarrow> micros list" where
  "rate_limit period prev [] = []"
| "rate_limit period prev (now # nows) =
     (if prev \<noteq> 0 \<and> now - prev < period then rate_limit period prev nows
      else now # rate_limit period now nows)"

lemma rate_limit_spaced:
  "0 \<notin> set nows \<Longrightarrow> successively (\<lambda>a b. period \<le> b - a) (rate_limit period prev nows) \<and>
     (prev \<noteq> 0 \<longrightarrow> (case rate_limit period prev nows of [] \<Rightarrow> True | x # _ \<Rightarrow> period \<le> x - prev))"
proof (induction nows arbitrary: prev)
  case (Cons now nows)
  then show ?case
    using Cons.IH [of now] Cons.IH [of prev]
    by (cases "rate_limit period now nows") (auto simp: not_less split del: if_split split: if_split)
qed simp

definition slots_ok :: "nat \<Rightarrow> 'u System \<Rightarrow> bool" where
  "slots_ok c s \<longleftrightarrow> c < length (sy_lastDispatch s) \<and> length (cd_tasks (sy_cores s ! c)) \<le> length (sy_lastDispatch s ! c)"

lemma due_tick_begin: "due U cfg c now (tick_begin c now' s) tr = due U cfg c now s tr"
  using tick_begin_effect [of s c now'] by (cases tr) (simp add: due_def)

lemma System_tick_slots_ok:
  assumes "System_tick U cfg c now s = Some s'" "c < kCoreCount cfg" "slots_ok c s"
  shows "slots_ok c s'"
proof -
  obtain b1 s1 b2 s2 where steps:
      "phase1 U cfg c now 0 (cd_tasks (sy_cores s ! c)) (0, tick_begin c now s) = Some (b1, s1)"
      "phase2 U cfg c now (b1, s1) = Some (b2, s2)" "s' = tick_end U cfg c now (b2, s2)"
    by (rule System_tickE [OF assms(1,2)])
  have same: "sy_lastDispatch s' = sy_lastDispatch s1" "sy_lastDispatch (tick_begin c now s) = sy_lastDispatch s"
    using phase2_effect [OF steps(2)] tick_begin_effect [of s c now]
      task_effect_fields(8) [OF tick_end_effect] steps(3) by metis+
  then have "gate_lengths c (tick_begin c now s) s1"
    using assms(3) by (intro conjunct1 [OF phase1_lastDispatch [OF steps(1)]]) (simp_all add: slots_ok_def)
  then show ?thesis
    using assms(3) same tick_effect_fields(6) [OF System_tick_effect [OF assms(1)]]
    by (simp add: slots_ok_def gate_lengths_def)
qed

lemma System_tick_slot:
  assumes "System_tick U cfg c now s = Some s'" "c < kCoreCount cfg" "slots_ok c s"
    and "t < length (cd_tasks (sy_cores s ! c))"
  shows "sy_lastDispatch s' ! c ! t =
     (if managed U cfg (cd_tasks (sy_cores s ! c) ! t) \<and> due U cfg c now s (t, cd_tasks (sy_cores s ! c) ! t)
      then now else sy_lastDispatch s ! c ! t)"
proof -
  obtain b1 s1 b2 s2 where steps:
      "phase1 U cfg c now 0 (cd_tasks (sy_cores s ! c)) (0, tick_begin c now s) = Some (b1, s1)"
      "phase2 U cfg c now (b1, s1) = Some (b2, s2)" "s' = tick_end U cfg c now (b2, s2)"
    by (rule System_tickE [OF assms(1,2)])
  have same: "sy_lastDispatch s' = sy_lastDispatch s1" "sy_lastDispatch (tick_begin c now s) = sy_lastDispatch s"
    using phase2_effect [OF steps(2)] tick_begin_effect [of s c now]
      task_effect_fields(8) [OF tick_end_effect] steps(3) by metis+
  have "gate_lengths c (tick_begin c now s) s1 \<and> sy_lastDispatch s1 ! c ! t =
     (if 0 \<le> t \<and> t < 0 + length (cd_tasks (sy_cores s ! c)) \<and> managed U cfg (cd_tasks (sy_cores s ! c) ! (t - 0)) \<and>
         due U cfg c now (tick_begin c now s) (t, cd_tasks (sy_cores s ! c) ! (t - 0))
      then now else sy_lastDispatch (tick_begin c now s) ! c ! t)"
    using assms(3) same(2) by (intro phase1_lastDispatch [OF steps(1)]) (simp_all add: slots_ok_def)
  then show ?thesis
    using assms(3,4) same by (simp add: due_tick_begin)
qed

lemma System_tick_exec:
  assumes "sy_built s" "c < kCoreCount cfg"
  shows "System_tick U cfg c now s =
     exec_tick U cfg c now (filter (due U cfg c now s) (enumerate 0 (cd_tasks (sy_cores s ! c)))) s"
proof -
  have "sy_cores (tick_begin c now s) = sy_cores s"
    by (rule tick_effect_fields(6) [OF conjunct1 [OF tick_begin_effect]])
  moreover have "due U cfg c now (tick_begin c now s) = due U cfg c now s"
    by (rule ext) (rule due_tick_begin)
  ultimately show ?thesis using assms by (simp add: System_tick_def exec_tick_def phase1_foldM Let_def)
qed

text \<open>What the schedule \<open>D\<close> of a run has to satisfy: in every tick slots in list order, and over the run the
  dispatches of a slot are the ones its rate limiter lets pass, or all of them when the kernel does not manage
  the period.\<close>

definition schedule_ok :: "'u user \<Rightarrow> Cfg \<Rightarrow> tref list \<Rightarrow> micros list \<Rightarrow> micros list \<Rightarrow> (nat \<times> tref) list list \<Rightarrow> bool" where
  "schedule_ok U cfg rs prev nows D \<longleftrightarrow> length D = length nows \<and> (\<forall>ds \<in> set D. subseq ds (enumerate 0 rs)) \<and>
     (\<forall>t < length rs. times_of (t, rs ! t) (zip nows D) =
        (if managed U cfg (rs ! t) then rate_limit (tref_periodUs U cfg (rs ! t)) (prev ! t) nows else nows))"

lemma System_ticks_schedule:
  assumes "System_ticks U cfg c nows s = Some s'" "c < kCoreCount cfg" "slots_ok c s"
  shows "\<exists>D. exec_ticks U cfg c (zip nows D) s = Some s' \<and>
    schedule_ok U cfg (cd_tasks (sy_cores s ! c)) (sy_lastDispatch s ! c) nows D"
  using assms
proof (induction nows arbitrary: s)
  case Nil
  then show ?case by (auto simp: schedule_ok_def)
next
  case (Cons now nows)
  let ?rs = "cd_tasks (sy_cores s ! c)"
  let ?ds = "filter (due U cfg c now s) (enumerate 0 ?rs)"
  obtain s1 where s1: "System_tick U cfg c now s = Some s1" "System_ticks U cfg c nows s1 = Some s'"
    using Cons.prems(1) by (auto split: bind_splits)
  have built: "sy_built s" using s1(1) by (simp add: System_tick_def split: if_splits)
  have cores: "sy_cores s1 = sy_cores s" by (rule tick_effect_fields(6) [OF System_tick_effect [OF s1(1)]])
  obtain D where D: "exec_ticks U cfg c (zip nows D) s1 = Some s'"
      "schedule_ok U cfg ?rs (sy_lastDispatch s1 ! c) nows D"
    using Cons.IH [OF s1(2) Cons.prems(2) System_tick_slots_ok [OF s1(1) Cons.prems(2,3)]] cores by auto
  have "times_of (t, ?rs ! t) (zip (now # nows) (?ds # D)) =
      (if managed U cfg (?rs ! t) then rate_limit (tref_periodUs U cfg (?rs ! t)) (sy_lastDispatch s ! c ! t) (now # nows)
       else now # nows)" if t: "t < length ?rs" for t
    using D(2) t System_tick_slot [OF s1(1) Cons.prems(2,3) t]
    by (auto simp: schedule_ok_def in_set_enumerate_eq due_def managed_def Let_def)
  with D(2) have "schedule_ok U cfg ?rs (sy_lastDispatch s ! c) (now # nows) (?ds # D)"
    by (simp add: schedule_ok_def)
  moreover have "exec_ticks U cfg c (zip (now # nows) (?ds # D)) s = Some s'"
    using s1(1) D(1) System_tick_exec [OF built Cons.prems(2)] by simp
  ultimately show ?case by blast
qed

section \<open>The background ring\<close>

text \<open>One turn of the ring: the head runs and the ring moves on.\<close>

definition ring_turn :: "'u user \<Rightarrow> Cfg \<Rightarrow> micros \<Rightarrow> micros \<times> 'u System \<Rightarrow> (micros \<times> 'u System) option" where
  "ring_turn U cfg now us =
     (let (used, s) = us; bg = sy_backgroundTasks s ! sy_bgRoundRobin s in do {
        s \<leftarrow> timed_tick U cfg bg now (s\<lparr>sy_bgRoundRobin := (sy_bgRoundRobin s + 1) mod length (sy_backgroundTasks s)\<rparr>);
        Some (used + lastDuration bg (sy_pub s), s) })"

fun ring_turns :: "'u user \<Rightarrow> Cfg \<Rightarrow> micros \<Rightarrow> nat \<Rightarrow> micros \<times> 'u System \<Rightarrow> (micros \<times> 'u System) option" where
  "ring_turns U cfg now 0 us = Some us"
| "ring_turns U cfg now (Suc k) us = do { us \<leftarrow> ring_turn U cfg now us; ring_turns U cfg now k us }"

definition ring_ok :: "'u System \<Rightarrow> bool" where
  "ring_ok s \<longleftrightarrow> sy_bgRoundRobin s < length (sy_backgroundTasks s)"

definition pass_over :: "'u System \<Rightarrow> 'u System" where
  "pass_over s = s\<lparr>sy_bgRoundRobin := (sy_bgRoundRobin s + 1) mod length (sy_backgroundTasks s)\<rparr>"

definition over_budget :: "'u user \<Rightarrow> micros \<Rightarrow> micros \<times> 'u System \<Rightarrow> bool" where
  "over_budget U g us \<longleftrightarrow> (let (used, s) = us in used + tref_maxBudgetUs U (sy_backgroundTasks s ! sy_bgRoundRobin s) > g)"

lemma phase2_loop_step:
  "phase2_loop U cfg now g i (Suc n) us =
     (if i > 0 \<and> over_budget U g us then Some (fst us, pass_over (snd us))
      else do { us \<leftarrow> ring_turn U cfg now us; phase2_loop U cfg now g (Suc i) n us })"
  by (cases us) (simp add: over_budget_def pass_over_def ring_turn_def Let_def split: option.splits)

lemma ring_turn_rr:
  assumes "ring_turn U cfg now (u, s) = Some (u', s')"
  shows "sy_bgRoundRobin s' = (sy_bgRoundRobin s + 1) mod length (sy_backgroundTasks s) \<and>
     sy_backgroundTasks s' = sy_backgroundTasks s"
proof -
  let ?s = "s\<lparr>sy_bgRoundRobin := (sy_bgRoundRobin s + 1) mod length (sy_backgroundTasks s)\<rparr>"
  have "timed_tick U cfg (sy_backgroundTasks s ! sy_bgRoundRobin s) now ?s = Some s'"
    using assms by (auto simp: ring_turn_def Let_def split: bind_splits)
  then have "task_effect ?s s'" by (rule timed_tick_effect)
  from task_effect_fields(4,5) [OF this] show ?thesis by simp
qed

lemma ring_turns_rr:
  "ring_turns U cfg now k (u, s) = Some (u', s') \<Longrightarrow> sy_bgRoundRobin s < length (sy_backgroundTasks s) \<Longrightarrow>
     sy_bgRoundRobin s' = (sy_bgRoundRobin s + k) mod length (sy_backgroundTasks s) \<and>
     sy_backgroundTasks s' = sy_backgroundTasks s"
proof (induction k arbitrary: u s)
  case (Suc k)
  obtain u1 s1 where s1: "ring_turn U cfg now (u, s) = Some (u1, s1)" "ring_turns U cfg now k (u1, s1) = Some (u', s')"
    using Suc.prems(1) by (auto split: bind_splits)
  have "sy_bgRoundRobin s1 < length (sy_backgroundTasks s1)"
    using ring_turn_rr [OF s1(1)] Suc.prems(2) by (metis gr_implies_not0 mod_less_divisor neq0_conv)
  from Suc.IH [OF s1(2) this] ring_turn_rr [OF s1(1)] show ?case by (simp add: mod_simps)
qed simp

lemma ring_mod: "rr < length r \<Longrightarrow> k mod length r < length r"
  by (metis gr_implies_not0 mod_less_divisor neq0_conv)

lemma ring_turn_ok:
  "ring_turn U cfg now (u, s) = Some (u', s') \<Longrightarrow> ring_ok s \<Longrightarrow> ring_ok s'"
  using ring_turn_rr unfolding ring_ok_def by (metis gr_implies_not0 mod_less_divisor neq0_conv)

lemma phase2_loop_ok:
  "phase2_loop U cfg now g i n (u, s) = Some (u', s') \<Longrightarrow> ring_ok s \<Longrightarrow> ring_ok s'"
proof (induction n arbitrary: i u s)
  case (Suc n)
  have "ring_ok (pass_over s)"
    using Suc.prems(2) by (simp add: ring_ok_def pass_over_def ring_mod)
  then show ?case
    using Suc ring_turn_ok by (fastforce simp: phase2_loop_step simp del: phase2_loop.simps split: bind_splits if_splits)
qed simp

lemma phase2_loop_turns:
  assumes "phase2_loop U cfg now g i n us = Some us'" "0 < i"
  shows "\<exists>k us1. k \<le> n \<and> ring_turns U cfg now k us = Some us1 \<and>
     (if k = n then us' = us1 else over_budget U g us1 \<and> us' = (fst us1, pass_over (snd us1)))"
  using assms
proof (induction n arbitrary: i us)
  case (Suc n)
  show ?case
  proof (cases "over_budget U g us")
    case True
    with Suc.prems show ?thesis
      by (intro exI [of _ 0] exI [of _ us]) (simp add: phase2_loop_step del: phase2_loop.simps)
  next
    case False
    then obtain us2 where us2: "ring_turn U cfg now us = Some us2" "phase2_loop U cfg now g (Suc i) n us2 = Some us'"
      using Suc.prems by (auto simp: phase2_loop_step simp del: phase2_loop.simps split: bind_splits)
    from Suc.IH [OF us2(2)] obtain k us1 where k: "k \<le> n" "ring_turns U cfg now k us2 = Some us1"
        "if k = n then us' = us1 else over_budget U g us1 \<and> us' = (fst us1, pass_over (snd us1))"
      by auto
    with us2(1) show ?thesis
      by (intro exI [of _ "Suc k"] exI [of _ us1]) simp
  qed
qed simp

lemma phase2_loop_head:
  assumes "phase2_loop U cfg now g 0 n (0, s) = Some (u', s')" "n = length (sy_backgroundTasks s)" "ring_ok s"
  shows "\<exists>k u1 s1. 1 \<le> k \<and> k \<le> n \<and> ring_turns U cfg now k (0, s) = Some (u1, s1) \<and> u' = u1 \<and>
     (if k = n then s' = s1 else over_budget U g (u1, s1) \<and> s' = pass_over s1) \<and>
     sy_bgRoundRobin s' = (if k = n then sy_bgRoundRobin s else (sy_bgRoundRobin s + k + 1) mod n)"
proof -
  have "0 < n" using assms(2,3) unfolding ring_ok_def by linarith
  then obtain m where m: "n = Suc m" by (cases n) simp_all
  obtain us2 where us2: "ring_turn U cfg now (0, s) = Some us2" "phase2_loop U cfg now g 1 m us2 = Some (u', s')"
    using assms(1) by (auto simp: m phase2_loop_step simp del: phase2_loop.simps split: bind_splits)
  obtain k u1 s1 where k: "k \<le> m" "ring_turns U cfg now k us2 = Some (u1, s1)"
      "if k = m then (u', s') = (u1, s1) else over_budget U g (u1, s1) \<and> (u', s') = (u1, pass_over s1)"
    using phase2_loop_turns [OF us2(2)] by fastforce
  have turns: "ring_turns U cfg now (Suc k) (0, s) = Some (u1, s1)"
    using us2(1) k(2) by simp
  from ring_turns_rr [OF this] assms(2,3)
  have "sy_bgRoundRobin s1 = (sy_bgRoundRobin s + Suc k) mod n" "sy_backgroundTasks s1 = sy_backgroundTasks s"
    by (auto simp: ring_ok_def)
  moreover have "(sy_bgRoundRobin s + n) mod n = sy_bgRoundRobin s"
    using assms(2,3) by (simp add: ring_ok_def)
  ultimately have "sy_bgRoundRobin s' = (if Suc k = n then sy_bgRoundRobin s else (sy_bgRoundRobin s + Suc k + 1) mod n)"
    using k(3) m assms(2) by (cases "k = m") (simp_all add: pass_over_def mod_simps)
  with turns k m show ?thesis
    by (intro exI [of _ "Suc k"] exI [of _ u1] exI [of _ s1]) auto
qed

section \<open>A ring of two whose head is slow\<close>

lemma tref_tick_diags:
  "tref_tick U cfg r now s = Some s' \<Longrightarrow> r \<noteq> TDiags \<Longrightarrow> sy_diagsTask s' = sy_diagsTask s"
  by (auto simp: tref_tick_def on_pub_def split: tref.splits option.splits prod.splits bind_splits)

lemma timed_tick_diags:
  "timed_tick U cfg r now s = Some s' \<Longrightarrow> r \<noteq> TDiags \<Longrightarrow> sy_diagsTask s' = sy_diagsTask s"
  unfolding timed_tick_def by (auto simp: on_pub_def split: bind_splits dest: tref_tick_diags)

lemma phase1_diags:
  "phase1 U cfg c now t rs (b, s) = Some (b', s') \<Longrightarrow> TDiags \<notin> set rs \<Longrightarrow> sy_diagsTask s' = sy_diagsTask s"
proof (induction rs arbitrary: t b s)
  case (Cons r rs)
  have "sy_diagsTask s1 = sy_diagsTask s" if "dispatch_slot U cfg c now (t, r) (b, s) = Some (b1, s1)" for b1 s1
    using that Cons.prems(2)
    by (auto simp: dispatch_slot_def deadline_check_def period_gate_def on_pub_def Let_def
        dest!: timed_tick_diags split: bind_splits if_splits)
  then show ?case
    using Cons by (fastforce simp: phase1_step simp del: phase1.simps split: bind_splits if_splits)
qed simp

text \<open>In every one of the ticks the measured run of the ring's head leaves less than the budget of the
  diagnostics task of the control budget.\<close>

fun head_slow :: "'u user \<Rightarrow> Cfg \<Rightarrow> nat \<Rightarrow> micros list \<Rightarrow> 'u System \<Rightarrow> bool" where
  "head_slow U cfg c [] s = True"
| "head_slow U cfg c (now # nows) s =
     ((case phase1 U cfg c now 0 (cd_tasks (sy_cores s ! c)) (0, tick_begin c now s) of None \<Rightarrow> True
       | Some bs \<Rightarrow> (case ring_turn U cfg now (0, snd bs) of None \<Rightarrow> True
         | Some us \<Rightarrow> fst us + diags_maxBudgetUs > ucast (CfgControlBudgetUs cfg))) \<and>
      (case System_tick U cfg c now s of None \<Rightarrow> True | Some s' \<Rightarrow> head_slow U cfg c nows s'))"

lemma head_slow_once:
  "head_slow U cfg c [now] s \<longleftrightarrow>
     (case phase1 U cfg c now 0 (cd_tasks (sy_cores s ! c)) (0, tick_begin c now s) of None \<Rightarrow> True
      | Some bs \<Rightarrow> (case ring_turn U cfg now (0, snd bs) of None \<Rightarrow> True
        | Some us \<Rightarrow> fst us + diags_maxBudgetUs > ucast (CfgControlBudgetUs cfg)))"
  by (simp split: option.split)

definition starving :: "nat \<Rightarrow> tref \<Rightarrow> 'u System \<Rightarrow> bool" where
  "starving c A s \<longleftrightarrow> sy_backgroundTasks s = [A, TDiags] \<and> sy_bgRoundRobin s = 0 \<and> sy_backgroundCoreId s = c \<and>
     TDiags \<notin> set (cd_tasks (sy_cores s ! c)) \<and> A \<noteq> TDiags"

lemma dispatch_slot_rr:
  assumes "dispatch_slot U cfg c now tr (b, s) = Some (b', s')"
  shows "sy_bgRoundRobin s' = sy_bgRoundRobin s"
proof -
  obtain t r where tr: "tr = (t, r)" by (cases tr)
  obtain s1 where "timed_tick U cfg r now (snd (period_gate U cfg c now t r s)) = Some s1"
      "s' = deadline_check U now r s1"
    using assms by (auto simp: dispatch_slot_def tr split: bind_splits)
  then have "sy_bgRoundRobin s' = sy_bgRoundRobin (snd (period_gate U cfg c now t r s))"
    by (metis timed_tick_effect deadline_check_effect task_effect_fields(5))
  then show ?thesis by (simp add: period_gate_def Let_def)
qed

lemma phase1_rr:
  "phase1 U cfg c now t rs (b, s) = Some (b', s') \<Longrightarrow> sy_bgRoundRobin s' = sy_bgRoundRobin s"
proof (induction rs arbitrary: t b s)
  case (Cons r rs)
  then show ?case
    using dispatch_slot_rr by (fastforce simp: phase1_step simp del: phase1.simps split: bind_splits if_splits)
qed simp

lemma gap_budget_le: "gap_budget cfg b \<le> ucast (CfgControlBudgetUs cfg)"
  by (simp add: gap_budget_def Let_def word_sub_le)

lemma ring_turn_frame:
  assumes "ring_turn U cfg now (u, s) = Some (u', s')"
  shows "tick_effect s s' \<and> (sy_backgroundTasks s ! sy_bgRoundRobin s \<noteq> TDiags \<longrightarrow> sy_diagsTask s' = sy_diagsTask s)"
proof -
  let ?s = "s\<lparr>sy_bgRoundRobin := (sy_bgRoundRobin s + 1) mod length (sy_backgroundTasks s)\<rparr>"
  have s': "timed_tick U cfg (sy_backgroundTasks s ! sy_bgRoundRobin s) now ?s = Some s'"
    using assms by (auto simp: ring_turn_def Let_def split: bind_splits)
  have "tick_effect s ?s" by (simp add: tick_effect_def)
  then show ?thesis
    using task_tick_effect [OF timed_tick_effect [OF s']] timed_tick_diags [OF s'] tick_effect_trans by fastforce
qed

lemma slow_head_ring:
  assumes "sy_backgroundTasks s = [A, TDiags]" "sy_bgRoundRobin s = 0" "A \<noteq> TDiags"
    and "ring_turn U cfg now (0, s) = Some (u, s1)" "g < u + diags_maxBudgetUs"
    and "phase2_loop U cfg now g 0 2 (0, s) = Some (u', s')"
  shows "s' = pass_over s1 \<and> sy_bgRoundRobin s' = 0 \<and> sy_diagsTask s' = sy_diagsTask s"
proof -
  have s1: "sy_backgroundTasks s1 = [A, TDiags]" "sy_bgRoundRobin s1 = 1"
    using ring_turn_rr [OF assms(4)] assms(1,2) by simp_all
  then have "over_budget U g (u, s1)"
    using assms(5) by (simp add: over_budget_def tref_maxBudgetUs_def)
  then have "phase2_loop U cfg now g 0 2 (0, s) = Some (u, pass_over s1)"
    using assms(4) by (simp add: numeral_2_eq_2 phase2_loop_step del: phase2_loop.simps)
  then have "s' = pass_over s1" using assms(6) by simp
  then show ?thesis
    using s1 ring_turn_frame [OF assms(4)] assms(1-3) by (simp add: pass_over_def)
qed

lemma slow_head_tick:
  assumes "starving c A s" "c < kCoreCount cfg" "System_tick U cfg c now s = Some s'" "head_slow U cfg c (now # nows) s"
  shows "starving c A s' \<and> sy_diagsTask s' = sy_diagsTask s \<and> head_slow U cfg c nows s'"
proof -
  obtain b1 s1 b2 s2 where steps:
      "phase1 U cfg c now 0 (cd_tasks (sy_cores s ! c)) (0, tick_begin c now s) = Some (b1, s1)"
      "phase2 U cfg c now (b1, s1) = Some (b2, s2)" "s' = tick_end U cfg c now (b2, s2)"
    by (rule System_tickE [OF assms(3,2)])
  have st: "sy_backgroundTasks s = [A, TDiags]" "sy_bgRoundRobin s = 0" "sy_backgroundCoreId s = c"
      "TDiags \<notin> set (cd_tasks (sy_cores s ! c))" "A \<noteq> TDiags"
    using assms(1) by (auto simp: starving_def)
  have beg: "sy_bgRoundRobin (tick_begin c now s) = 0" "sy_diagsTask (tick_begin c now s) = sy_diagsTask s"
    using st(2) by (simp_all add: tick_begin_def on_pub_def Let_def)
  have eff: "tick_effect s s1"
    using tick_begin_effect [of s c now] phase1_effect [OF steps(1)] tick_effect_trans by blast
  have s1: "sy_backgroundTasks s1 = [A, TDiags]" "sy_bgRoundRobin s1 = 0" "sy_backgroundCoreId s1 = c"
      "sy_diagsTask s1 = sy_diagsTask s"
    using st beg tick_effect_fields(4,5) [OF eff] phase1_rr [OF steps(1)] phase1_diags [OF steps(1) st(4)]
    by simp_all
  obtain u where loop: "phase2_loop U cfg now (gap_budget cfg b1) 0 2 (0, s1) = Some (u, s2)"
    using steps(2) s1 by (auto simp: phase2_def numeral_2_eq_2 simp del: phase2_loop.simps split: bind_splits)
  then obtain u3 s3 where turn: "ring_turn U cfg now (0, s1) = Some (u3, s3)"
    by (auto simp: numeral_2_eq_2 phase2_loop_step simp del: phase2_loop.simps split: bind_splits)
  have "ucast (CfgControlBudgetUs cfg) < u3 + diags_maxBudgetUs"
    using assms(4) steps(1) turn by simp
  then have slow: "gap_budget cfg b1 < u3 + diags_maxBudgetUs"
    using gap_budget_le le_less_trans by blast
  have "sy_bgRoundRobin s2 = 0 \<and> sy_diagsTask s2 = sy_diagsTask s1"
    using slow_head_ring [OF s1(1,2) st(5) turn slow loop] by blast
  moreover have "sy_bgRoundRobin s' = sy_bgRoundRobin s2" "sy_diagsTask s' = sy_diagsTask s2"
    by (simp_all add: steps(3) tick_end_def split: prod.split)
  ultimately show ?thesis
    using st s1 assms(3,4) tick_effect_fields(4-6) [OF System_tick_effect [OF assms(3)]]
    by (simp add: starving_def)
qed

section \<open>Ticks return\<close>

text \<open>A task whose tick returns: the kernel task exists (with a consistent CLI), the user task always returns.\<close>

definition task_returns :: "'u user \<Rightarrow> Cfg \<Rightarrow> 'u System \<Rightarrow> tref \<Rightarrow> bool" where
  "task_returns U cfg s r \<longleftrightarrow> (case r of
       TControl \<Rightarrow> sy_controlTask s \<noteq> None
     | TComms \<Rightarrow> (case sy_commsTask s of None \<Rightarrow> False | Some t \<Rightarrow> cli_ok cfg (ct_cli t))
     | TDiags \<Rightarrow> sy_diagsTask s \<noteq> None
     | TUser n \<Rightarrow> (\<forall>now p. task_tick (user_task U n) now p \<noteq> None)
     | TCrunch n \<Rightarrow> False)"

lemma task_returns_cong:
  "sy_controlTask s' = sy_controlTask s \<Longrightarrow> sy_commsTask s' = sy_commsTask s \<Longrightarrow> sy_diagsTask s' = sy_diagsTask s \<Longrightarrow>
   task_returns U cfg s' r = task_returns U cfg s r"
  by (simp add: task_returns_def split: tref.split)

lemma task_returns_simps [simp]:
  "task_returns U cfg (on_pub f s) r = task_returns U cfg s r"
  "task_returns U cfg (deadline_check U now r' s) r = task_returns U cfg s r"
  "task_returns U cfg (snd (period_gate U cfg c now t r' s)) r = task_returns U cfg s r"
  "task_returns U cfg (tick_begin c now s) r = task_returns U cfg s r"
  "task_returns U cfg (tick_end U cfg c now (b, s)) r = task_returns U cfg s r"
  by (rule task_returns_cong; simp add: on_pub_def deadline_check_def period_gate_def tick_begin_def
      tick_end_def Let_def split: prod.split)+

lemma tref_tick_returns:
  assumes "task_returns U cfg s r"
  shows "\<exists>s'. tref_tick U cfg r now s = Some s' \<and> (\<forall>r'. task_returns U cfg s r' \<longrightarrow> task_returns U cfg s' r')"
proof (cases r)
  case TComms
  then obtain t where t: "sy_commsTask s = Some t" "cli_ok cfg (ct_cli t)"
    using assms by (auto simp: task_returns_def split: option.splits)
  from comms_tick_ok [OF t(2), of "pub_stream U" "pub_try_push cfg" "snapshot U cfg (sy_cores s)" "sy_pub s"] TComms t
  show ?thesis by (auto simp: tref_tick_def task_returns_def split: tref.splits)
next
  case (TUser n)
  then obtain p where "task_tick (user_task U n) now (sy_pub s) = Some p"
    using assms by (auto simp: task_returns_def)
  then have "tref_tick U cfg r now s = Some (s\<lparr>sy_pub := p\<rparr>)" using TUser by (simp add: tref_tick_def)
  then show ?thesis using task_returns_cong [of "s\<lparr>sy_pub := p\<rparr>" s] by auto
qed (use assms in \<open>auto simp: tref_tick_def task_returns_def on_pub_def split: tref.splits option.splits prod.splits\<close>)

lemma timed_tick_returns:
  assumes "task_returns U cfg s r"
  shows "\<exists>s'. timed_tick U cfg r now s = Some s' \<and> (\<forall>r'. task_returns U cfg s r' \<longrightarrow> task_returns U cfg s' r')"
  using tref_tick_returns [of U cfg "on_pub (timer_start U r) s" r now] assms by (auto simp: timed_tick_def)

definition returning :: "'u user \<Rightarrow> Cfg \<Rightarrow> tref list \<Rightarrow> 'u System \<Rightarrow> bool" where
  "returning U cfg rs s \<longleftrightarrow> (\<forall>r \<in> set rs. task_returns U cfg s r)"

lemma dispatch_slot_returns:
  assumes "task_returns U cfg s r"
  shows "\<exists>b' s'. dispatch_slot U cfg c now (t, r) (b, s) = Some (b', s') \<and>
     (\<forall>r'. task_returns U cfg s r' \<longrightarrow> task_returns U cfg s' r')"
  using timed_tick_returns [of U cfg "snd (period_gate U cfg c now t r s)" r now] assms
  by (auto simp: dispatch_slot_def)

lemma phase1_returns:
  "returning U cfg rs s \<Longrightarrow> \<exists>b' s'. phase1 U cfg c now t rs (b, s) = Some (b', s') \<and>
     (\<forall>r'. task_returns U cfg s r' \<longrightarrow> task_returns U cfg s' r')"
proof (induction rs arbitrary: t b s)
  case (Cons r rs)
  show ?case
  proof (cases "due U cfg c now s (t, r)")
    case True
    obtain b1 s1 where s1: "dispatch_slot U cfg c now (t, r) (b, s) = Some (b1, s1)"
        "\<forall>r'. task_returns U cfg s r' \<longrightarrow> task_returns U cfg s1 r'"
      using dispatch_slot_returns Cons.prems by (metis list.set_intros(1) returning_def)
    then have "returning U cfg rs s1" using Cons.prems by (auto simp: returning_def)
    from Cons.IH [OF this] s1 True show ?thesis by (fastforce simp: phase1_step simp del: phase1.simps)
  next
    case False
    then show ?thesis using Cons.IH [of s "Suc t" b] Cons.prems by (simp add: phase1_step returning_def del: phase1.simps)
  qed
qed simp

lemma ring_turn_returns:
  assumes "returning U cfg (sy_backgroundTasks s) s" "ring_ok s"
  shows "\<exists>u' s'. ring_turn U cfg now (u, s) = Some (u', s') \<and> ring_ok s' \<and>
     returning U cfg (sy_backgroundTasks s') s' \<and> (\<forall>r'. task_returns U cfg s r' \<longrightarrow> task_returns U cfg s' r')"
proof -
  let ?r = "sy_backgroundTasks s ! sy_bgRoundRobin s"
  let ?s = "s\<lparr>sy_bgRoundRobin := (sy_bgRoundRobin s + 1) mod length (sy_backgroundTasks s)\<rparr>"
  have same: "task_returns U cfg ?s r = task_returns U cfg s r" for r by (rule task_returns_cong) simp_all
  have "task_returns U cfg ?s ?r" using assms by (simp only: same) (simp add: returning_def ring_ok_def)
  from timed_tick_returns [OF this, of now, unfolded same] obtain s' where s': "timed_tick U cfg ?r now ?s = Some s'"
      "\<forall>r'. task_returns U cfg s r' \<longrightarrow> task_returns U cfg s' r'" by blast
  then have turn: "ring_turn U cfg now (u, s) = Some (u + lastDuration ?r (sy_pub s'), s')"
    by (simp add: ring_turn_def Let_def)
  have "0 < length (sy_backgroundTasks s)" using assms(2) unfolding ring_ok_def by linarith
  then have "ring_ok s'" using ring_turn_rr [OF turn] unfolding ring_ok_def by (metis mod_less_divisor)
  then show ?thesis using turn s'(2) assms(1) ring_turn_rr [OF turn] by (auto simp: returning_def)
qed

lemma phase2_loop_returns:
  "returning U cfg (sy_backgroundTasks s) s \<Longrightarrow> ring_ok s \<Longrightarrow>
   \<exists>u' s'. phase2_loop U cfg now g i n (u, s) = Some (u', s') \<and> (\<forall>r'. task_returns U cfg s r' \<longrightarrow> task_returns U cfg s' r')"
proof (induction n arbitrary: i u s)
  case (Suc n)
  have over: "task_returns U cfg (pass_over s) r = task_returns U cfg s r" for r
    by (rule task_returns_cong) (simp_all add: pass_over_def)
  obtain u1 s1 where s1: "ring_turn U cfg now (u, s) = Some (u1, s1)" "ring_ok s1"
      "returning U cfg (sy_backgroundTasks s1) s1" "\<forall>r'. task_returns U cfg s r' \<longrightarrow> task_returns U cfg s1 r'"
    using ring_turn_returns [OF Suc.prems] by metis
  from Suc.IH [OF s1(3,2)] show ?case
    using s1 over by (fastforce simp: phase2_loop_step simp del: phase2_loop.simps)
qed simp

lemma phase2_returns:
  assumes "returning U cfg (sy_backgroundTasks s) s" "sy_backgroundTasks s \<noteq> [] \<Longrightarrow> ring_ok s"
  shows "\<exists>b' s'. phase2 U cfg c now (b, s) = Some (b', s') \<and> (\<forall>r'. task_returns U cfg s r' \<longrightarrow> task_returns U cfg s' r')"
proof (cases "sy_backgroundTasks s = []")
  case False
  with phase2_loop_returns [OF assms(1,2), of now "gap_budget cfg b" 0 "length (sy_backgroundTasks s)" 0]
  show ?thesis by (auto simp: phase2_def)
qed (simp add: phase2_def)

definition ring_wf :: "'u System \<Rightarrow> bool" where
  "ring_wf s \<longleftrightarrow> (if sy_backgroundTasks s = [] then True else ring_ok s)"

lemma System_tick_ring_wf:
  assumes "System_tick U cfg c now s = Some s'" "c < kCoreCount cfg" "ring_wf s"
  shows "ring_wf s'"
proof -
  obtain b1 s1 b2 s2 where steps:
      "phase1 U cfg c now 0 (cd_tasks (sy_cores s ! c)) (0, tick_begin c now s) = Some (b1, s1)"
      "phase2 U cfg c now (b1, s1) = Some (b2, s2)" "s' = tick_end U cfg c now (b2, s2)"
    by (rule System_tickE [OF assms(1,2)])
  have "tick_effect s s1" using tick_begin_effect phase1_effect [OF steps(1)] tick_effect_trans by blast
  then have s1: "sy_backgroundTasks s1 = sy_backgroundTasks s" "sy_bgRoundRobin s1 = sy_bgRoundRobin s"
    using phase1_rr [OF steps(1)] by (simp_all add: tick_effect_fields(4) tick_begin_def on_pub_def Let_def)
  then have "ring_wf s1" using assms(3) by (auto simp: ring_wf_def ring_ok_def split: if_splits)
  then have "ring_wf s2"
    using steps(2) phase2_loop_ok tick_effect_fields(4) [OF conjunct1 [OF phase2_effect [OF steps(2)]]]
    by (fastforce simp: ring_wf_def phase2_def split: bind_splits if_splits)
  then show ?thesis by (auto simp: steps(3) tick_end_def ring_wf_def ring_ok_def split: prod.split if_splits)
qed

definition tickable :: "'u user \<Rightarrow> Cfg \<Rightarrow> nat \<Rightarrow> 'u System \<Rightarrow> bool" where
  "tickable U cfg c s \<longleftrightarrow> sy_built s \<and> returning U cfg (cd_tasks (sy_cores s ! c) @ sy_backgroundTasks s) s \<and> ring_wf s"

lemma System_tick_tickable:
  assumes "tickable U cfg c s" "c < kCoreCount cfg"
  shows "\<exists>s'. System_tick U cfg c now s = Some s' \<and> tickable U cfg c s'"
proof -
  let ?s0 = "tick_begin c now s"
  have ok: "sy_built s" "returning U cfg (cd_tasks (sy_cores s ! c) @ sy_backgroundTasks s) s" "ring_wf s"
    using assms(1) by (simp_all add: tickable_def)
  have "returning U cfg (cd_tasks (sy_cores s ! c)) ?s0" using ok(2) by (simp add: returning_def)
  from phase1_returns [OF this] obtain b1 s1 where s1:
      "phase1 U cfg c now 0 (cd_tasks (sy_cores s ! c)) (0, ?s0) = Some (b1, s1)"
      "\<forall>r'. task_returns U cfg s r' \<longrightarrow> task_returns U cfg s1 r'" by fastforce
  have eff: "tick_effect s s1" using tick_begin_effect phase1_effect [OF s1(1)] tick_effect_trans by blast
  have rr: "sy_bgRoundRobin s1 = sy_bgRoundRobin s"
    using phase1_rr [OF s1(1)] by (simp add: tick_begin_def on_pub_def Let_def)
  have "returning U cfg (sy_backgroundTasks s1) s1" "sy_backgroundTasks s1 \<noteq> [] \<Longrightarrow> ring_ok s1"
    using ok(2,3) s1(2) rr tick_effect_fields(4) [OF eff] by (auto simp: returning_def ring_ok_def ring_wf_def)
  from phase2_returns [OF this] obtain b2 s2 where s2: "phase2 U cfg c now (b1, s1) = Some (b2, s2)"
      "\<forall>r'. task_returns U cfg s1 r' \<longrightarrow> task_returns U cfg s2 r'" by blast
  have "sy_cores ?s0 = sy_cores s" "sy_built ?s0 = sy_built s"
    using tick_effect_fields(6,7) [OF conjunct1 [OF tick_begin_effect]] by blast+
  then have t: "System_tick U cfg c now s = Some (tick_end U cfg c now (b2, s2))"
    using ok(1) assms(2) s1(1) s2(1) by (simp add: System_tick_def Let_def)
  from tick_effect_fields(4,6,7) [OF System_tick_effect [OF t]] show ?thesis
    using t ok s1(2) s2(2) System_tick_ring_wf [OF t assms(2)] by (auto simp: tickable_def returning_def)
qed

lemma System_ticks_tickable:
  "tickable U cfg c s \<Longrightarrow> c < kCoreCount cfg \<Longrightarrow> \<exists>s'. System_ticks U cfg c nows s = Some s' \<and> tickable U cfg c s'"
proof (induction nows arbitrary: s)
  case (Cons now nows)
  obtain s1 where "System_tick U cfg c now s = Some s1" "tickable U cfg c s1"
    using System_tick_tickable [OF Cons.prems] by blast
  with Cons.IH [of s1] Cons.prems(2) show ?case by simp
qed simp

section \<open>Properties\<close>

text \<open>A built system with one scheduled user task (period 20 ms) and a slow background task beside the
  diagnostics task.\<close>

definition example_system :: "example_user_state System" where
  "example_system = (System_static example_cfg example_state)\<lparr>sy_built := True, sy_kernelState := RUNNING,
     sy_diagsTask := Some (DiagnosticsTask_init False 10000),
     sy_cores := [\<lparr>cd_tasks = [TUser 20], cd_mode = FLAT_LOOP, cd_crunchTask = None\<rparr>, CoreData_init],
     sy_backgroundTasks := [TUser 95, TDiags], sy_lastDispatch := [[0], [0]],
     sy_pub := (pub_init example_cfg example_state)\<lparr>timers := (\<lambda>_. TaskTimer_init\<lparr>tt_clockSource := True\<rparr>)\<rparr>\<rparr>"

lemma example_system_tickable: "tickable example_user example_cfg 0 example_system"
  by (simp add: tickable_def example_system_def System_static_def returning_def task_returns_def ring_wf_def
      ring_ok_def example_user_def example_task_def)

text \<open>A tick always returns. On a built system whose kernel tasks exist and whose user tasks return, every
  sequence of ticks of a core at any times completes, and the system can be ticked again.\<close>

theorem ticks_return:
  assumes "tickable U cfg c s" "c < kCoreCount cfg"
  shows "\<exists>s'. System_ticks U cfg c nows s = Some s' \<and> tickable U cfg c s'"
  using System_ticks_tickable [OF assms] .

theorem ticks_return_witness:
  "\<exists>s'. System_ticks example_user example_cfg 0 [1000, 500, 7] example_system = Some s' \<and>
     tickable example_user example_cfg 0 s'"
  by (rule ticks_return) (simp_all add: example_system_tickable)

text \<open>C5: the scheduler dispatches exactly the due tasks, in list order. Phase one of a tick is the sequential
  composition of one timed dispatch (stamp, start, tick, stop, deadline check) for each slot whose period has
  elapsed when the tick begins, in the order of the task list; whether a slot is due does not depend on the
  tasks dispatched before it, and a task that does not return stops the phase there.\<close>

theorem due_tasks_in_order:
  "phase1 U cfg coreId now 0 rs (0, s) =
     foldM (dispatch_slot U cfg coreId now) (filter (due U cfg coreId now s) (enumerate 0 rs)) (0, s)"
  by (rule phase1_foldM)

text \<open>C6: Kernel-managed periods are respected. Every completed run of ticks of a core is, state for state, the run that
  in each tick dispatches certain slots, in list order, and no other: the times at which a kernel-managed task is
  dispatched are exactly those a rate limiter of its period lets pass, a task without such a period is dispatched in
  every tick, and at non-zero times two consecutive dispatches of a managed task are at least its period apart.\<close>

theorem period_respected:
  assumes "System_ticks U cfg c nows s = Some s'" "c < kCoreCount cfg" "slots_ok c s" "rs = cd_tasks (sy_cores s ! c)"
  shows "\<exists>D. exec_ticks U cfg c (zip nows D) s = Some s' \<and> length D = length nows \<and>
     (\<forall>ds \<in> set D. subseq ds (enumerate 0 rs)) \<and>
     (\<forall>t < length rs. times_of (t, rs ! t) (zip nows D) =
        (if managed U cfg (rs ! t) then rate_limit (tref_periodUs U cfg (rs ! t)) (sy_lastDispatch s ! c ! t) nows else nows) \<and>
        (managed U cfg (rs ! t) \<and> 0 \<notin> set nows \<longrightarrow>
           successively (\<lambda>a b. tref_periodUs U cfg (rs ! t) \<le> b - a) (times_of (t, rs ! t) (zip nows D))))"
proof -
  obtain D where D: "exec_ticks U cfg c (zip nows D) s = Some s'" "schedule_ok U cfg rs (sy_lastDispatch s ! c) nows D"
    using System_ticks_schedule [OF assms(1-3)] assms(4) by blast
  with rate_limit_spaced [of nows] show ?thesis by (intro exI [of _ D]) (simp add: schedule_ok_def)
qed

text \<open>Three ticks of the example system, 11 and 21 ms apart: its task with a period of 20 ms is dispatched in the first
  and the third, and its own record of its runs shows two.\<close>

theorem period_respected_witness:
  "\<exists>s' D. System_ticks example_user example_cfg 0 [1000, 12000, 22000] example_system = Some s' \<and>
     exec_ticks example_user example_cfg 0 (zip [1000, 12000, 22000] D) example_system = Some s' \<and>
     times_of (0, TUser 20) (zip [1000, 12000, 22000] D) = [1000, 22000] \<and>
     successively (\<lambda>a b. 20000 \<le> b - a) (times_of (0, TUser 20) (zip [1000, 12000, 22000] D)) \<and>
     filter ((=) 20) (ex_ran (world (sy_pub s'))) = [20, 20]"
proof -
  let ?nows = "[1000, 12000, 22000]"
  obtain s' where s': "System_ticks example_user example_cfg 0 ?nows example_system = Some s'"
    using System_ticks_tickable [OF example_system_tickable, of ?nows] by auto
  have "map_option (\<lambda>s. filter ((=) 20) (ex_ran (world (sy_pub s))))
      (System_ticks example_user example_cfg 0 ?nows example_system) = Some [20, 20]"
    by code_simp
  then have ran: "filter ((=) 20) (ex_ran (world (sy_pub s'))) = [20, 20]" by (simp only: s' option.map option.inject)
  have ok: "slots_ok 0 example_system" "managed example_user example_cfg (TUser 20)"
    by (simp_all add: slots_ok_def example_system_def System_static_def managed_def tref_isScheduled_def
        tref_kernelManagedPeriod_def tref_periodUs_def example_user_def example_task_def)
  have slot: "[TUser 20] = cd_tasks (sy_cores example_system ! 0)" "sy_lastDispatch example_system ! 0 ! 0 = 0"
    by (simp_all add: example_system_def)
  have period: "tref_periodUs example_user example_cfg (TUser 20) = 20000"
    by (simp add: tref_periodUs_def example_user_def example_task_def)
  have times: "rate_limit 20000 0 ?nows = [1000, 22000]"
    by code_simp
  have "\<exists>D. exec_ticks example_user example_cfg 0 (zip ?nows D) example_system = Some s' \<and>
      times_of (0, TUser 20) (zip ?nows D) = [1000, 22000] \<and>
      successively (\<lambda>a b. 20000 \<le> b - a) (times_of (0, TUser 20) (zip ?nows D))"
    using period_respected [OF s' _ ok(1) slot(1)] ok(2) by (auto simp: period times slot(2) simp del: rate_limit.simps)
  with s' ran show ?thesis by blast
qed

text \<open>C25: the background ring always moves. When a core's tick reaches the ring, the tasks it runs are the
  \<open>k\<close> consecutive ones from the current head, with at least one of them whatever the budget; when it stops
  before the ring is through, the next task did not fit the gap, and that task is passed over: the following
  tick begins behind it.\<close>

theorem background_ring_progress:
  assumes "ring_ok s" "coreId = sy_backgroundCoreId s" "phase2 U cfg coreId now (busy, s) = Some (busy', s')"
  shows "\<exists>k used s1. 1 \<le> k \<and> k \<le> length (sy_backgroundTasks s) \<and> busy' = busy + used \<and>
     ring_turns U cfg now k (0, s) = Some (used, s1) \<and>
     (if k = length (sy_backgroundTasks s) then s' = s1
      else over_budget U (gap_budget cfg busy) (used, s1) \<and> s' = pass_over s1) \<and>
     sy_bgRoundRobin s' = (if k = length (sy_backgroundTasks s) then sy_bgRoundRobin s
       else (sy_bgRoundRobin s + k + 1) mod length (sy_backgroundTasks s))"
proof -
  have "sy_backgroundTasks s \<noteq> []" using assms(1) by (auto simp: ring_ok_def)
  with assms(2,3) obtain used where
      "phase2_loop U cfg now (gap_budget cfg busy) 0 (length (sy_backgroundTasks s)) (0, s) = Some (used, s')"
      "busy' = busy + used"
    by (auto simp: phase2_def split: bind_splits)
  with phase2_loop_head [OF this(1) refl assms(1)] show ?thesis by blast
qed

theorem background_ring_progress_witness:
  "\<exists>busy' s' k used s1. phase2 example_user example_cfg 0 5000 (0, example_system) = Some (busy', s') \<and>
     1 \<le> k \<and> k \<le> length (sy_backgroundTasks example_system) \<and> busy' = 0 + used \<and>
     ring_turns example_user example_cfg 5000 k (0, example_system) = Some (used, s1) \<and>
     (if k = length (sy_backgroundTasks example_system) then s' = s1
      else over_budget example_user (gap_budget example_cfg 0) (used, s1) \<and> s' = pass_over s1) \<and>
     sy_bgRoundRobin s' = (if k = length (sy_backgroundTasks example_system) then sy_bgRoundRobin example_system
       else (sy_bgRoundRobin example_system + k + 1) mod length (sy_backgroundTasks example_system))"
proof -
  have "phase2 example_user example_cfg 0 5000 (0, example_system) \<noteq> None"
    by code_simp
  then obtain busy' s' where "phase2 example_user example_cfg 0 5000 (0, example_system) = Some (busy', s')"
    by auto
  moreover have "ring_ok example_system" "0 = sy_backgroundCoreId example_system"
    by (simp_all add: ring_ok_def example_system_def System_static_def)
  ultimately show ?thesis using background_ring_progress by blast
qed

text \<open>The ring can starve the diagnostics task, although \<^verbatim>\<open>System.h\<close> promises that it can always monitor.
  With one user background task before it in the ring, and as long as each run of that task leaves less than
  the diagnostics budget of the control budget, the diagnostics task is passed over in every tick: over any
  number of ticks its state (its cycle counter included) does not change, it never kicks the watchdog, never
  scans the budgets and never drains the telemetry.\<close>

theorem diagnostics_starved:
  assumes "starving c A s" "c < kCoreCount cfg"
    and "System_ticks U cfg c nows s = Some s'" "head_slow U cfg c nows s"
  shows "starving c A s' \<and> sy_diagsTask s' = sy_diagsTask s"
  using assms(1,3,4)
proof (induction nows arbitrary: s)
  case (Cons now nows)
  then obtain s1 where s1: "System_tick U cfg c now s = Some s1" "System_ticks U cfg c nows s1 = Some s'"
    by (auto split: bind_splits)
  from slow_head_tick [OF Cons.prems(1) assms(2) s1(1) Cons.prems(3)] Cons.IH s1(2) show ?case by metis
qed simp

theorem diagnostics_starved_witness:
  "\<exists>s'. System_ticks example_user example_cfg 0 [1000] example_system = Some s' \<and>
     starving 0 (TUser 95) s' \<and> sy_diagsTask s' = sy_diagsTask example_system"
proof -
  have "System_ticks example_user example_cfg 0 [1000] example_system \<noteq> None"
    using System_ticks_tickable [OF example_system_tickable, of "[1000]"] by auto
  moreover have "head_slow example_user example_cfg 0 [1000] example_system"
    unfolding head_slow_once by code_simp
  moreover have "starving 0 (TUser 95) example_system"
    by (simp add: starving_def example_system_def System_static_def)
  ultimately show ?thesis using diagnostics_starved [of 0 "TUser 95" example_system example_cfg] by fastforce
qed

end
