(* ===== verification/KernelRun.thy ===== *)
theory KernelRun
  imports KernelTick
begin

text \<open>
  The blocking entry points: \<^verbatim>\<open>kernel/CrunchDispatcher.h\<close> (\<^verbatim>\<open>configure\<close>, \<^verbatim>\<open>runLoop\<close>) and \<^verbatim>\<open>System<Cfg>::run\<close> of
  \<^verbatim>\<open>kernel/System.h\<close>.

  They are the code of one core. What the other cores do to the system between two iterations of a loop is
  the argument \<open>env\<close>, and what they do inside the barriers the arguments \<open>startup\<close> and \<open>shutdown\<close> (see the
  theory \<open>Sync\<close>). The loops are partial functions: \<open>None\<close> is not returning. The lemmas show when they return, for
  which reasons a crunch loop is left and that it is left after the configured number of overruns in a row, and that
  \<open>run\<close> ends in SHUTDOWN. The tests and stores of the kernel state at the end of \<open>run\<close> are one step here; the theory
  \<open>KernelRace\<close> cuts them into single accesses and interleaves them with the other cores'.
\<close>

section \<open>The crunch dispatcher\<close>

definition crunch_configure :: "nat \<Rightarrow> bool \<Rightarrow> 'u System \<Rightarrow> 'u System" where
  "crunch_configure n kickFn s =
     s\<lparr>sy_crunchDispatcher := (sy_crunchDispatcher s)\<lparr>cr_task := Some n, cr_watchdogKick := kickFn\<rparr>\<rparr>"

definition crunch_soft_abort :: "'u user \<Rightarrow> nat \<Rightarrow> 'u System \<Rightarrow> 'u System" where
  "crunch_soft_abort U n s =
     (let (now, p) = pub_now U (onCrunchAbort (crunch_task U n) (sy_pub s)) in
      s\<lparr>sy_pub := log_error SOFT_ABORT now 0 p\<rparr>)"

text \<open>The watchdog kicks and the timed iteration; the result is the time of the iteration, its duration and the
  state.\<close>

definition crunch_timed :: "'u user \<Rightarrow> nat \<Rightarrow> nat \<Rightarrow> 'u System \<Rightarrow> (micros \<times> micros \<times> 'u System) option" where
  "crunch_timed U coreId n s =
     (let (now, p) = pub_now U (sy_pub s);
          p = p\<lparr>watchdog := kick coreId now (watchdog p)\<rparr>;
          p = (if cr_watchdogKick (sy_crunchDispatcher s) then watchdogKick U p else p);
          (start, p) = pub_now U p in do {
        p \<leftarrow> crunch (crunch_task U n) now p;
        let (fin, p) = pub_now U p;
        Some (now, fin - start, s\<lparr>sy_pub := p\<rparr>) })"

definition count_overrun :: "micros \<Rightarrow> micros \<Rightarrow> 'u System \<Rightarrow> 'u System" where
  "count_overrun now elapsed s =
     (let d = sy_crunchDispatcher s in
      s\<lparr>sy_crunchDispatcher := d\<lparr>cr_consecutiveOverruns := cr_consecutiveOverruns d + 1,
          cr_totalOverruns := cr_totalOverruns d + 1\<rparr>,
        sy_pub := log_error CRUNCH_OVERRUN now (f32_of_u64 elapsed) (sy_pub s)\<rparr>)"

definition reset_overruns :: "'u System \<Rightarrow> 'u System" where
  "reset_overruns s = s\<lparr>sy_crunchDispatcher := (sy_crunchDispatcher s)\<lparr>cr_consecutiveOverruns := 0\<rparr>\<rparr>"

definition too_many_overruns :: "Cfg \<Rightarrow> 'u System \<Rightarrow> bool" where
  "too_many_overruns cfg s \<longleftrightarrow> CfgCrunchMaxOverruns cfg > 0 \<and>
     cr_consecutiveOverruns (sy_crunchDispatcher s) \<ge> CfgCrunchMaxOverruns cfg"

definition crunch_hard_fault :: "'u user \<Rightarrow> nat \<Rightarrow> micros \<Rightarrow> 'u System \<Rightarrow> 'u System" where
  "crunch_hard_fault U n now s =
     s\<lparr>sy_pub := log_error HARD_FAULT now (f32_of_u32 (cr_consecutiveOverruns (sy_crunchDispatcher s)))
        (onCrunchAbort (crunch_task U n) (sy_pub s))\<rparr>"

text \<open>One pass of the loop body after the abort check: whether the loop goes on, and the state.\<close>

definition crunch_iteration :: "'u user \<Rightarrow> Cfg \<Rightarrow> nat \<Rightarrow> nat \<Rightarrow> 'u System \<Rightarrow> (bool \<times> 'u System) option" where
  "crunch_iteration U cfg coreId n s = do {
     (now, elapsed, s) \<leftarrow> crunch_timed U coreId n s;
     if elapsed > maxIterationUs (crunch_task U n) then
       let s = count_overrun now elapsed s in
       if too_many_overruns cfg s then Some (False, crunch_hard_fault U n now s) else Some (True, s)
     else Some (True, reset_overruns s) }"

text \<open>All cores share one dispatcher, so that the task is read from it again in every pass; \<open>None\<close> is also the use of a
  null task.\<close>

partial_function (option) crunch_loop ::
    "('u System \<Rightarrow> 'u System) \<Rightarrow> 'u user \<Rightarrow> Cfg \<Rightarrow> nat \<Rightarrow> 'u System \<Rightarrow> 'u System option" where
  "crunch_loop env U cfg coreId s =
     (let s = env s in
      if isActiveState (sy_kernelState s) then
        let (fired, s) = anyStopConditionFired U s in
        if fired then Some s
        else do {
          n \<leftarrow> cr_task (sy_crunchDispatcher s);
          if isSafetyAborted (sy_pub s) then Some (crunch_soft_abort U n s)
          else do {
            (continues, s) \<leftarrow> crunch_iteration U cfg coreId n s;
            if continues then crunch_loop env U cfg coreId s else Some s } }
      else Some s)"

definition clear_overruns :: "'u System \<Rightarrow> 'u System" where
  "clear_overruns s =
     s\<lparr>sy_crunchDispatcher := (sy_crunchDispatcher s)\<lparr>cr_consecutiveOverruns := 0, cr_totalOverruns := 0\<rparr>\<rparr>"

definition crunch_runLoop ::
    "('u System \<Rightarrow> 'u System) \<Rightarrow> 'u user \<Rightarrow> Cfg \<Rightarrow> nat \<Rightarrow> 'u System \<Rightarrow> 'u System option" where
  "crunch_runLoop env U cfg coreId s =
     (let s = clear_overruns s in
      if isSafetyAborted (sy_pub s) then do {
        n \<leftarrow> cr_task (sy_crunchDispatcher s);
        Some (crunch_soft_abort U n s) }
      else crunch_loop env U cfg coreId s)"

section \<open>The run loop\<close>

partial_function (option) flat_loop ::
    "('u System \<Rightarrow> 'u System) \<Rightarrow> 'u user \<Rightarrow> Cfg \<Rightarrow> nat \<Rightarrow> 'u System \<Rightarrow> 'u System option" where
  "flat_loop env U cfg coreId s =
     (let s = env s in
      if isActiveState (sy_kernelState s) then
        let (fired, s) = anyStopConditionFired U s in
        if fired then Some s
        else
          let (now, p) = pub_now U (sy_pub s) in do {
            s \<leftarrow> System_tick U cfg coreId now (s\<lparr>sy_pub := p\<rparr>);
            flat_loop env U cfg coreId s }
      else Some s)"

definition run_init :: "'u user \<Rightarrow> Cfg \<Rightarrow> nat \<Rightarrow> 'u System \<Rightarrow> 'u System option" where
  "run_init U cfg coreId s =
     (let s = (if kMultiCore cfg then s\<lparr>sy_sync := setInit coreId (sy_sync s)\<rparr> else s) in
      if \<not> sy_coreInitialized s ! coreId then System_init U cfg coreId s else Some s)"

definition run_dispatch ::
    "('u System \<Rightarrow> 'u System) \<Rightarrow> 'u user \<Rightarrow> Cfg \<Rightarrow> nat \<Rightarrow> 'u System \<Rightarrow> 'u System option" where
  "run_dispatch env U cfg coreId s =
     (let core = sy_cores s ! coreId in
      if cd_mode core = CRUNCH \<and> cd_crunchTask core \<noteq> None
      then crunch_runLoop env U cfg coreId (crunch_configure (the (cd_crunchTask core)) (sy_watchdogKickFn s) s)
      else flat_loop env U cfg coreId s)"

text \<open>Phase 5 of \<^verbatim>\<open>run\<close>, undisturbed (see \<open>KernelRace\<close> for its single accesses).\<close>

definition run_shutdown :: "'u System \<Rightarrow> 'u System" where
  "run_shutdown s =
     (let s = (if sy_kernelState s = RUNNING then snd (transitionTo SHUTTING_DOWN s) else s) in
      if sy_kernelState s = SHUTTING_DOWN then snd (transitionTo SHUTDOWN s) else s)"

definition System_run ::
    "('u System \<Rightarrow> 'u System) \<Rightarrow> (nat \<Rightarrow> CoreState list \<Rightarrow> CoreState list) \<Rightarrow> (nat \<Rightarrow> CoreState list \<Rightarrow> CoreState list) \<Rightarrow>
     'u user \<Rightarrow> Cfg \<Rightarrow> nat \<Rightarrow> 'u System \<Rightarrow> 'u System option" where
  "System_run env startup shutdown U cfg coreId s =
     (if \<not> sy_built s then None
      else if coreId \<ge> kCoreCount cfg then Some s
      else do {
        s \<leftarrow> run_init U cfg coreId s;
        s \<leftarrow> (if kMultiCore cfg then do {
               (ready, m) \<leftarrow> startupBarrier startup coreId 2000 1 (sy_sync s);
               Some (s\<lparr>sy_sync := m\<rparr>) } else Some s);
        s \<leftarrow> run_dispatch env U cfg coreId s;
        let s = run_shutdown s;
        (if kMultiCore cfg then do {
           (terminated, m) \<leftarrow> shutdownBarrier shutdown coreId 2000 1 (sy_sync s);
           Some (s\<lparr>sy_sync := m\<rparr>) } else Some s) })"

section \<open>Leaving the flat loop\<close>

text \<open>Within \<open>k\<close> passes the loop is told to stop: the kernel state is no longer active, or a stop condition holds.\<close>

fun stops_within :: "('u System \<Rightarrow> 'u System) \<Rightarrow> 'u user \<Rightarrow> Cfg \<Rightarrow> nat \<Rightarrow> nat \<Rightarrow> 'u System \<Rightarrow> bool" where
  "stops_within env U cfg c 0 s = False"
| "stops_within env U cfg c (Suc k) s =
     (let s = env s in
      if isActiveState (sy_kernelState s) then
        let (fired, s) = anyStopConditionFired U s in
        if fired then True
        else
          let (now, p) = pub_now U (sy_pub s) in
          (case System_tick U cfg c now (s\<lparr>sy_pub := p\<rparr>) of None \<Rightarrow> False
           | Some s \<Rightarrow> stops_within env U cfg c k s)
      else True)"

text \<open>The kernel states of a system that runs or has run.\<close>

definition runs :: "'u System \<Rightarrow> bool" where
  "runs s \<longleftrightarrow> sy_kernelState s \<in> {RUNNING, SHUTTING_DOWN, SHUTDOWN}"

lemma anyStopConditionFired_frame:
  "snd (anyStopConditionFired U s) = s\<lparr>sy_pub := sy_pub (snd (anyStopConditionFired U s))\<rparr>"
  by (simp add: anyStopConditionFired_def split: prod.split)

lemma anyStopConditionFired_fields:
  assumes "anyStopConditionFired U s = (b, s')"
  shows "sy_kernelState s' = sy_kernelState s" "sy_diagsTask s' = sy_diagsTask s"
    "sy_crunchDispatcher s' = sy_crunchDispatcher s"
  using assms by (auto simp: anyStopConditionFired_def split: prod.splits)

lemma flat_loop_returns:
  assumes "\<And>s. runs s \<Longrightarrow> runs (env s)"
  shows "stops_within env U cfg c k s \<Longrightarrow> runs s \<Longrightarrow> \<exists>s'. flat_loop env U cfg c s = Some s' \<and> runs s'"
proof (induction k arbitrary: s)
  case (Suc k)
  have env: "runs (env s)" using assms Suc.prems(2) by blast
  show ?case
  proof (cases "isActiveState (sy_kernelState (env s))")
    case active: True
    obtain fired s1 where s1: "anyStopConditionFired U (env s) = (fired, s1)" by fastforce
    have r1: "runs s1" using env anyStopConditionFired_fields(1) [OF s1] by (simp add: runs_def)
    show ?thesis
    proof (cases fired)
      case True
      with s1 active r1 show ?thesis by (subst flat_loop.simps) simp
    next
      case False
      obtain now p where now: "pub_now U (sy_pub s1) = (now, p)" by fastforce
      obtain s2 where s2: "System_tick U cfg c now (s1\<lparr>sy_pub := p\<rparr>) = Some s2" "stops_within env U cfg c k s2"
        using Suc.prems(1) active s1 False now by (auto split: option.splits)
      have "runs s2" using r1 tick_effect_fields(8) [OF System_tick_effect [OF s2(1)]] by (simp add: runs_def)
      from Suc.IH [OF s2(2) this] show ?thesis
        using active s1 False now s2(1) by (subst flat_loop.simps) simp
    qed
  qed (use env in \<open>subst flat_loop.simps, simp\<close>)
qed simp

section \<open>Initialisation and shutdown of a core\<close>

lemma tref_init_fields:
  assumes "tref_init U cfg r s = Some s'"
  shows "sy_kernelState s' = sy_kernelState s" "sy_cores s' = sy_cores s" "sy_sync s' = sy_sync s"
    "sy_backgroundTasks s' = sy_backgroundTasks s" "sy_backgroundCoreId s' = sy_backgroundCoreId s"
  using assms by (auto simp: tref_init_def on_pub_def split: tref.splits option.splits prod.splits)

lemma init_tasks_fields:
  assumes "init_tasks U cfg rs s = Some s'"
  shows "sy_kernelState s' = sy_kernelState s" "sy_cores s' = sy_cores s" "sy_sync s' = sy_sync s"
    "sy_backgroundTasks s' = sy_backgroundTasks s" "sy_backgroundCoreId s' = sy_backgroundCoreId s"
  using assms by (induction rs arbitrary: s) (auto split: bind_splits simp: tref_init_fields)

lemma transitionTo_fields:
  "sy_cores (snd (transitionTo st s)) = sy_cores s" "sy_sync (snd (transitionTo st s)) = sy_sync s"
  "sy_backgroundTasks (snd (transitionTo st s)) = sy_backgroundTasks s"
  "sy_backgroundCoreId (snd (transitionTo st s)) = sy_backgroundCoreId s"
  "sy_kernelState (snd (transitionTo st s)) = (if valid_transition (sy_kernelState s) st then st else sy_kernelState s)"
  by (simp_all add: transitionTo_def on_pub_def)

lemma System_init_fields:
  assumes "System_init U cfg c s = Some s'" "c < kCoreCount cfg"
  shows "sy_cores s' = sy_cores s" "sy_sync s' = sy_sync s"
    "sy_kernelState s' = (if sy_kernelState s \<in> {CONFIGURED, INITIALIZING} then RUNNING else sy_kernelState s)"
  using assms
  by (auto simp: System_init_def Let_def init_tasks_fields tref_init_fields transitionTo_fields
      split: bind_splits if_splits option.splits)

lemma run_shutdown_state:
  "sy_kernelState (run_shutdown s) =
     (if sy_kernelState s \<in> {RUNNING, SHUTTING_DOWN} then SHUTDOWN else sy_kernelState s)"
  by (simp add: run_shutdown_def Let_def transitionTo_fields)

lemma run_shutdown_runs: "runs s \<Longrightarrow> sy_kernelState (run_shutdown s) = SHUTDOWN"
  by (auto simp: runs_def run_shutdown_state)

lemma run_init_ok:
  assumes "run_init U cfg c s = Some s'" "c < kCoreCount cfg" "sy_kernelState s = CONFIGURED \<and> \<not> sy_coreInitialized s ! c \<or> runs s"
  shows "runs s' \<and> sy_cores s' = sy_cores s \<and>
     length (mc_states (sy_sync s')) = length (mc_states (sy_sync s))"
proof (cases "sy_coreInitialized s ! c")
  case True
  have "s' = (if kMultiCore cfg then s\<lparr>sy_sync := setInit c (sy_sync s)\<rparr> else s)"
    using True assms(1) by (cases "kMultiCore cfg") (simp_all add: run_init_def)
  with assms(3) True show ?thesis by (auto simp: runs_def setInit_def set_state_def)
next
  case False
  let ?s = "if kMultiCore cfg then s\<lparr>sy_sync := setInit c (sy_sync s)\<rparr> else s"
  have "System_init U cfg c ?s = Some s'" using assms(1) False by (cases "kMultiCore cfg") (simp_all add: run_init_def)
  from System_init_fields [OF this assms(2)] assms(3) show ?thesis
    by (auto simp: runs_def setInit_def set_state_def split: if_splits)
qed

lemma startupBarrier_some:
  assumes "own_kept peers c"
  shows "\<exists>r m'. startupBarrier peers c 2000 1 m = Some (r, m')"
  using startup_barrier_returns [OF _ _ assms(1), of 1 2000 m] by simp

lemma shutdownBarrier_some: "\<exists>r m'. shutdownBarrier peers c 2000 1 m = Some (r, m')"
  unfolding shutdownBarrier_def by (rule shutdown_loop_some) simp_all

section \<open>Leaving the crunch loop\<close>

text \<open>The state at the head of a crunch loop after \<open>k\<close> complete passes; \<open>None\<close> when the loop is left earlier.\<close>

fun crunch_passes ::
    "('u System \<Rightarrow> 'u System) \<Rightarrow> 'u user \<Rightarrow> Cfg \<Rightarrow> nat \<Rightarrow> nat \<Rightarrow> 'u System \<Rightarrow> 'u System option" where
  "crunch_passes env U cfg c 0 s = Some s"
| "crunch_passes env U cfg c (Suc k) s =
     (let (fired, s') = anyStopConditionFired U (env s) in
      if \<not> isActiveState (sy_kernelState (env s)) \<or> fired \<or> isSafetyAborted (sy_pub s') then None
      else case cr_task (sy_crunchDispatcher s') of None \<Rightarrow> None | Some n \<Rightarrow>
        (case crunch_iteration U cfg c n s' of
           Some (True, s'') \<Rightarrow> crunch_passes env U cfg c k s'' | _ \<Rightarrow> None))"

text \<open>The four ways the loop is left at a head, from the state \<open>s\<close> its tests see to the state it returns in: the kernel
  is no longer active, a stop condition fires, the safety abort is up, or this iteration is the overrun that
  reaches the limit.\<close>

inductive crunch_exit :: "'u user \<Rightarrow> Cfg \<Rightarrow> nat \<Rightarrow> 'u System \<Rightarrow> 'u System \<Rightarrow> bool" for U cfg c where
  inactive: "\<not> isActiveState (sy_kernelState s) \<Longrightarrow> crunch_exit U cfg c s s"
| stopped: "isActiveState (sy_kernelState s) \<Longrightarrow> anyStopConditionFired U s = (True, s') \<Longrightarrow> crunch_exit U cfg c s s'"
| aborted: "isActiveState (sy_kernelState s) \<Longrightarrow> anyStopConditionFired U s = (False, s1) \<Longrightarrow>
    isSafetyAborted (sy_pub s1) \<Longrightarrow> cr_task (sy_crunchDispatcher s1) = Some n \<Longrightarrow>
    crunch_exit U cfg c s (crunch_soft_abort U n s1)"
| overrun_limit: "isActiveState (sy_kernelState s) \<Longrightarrow> anyStopConditionFired U s = (False, s1) \<Longrightarrow>
    \<not> isSafetyAborted (sy_pub s1) \<Longrightarrow> cr_task (sy_crunchDispatcher s1) = Some n \<Longrightarrow>
    crunch_timed U c n s1 = Some (now, elapsed, s2) \<Longrightarrow> maxIterationUs (crunch_task U n) < elapsed \<Longrightarrow>
    too_many_overruns cfg (count_overrun now elapsed s2) \<Longrightarrow>
    crunch_exit U cfg c s (crunch_hard_fault U n now (count_overrun now elapsed s2))"

lemma crunch_timed_dispatcher:
  "crunch_timed U c n s = Some (now, el, s') \<Longrightarrow> sy_crunchDispatcher s' = sy_crunchDispatcher s"
  by (auto simp: crunch_timed_def Let_def split: prod.splits bind_splits)

lemma crunch_iteration_leaves:
  "crunch_iteration U cfg c n s = Some (False, s') \<longleftrightarrow>
     (\<exists>now el s2. crunch_timed U c n s = Some (now, el, s2) \<and> maxIterationUs (crunch_task U n) < el \<and>
        too_many_overruns cfg (count_overrun now el s2) \<and> s' = crunch_hard_fault U n now (count_overrun now el s2))"
  by (cases "crunch_timed U c n s") (auto simp: crunch_iteration_def Let_def split: if_splits)

text \<open>What the loop does at a head: it is left, or it makes one complete pass.\<close>

lemma crunch_loop_exit: "crunch_exit U cfg c (env s) s' \<Longrightarrow> crunch_loop env U cfg c s = Some s'"
proof (induction "env s" s' rule: crunch_exit.induct)
  case (overrun_limit s1 n now elapsed s2)
  then have "crunch_iteration U cfg c n s1 = Some (False, crunch_hard_fault U n now (count_overrun now elapsed s2))"
    by (simp add: crunch_iteration_leaves)
  with overrun_limit(1-4) show ?case by (subst crunch_loop.simps) simp
qed (subst crunch_loop.simps, simp)+

lemma crunch_loop_passes:
  "crunch_passes env U cfg c k s = Some s' \<Longrightarrow> crunch_loop env U cfg c s = crunch_loop env U cfg c s'"
proof (induction k arbitrary: s)
  case (Suc k)
  obtain fired s1 where s1: "anyStopConditionFired U (env s) = (fired, s1)" by fastforce
  with Suc.prems obtain n s2 where s2: "isActiveState (sy_kernelState (env s))" "\<not> fired" "\<not> isSafetyAborted (sy_pub s1)"
      "cr_task (sy_crunchDispatcher s1) = Some n"
      "crunch_iteration U cfg c n s1 = Some (True, s2)" "crunch_passes env U cfg c k s2 = Some s'"
    by (auto split: if_splits option.splits prod.splits bool.splits)
  have "crunch_loop env U cfg c s = crunch_loop env U cfg c s2"
    using s1 s2(1-5) by (subst crunch_loop.simps) simp
  with Suc.IH [OF s2(6)] show ?case by simp
qed simp

lemma crunch_loop_left:
  assumes "crunch_loop env U cfg c s = Some s'"
  shows "\<exists>k sk. crunch_passes env U cfg c k s = Some sk \<and> crunch_exit U cfg c (env sk) s'"
proof (rule crunch_loop.raw_induct [OF _ assms])
  fix loop :: "('a System \<Rightarrow> 'a System) \<Rightarrow> 'a user \<Rightarrow> Cfg \<Rightarrow> nat \<Rightarrow> 'a System \<Rightarrow> 'a System option"
    and env U cfg c s s'
  assume IH: "\<And>env U cfg c s s'. loop env U cfg c s = Some s' \<Longrightarrow>
        \<exists>k sk. crunch_passes env U cfg c k s = Some sk \<and> crunch_exit U cfg c (env sk) s'"
    and body: "(let s = env s
      in if isActiveState (sy_kernelState s)
         then let (fired, s) = anyStopConditionFired U s
              in if fired then Some s
                 else cr_task (sy_crunchDispatcher s) \<bind>
                      (\<lambda>n. if isSafetyAborted (sy_pub s) then Some (crunch_soft_abort U n s)
                           else crunch_iteration U cfg c n s \<bind>
                                (\<lambda>(continues, s). if continues then loop env U cfg c s else Some s))
         else Some s) = Some s'"
  have now: "\<exists>k sk. crunch_passes env U cfg c k s = Some sk \<and> crunch_exit U cfg c (env sk) s'"
    if "crunch_exit U cfg c (env s) s'"
    using that by (intro exI [of _ 0] exI [of _ s]) simp
  obtain fired s1 where s1: "anyStopConditionFired U (env s) = (fired, s1)" by fastforce
  show "\<exists>k sk. crunch_passes env U cfg c k s = Some sk \<and> crunch_exit U cfg c (env sk) s'"
  proof (cases "isActiveState (sy_kernelState (env s)) \<and> \<not> fired")
    case False
    then have "\<not> isActiveState (sy_kernelState (env s)) \<and> s' = env s \<or>
        isActiveState (sy_kernelState (env s)) \<and> fired \<and> s' = s1"
      using body s1 by (cases "isActiveState (sy_kernelState (env s))") simp_all
    with s1 show ?thesis by (intro now) (auto intro: crunch_exit.inactive crunch_exit.stopped)
  next
    case True
    with body s1 obtain n where n: "cr_task (sy_crunchDispatcher s1) = Some n"
        "(if isSafetyAborted (sy_pub s1) then Some (crunch_soft_abort U n s1)
          else crunch_iteration U cfg c n s1 \<bind> (\<lambda>(continues, s). if continues then loop env U cfg c s else Some s)) = Some s'"
      by (auto split: bind_splits)
    consider "isSafetyAborted (sy_pub s1)" "s' = crunch_soft_abort U n s1"
      | b s2 where "\<not> isSafetyAborted (sy_pub s1)" "crunch_iteration U cfg c n s1 = Some (b, s2)"
          "if b then loop env U cfg c s2 = Some s' else s' = s2"
      using n(2) by (cases "isSafetyAborted (sy_pub s1)"; cases "crunch_iteration U cfg c n s1") (auto split: if_splits)
    then show ?thesis
    proof cases
      case 1
      then show ?thesis using True s1 n(1) by (intro now) (auto intro: crunch_exit.aborted)
    next
      case (2 b s2)
      show ?thesis
      proof (cases b)
        case True
        then obtain k sk where "crunch_passes env U cfg c k s2 = Some sk" "crunch_exit U cfg c (env sk) s'"
          using IH [of env U cfg c s2 s'] 2(3) by auto
        with \<open>isActiveState (sy_kernelState (env s)) \<and> \<not> fired\<close> s1 n(1) 2 True show ?thesis
          by (intro exI [of _ "Suc k"] exI [of _ sk]) simp
      next
        case False
        with 2 crunch_iteration_leaves [of U cfg c n s1 s'] \<open>isActiveState (sy_kernelState (env s)) \<and> \<not> fired\<close> s1 n(1)
        show ?thesis by (intro now) (auto intro: crunch_exit.overrun_limit)
      qed
    qed
  qed
qed

lemma crunch_loop_iff:
  "crunch_loop env U cfg c s = Some s' \<longleftrightarrow> (\<exists>k sk. crunch_passes env U cfg c k s = Some sk \<and> crunch_exit U cfg c (env sk) s')"
  using crunch_loop_left crunch_loop_passes crunch_loop_exit by metis

section \<open>Overruns in a row\<close>

text \<open>One pass as it runs when no limit is set, with the task that ran, its time and how long it took; and the first \<open>k\<close>
  passes.\<close>

type_synonym iteration = "nat \<times> micros \<times> micros"

definition overran :: "'u user \<Rightarrow> iteration \<Rightarrow> bool" where
  "overran U it \<longleftrightarrow> (case it of (n, now, elapsed) \<Rightarrow> maxIterationUs (crunch_task U n) < elapsed)"

definition crunch_pass ::
    "('u System \<Rightarrow> 'u System) \<Rightarrow> 'u user \<Rightarrow> nat \<Rightarrow> 'u System \<Rightarrow> (iteration \<times> 'u System) option" where
  "crunch_pass env U c s =
     (let (fired, s1) = anyStopConditionFired U (env s) in
      if \<not> isActiveState (sy_kernelState (env s)) \<or> fired \<or> isSafetyAborted (sy_pub s1) then None
      else do {
        n \<leftarrow> cr_task (sy_crunchDispatcher s1);
        (now, elapsed, s2) \<leftarrow> crunch_timed U c n s1;
        Some ((n, now, elapsed), if overran U (n, now, elapsed) then count_overrun now elapsed s2 else reset_overruns s2) })"

fun crunch_trace ::
    "('u System \<Rightarrow> 'u System) \<Rightarrow> 'u user \<Rightarrow> nat \<Rightarrow> nat \<Rightarrow> 'u System \<Rightarrow> (iteration list \<times> 'u System) option" where
  "crunch_trace env U c 0 s = Some ([], s)"
| "crunch_trace env U c (Suc k) s = do {
     (its, s) \<leftarrow> crunch_trace env U c k s;
     (it, s) \<leftarrow> crunch_pass env U c s;
     Some (its @ [it], s) }"

text \<open>How many of the last iterations overran without a clean one in between.\<close>

definition overruns_in_a_row :: "'u user \<Rightarrow> iteration list \<Rightarrow> nat" where
  "overruns_in_a_row U its = length (takeWhile (overran U) (rev its))"

lemma overruns_in_a_row_simps [simp]:
  "overruns_in_a_row U [] = 0"
  "overruns_in_a_row U (its @ [it]) = (if overran U it then Suc (overruns_in_a_row U its) else 0)"
  by (simp_all add: overruns_in_a_row_def)

lemma crunch_pass_loop:
  assumes "crunch_pass env U c s = Some ((n, now, el), s2)"
  shows "crunch_loop env U cfg c s =
     (if overran U (n, now, el) \<and> too_many_overruns cfg s2 then Some (crunch_hard_fault U n now s2)
      else crunch_loop env U cfg c s2)"
proof -
  obtain fired s1 where s1: "anyStopConditionFired U (env s) = (fired, s1)" by fastforce
  with assms obtain s2' where "isActiveState (sy_kernelState (env s))" "\<not> fired" "\<not> isSafetyAborted (sy_pub s1)"
      "cr_task (sy_crunchDispatcher s1) = Some n" "crunch_timed U c n s1 = Some (now, el, s2')"
      "s2 = (if overran U (n, now, el) then count_overrun now el s2' else reset_overruns s2')"
    by (auto simp: crunch_pass_def split: bind_splits if_splits)
  then show ?thesis
    using s1 by (subst crunch_loop.simps) (simp add: crunch_iteration_def overran_def Let_def)
qed

lemma crunch_pass_counts:
  assumes "crunch_pass env U c s = Some (it, s2)" "sy_crunchDispatcher (env s) = sy_crunchDispatcher s"
  shows "sy_crunchDispatcher s2 = (sy_crunchDispatcher s)
     \<lparr>cr_consecutiveOverruns := if overran U it then cr_consecutiveOverruns (sy_crunchDispatcher s) + 1 else 0,
      cr_totalOverruns := cr_totalOverruns (sy_crunchDispatcher s) + (if overran U it then 1 else 0)\<rparr>"
proof -
  obtain fired s1 where s1: "anyStopConditionFired U (env s) = (fired, s1)" by fastforce
  with assms(1) obtain n now el s2' where "it = (n, now, el)" "crunch_timed U c n s1 = Some (now, el, s2')"
      "s2 = (if overran U it then count_overrun now el s2' else reset_overruns s2')"
    by (auto simp: crunch_pass_def split: bind_splits if_splits)
  then show ?thesis
    using crunch_timed_dispatcher [of U c n s1 now el s2'] anyStopConditionFired_fields(3) [OF s1] assms(2)
    by (simp add: count_overrun_def reset_overruns_def Let_def)
qed

text \<open>The counters say what happened: the overruns in a row, and all of them.\<close>

lemma crunch_trace_counts:
  assumes "\<And>s. sy_crunchDispatcher (env s) = sy_crunchDispatcher s"
  shows "crunch_trace env U c k (clear_overruns s) = Some (its, sk) \<Longrightarrow> length its = k \<and>
     cr_consecutiveOverruns (sy_crunchDispatcher sk) = of_nat (overruns_in_a_row U its) \<and>
     cr_totalOverruns (sy_crunchDispatcher sk) = of_nat (length (filter (overran U) its))"
proof (induction k arbitrary: its sk)
  case (Suc k)
  then obtain its' s1 it where "crunch_trace env U c k (clear_overruns s) = Some (its', s1)"
      "crunch_pass env U c s1 = Some (it, sk)" "its = its' @ [it]"
    by (auto split: bind_splits)
  with Suc.IH [of its' s1] crunch_pass_counts [of env U c s1 it sk] assms [of s1] show ?case by simp
qed (simp add: clear_overruns_def)

definition limit_reached :: "'u user \<Rightarrow> Cfg \<Rightarrow> iteration list \<Rightarrow> bool" where
  "limit_reached U cfg its \<longleftrightarrow> 0 < CfgCrunchMaxOverruns cfg \<and> overruns_in_a_row U its = unat (CfgCrunchMaxOverruns cfg)"

lemma crunch_trace_loop:
  assumes "\<And>s. sy_crunchDispatcher (env s) = sy_crunchDispatcher s"
  shows "crunch_trace env U c k (clear_overruns s) = Some (its, sk) \<Longrightarrow> \<forall>j<k. \<not> limit_reached U cfg (take j its) \<Longrightarrow>
     crunch_loop env U cfg c (clear_overruns s) =
       (if limit_reached U cfg its then case last its of (n, now, elapsed) \<Rightarrow> Some (crunch_hard_fault U n now sk)
        else crunch_loop env U cfg c sk) \<and>
     (0 < CfgCrunchMaxOverruns cfg \<longrightarrow> overruns_in_a_row U its \<le> unat (CfgCrunchMaxOverruns cfg))"
proof (induction k arbitrary: its sk)
  case 0
  then show ?case by (auto simp: limit_reached_def word_less_nat_alt)
next
  case (Suc k)
  obtain its' s1 n now el where tr: "crunch_trace env U c k (clear_overruns s) = Some (its', s1)"
      and pass: "crunch_pass env U c s1 = Some ((n, now, el), sk)" and its: "its = its' @ [(n, now, el)]"
    using Suc.prems(1) by (auto split: bind_splits)
  have len: "length its' = k" using crunch_trace_counts [OF assms tr] by simp
  have no: "\<forall>j<k. \<not> limit_reached U cfg (take j its')" "\<not> limit_reached U cfg its'"
    using Suc.prems(2) its len by (auto simp: less_Suc_eq)
  note IH = Suc.IH [OF tr no(1)]
  let ?N = "CfgCrunchMaxOverruns cfg"
  have less: "0 < ?N \<longrightarrow> overruns_in_a_row U its' < unat ?N"
    using IH no(2) by (auto simp: limit_reached_def)
  have count: "cr_consecutiveOverruns (sy_crunchDispatcher sk) = of_nat (overruns_in_a_row U its)"
    using crunch_trace_counts [OF assms Suc.prems(1)] by simp
  have "too_many_overruns cfg sk \<longleftrightarrow> limit_reached U cfg its" if "overran U (n, now, el)"
  proof (cases "0 < ?N")
    case True
    then have le: "overruns_in_a_row U its \<le> unat ?N" using less that its by simp
    then have "unat (of_nat (overruns_in_a_row U its) :: 32 word) = overruns_in_a_row U its"
      using unsigned_less [of ?N, where 'a = nat] by (simp add: unsigned_of_nat take_bit_nat_eq_self_iff)
    with True le count show ?thesis by (auto simp: too_many_overruns_def limit_reached_def word_le_nat_alt)
  qed (simp add: too_many_overruns_def limit_reached_def)
  moreover have "\<not> limit_reached U cfg its" if "\<not> overran U (n, now, el)"
    using that its by (auto simp: limit_reached_def unat_gt_0 word_gt_0)
  ultimately show ?case
    using IH no(2) crunch_pass_loop [OF pass, of cfg] its less by auto
qed

section \<open>Properties\<close>

text \<open>C10: running a core ends in SHUTDOWN. On a built system whose tasks can be initialised, \<^verbatim>\<open>run()\<close> of a
  flat-loop core returns once a stop condition fires or the kernel leaves its active states, whatever the
  startup barrier reports, and the kernel state is then SHUTDOWN. (While the other cores keep the kernel
  among the states of a running or terminated system.)\<close>

theorem run_reaches_shutdown:
  assumes "sy_built s" "c < kCoreCount cfg" "sy_kernelState s = CONFIGURED \<and> \<not> sy_coreInitialized s ! c \<or> runs s"
    and "\<And>s. runs s \<Longrightarrow> runs (env s)" "own_kept startup c" "c < length (mc_states (sy_sync s))"
    and "run_init U cfg c s = Some s1" "cd_mode (sy_cores s ! c) = FLAT_LOOP"
    and "\<And>m. stops_within env U cfg c k (s1\<lparr>sy_sync := m\<rparr>)"
  shows "\<exists>s'. System_run env startup shutdown U cfg c s = Some s' \<and> sy_kernelState s' = SHUTDOWN"
proof -
  have s1: "runs s1" "sy_cores s1 = sy_cores s" "length (mc_states (sy_sync s1)) = length (mc_states (sy_sync s))"
    using run_init_ok [OF assms(7,2,3)] by simp_all
  obtain r m where barrier: "startupBarrier startup c 2000 1 (sy_sync s1) = Some (r, m)"
    using startupBarrier_some [OF assms(5)] by blast
  define s2 where "s2 = (if kMultiCore cfg then s1\<lparr>sy_sync := m\<rparr> else s1)"
  have "stops_within env U cfg c k s2"
    using assms(9) [of m] assms(9) [of "sy_sync s1"] by (simp add: s2_def)
  moreover have "runs s2" "sy_cores s2 = sy_cores s" using s1 by (simp_all add: s2_def runs_def)
  ultimately obtain s3 where s3: "run_dispatch env U cfg c s2 = Some s3" "runs s3"
    using flat_loop_returns [OF assms(4)] assms(8) by (fastforce simp: run_dispatch_def Let_def)
  obtain r' m' where "shutdownBarrier shutdown c 2000 1 (sy_sync (run_shutdown s3)) = Some (r', m')"
    using shutdownBarrier_some by blast
  then have "System_run env startup shutdown U cfg c s
      = Some (if kMultiCore cfg then (run_shutdown s3)\<lparr>sy_sync := m'\<rparr> else run_shutdown s3)"
    using assms(1,2,7) barrier s3(1) by (cases "kMultiCore cfg") (simp_all add: System_run_def s2_def)
  then show ?thesis using run_shutdown_runs [OF s3(2)] by simp
qed

definition example_stopping :: "example_user_state System" where
  "example_stopping = example_system\<lparr>sy_stopConditions := [9999, 1]\<rparr>"

theorem run_reaches_shutdown_witness:
  "\<exists>s'. System_run (\<lambda>s. s) (\<lambda>k cs. cs) (\<lambda>k cs. cs) example_user example_cfg 0 example_stopping = Some s' \<and>
     sy_kernelState s' = SHUTDOWN"
proof -
  have built: "sy_built example_stopping" "runs example_stopping" "cd_mode (sy_cores example_stopping ! 0) = FLAT_LOOP"
      "0 < length (mc_states (sy_sync example_stopping))"
    by (simp_all add: example_stopping_def example_system_def System_static_def runs_def MultiCoreSync_init_def)
  obtain s1 where s1: "run_init example_user example_cfg 0 example_stopping = Some s1"
      "sy_kernelState s1 = RUNNING" "sy_stopConditions s1 = [9999, 1]" "ex_time (world (sy_pub s1)) = 1000"
    by (simp add: run_init_def System_init_def example_stopping_def example_system_def System_static_def
        kMultiCore_def tref_init_def on_pub_def diags_init_def pub_init_def example_state_def
        DiagnosticsTask_init_def Let_def example_user_def example_task_def)
  have "stops_within (\<lambda>s. s) example_user example_cfg 0 1 (s1\<lparr>sy_sync := m\<rparr>)" for m
    using s1(2-4) by (simp add: isActiveState_def anyStopConditionFired_def example_user_def)
  moreover have "own_kept (\<lambda>k cs. cs) 0" by (simp add: own_kept_def)
  ultimately show ?thesis
    using run_reaches_shutdown [of example_stopping 0 example_cfg "\<lambda>s. s" "\<lambda>k cs. cs" example_user s1 1] built s1(1)
    by simp
qed

text \<open>C23: The overrun limit of a crunch core counts overruns in a row. After \<open>k\<close> iterations of the loop, of whatever
  durations, its two counters are the number of overruns since the last clean iteration and the number of all
  overruns. As long as no \<^verbatim>\<open>kCrunchMaxOverruns\<close> overruns came in a row the loop goes on from there (it never stops for
  overruns when the limit is zero); when the last \<^verbatim>\<open>kCrunchMaxOverruns\<close> iterations all overran, for the first time,
  \<^verbatim>\<open>runLoop\<close> has returned right after them: the task's abort handler has been called and the last entry of the
  fault log is a HARD_FAULT with that number. (While the other cores leave the dispatcher alone.)\<close>

theorem crunch_overrun_limit:
  assumes "\<And>s. sy_crunchDispatcher (env s) = sy_crunchDispatcher s" "\<not> isSafetyAborted (sy_pub s)"
    and "crunch_trace env U c k (clear_overruns s) = Some (its, sk)" "\<forall>j<k. \<not> limit_reached U cfg (take j its)"
  shows "cr_consecutiveOverruns (sy_crunchDispatcher sk) = of_nat (overruns_in_a_row U its) \<and>
     cr_totalOverruns (sy_crunchDispatcher sk) = of_nat (length (filter (overran U) its)) \<and>
     crunch_runLoop env U cfg c s =
       (if limit_reached U cfg its then case last its of (n, now, elapsed) \<Rightarrow> Some (crunch_hard_fault U n now sk)
        else crunch_loop env U cfg c sk)"
proof -
  have "crunch_runLoop env U cfg c s = crunch_loop env U cfg c (clear_overruns s)"
    using assms(2) by (simp add: crunch_runLoop_def clear_overruns_def)
  with crunch_trace_loop [OF assms(1,3,4)] crunch_trace_counts [OF assms(1,3)] show ?thesis by simp
qed

definition example_crunch_system :: "example_user_state System" where
  "example_crunch_system = crunch_configure 6 False (example_system\<lparr>sy_pub := (pub_init example_cfg example_state)
     \<lparr>sysTimer := \<lparr>st_source = True, st_epoch = 0\<rparr>\<rparr>\<rparr>)"

definition two_overruns_cfg :: Cfg where
  "two_overruns_cfg = example_cfg\<lparr>kCrunchMaxOverruns := Some 2\<rparr>"

text \<open>A task that overruns in every iteration but the second: with a limit of two the loop is left after the fourth.\<close>

definition jumpy_user :: "example_user_state user" where
  "jumpy_user = example_user\<lparr>crunch_task := (\<lambda>n. (example_crunch n)
     \<lparr>crunch := (\<lambda>now p. Some (on_world (\<lambda>u. spend (if length (ex_ran u) = 1 then 100 else 600)
        (u\<lparr>ex_ran := ex_ran u @ [n]\<rparr>)) p))\<rparr>)\<rparr>"

lemma jumpy_trace:
  "map_option (\<lambda>(its, s). (map (\<lambda>it. (fst it, overran jumpy_user it)) its,
       map (\<lambda>j. limit_reached jumpy_user two_overruns_cfg (take j its)) [0, 1, 2, 3, 4],
       cr_consecutiveOverruns (sy_crunchDispatcher s)))
     (crunch_trace (\<lambda>s. s) jumpy_user 1 4 (clear_overruns example_crunch_system))
   = Some ([(6, True), (6, False), (6, True), (6, True)], [False, False, False, False, True], 2)"
  by code_simp

theorem crunch_overrun_limit_witness:
  "\<exists>its sk now. crunch_trace (\<lambda>s. s) jumpy_user 1 4 (clear_overruns example_crunch_system) = Some (its, sk) \<and>
     map (overran jumpy_user) its = [True, False, True, True] \<and>
     cr_consecutiveOverruns (sy_crunchDispatcher sk) = of_nat (overruns_in_a_row jumpy_user its) \<and>
     overruns_in_a_row jumpy_user its = 2 \<and>
     crunch_runLoop (\<lambda>s. s) jumpy_user two_overruns_cfg 1 example_crunch_system = Some (crunch_hard_fault jumpy_user 6 now sk)"
proof -
  obtain x where x: "crunch_trace (\<lambda>s. s) jumpy_user 1 4 (clear_overruns example_crunch_system) = Some x"
      "(case x of (its, s) \<Rightarrow> (map (\<lambda>it. (fst it, overran jumpy_user it)) its,
       map (\<lambda>j. limit_reached jumpy_user two_overruns_cfg (take j its)) [0, 1, 2, 3, 4],
       cr_consecutiveOverruns (sy_crunchDispatcher s)))
     = ([(6, True), (6, False), (6, True), (6, True)], [False, False, False, False, True], 2)"
    using jumpy_trace unfolding map_option_eq_Some by (elim exE conjE)
  obtain its sk where t: "crunch_trace (\<lambda>s. s) jumpy_user 1 4 (clear_overruns example_crunch_system) = Some (its, sk)"
    and o: "map (\<lambda>it. (fst it, overran jumpy_user it)) its = [(6, True), (6, False), (6, True), (6, True)]"
    and l: "map (\<lambda>j. limit_reached jumpy_user two_overruns_cfg (take j its)) [0, 1, 2, 3, 4] = [False, False, False, False, True]"
    using x by (cases x) (simp only: prod.case prod.inject)
  obtain a b d e where its: "its = [a, b, d, (6, e)]" "overran jumpy_user a" "\<not> overran jumpy_user b"
      "overran jumpy_user d" "overran jumpy_user (6, e)"
    using o by (auto simp: map_eq_Cons_conv)
  have lim: "\<forall>j<4. \<not> limit_reached jumpy_user two_overruns_cfg (take j its)" "limit_reached jumpy_user two_overruns_cfg its"
    using l its(1) by (auto simp: less_Suc_eq numeral_eq_Suc)
  have "\<not> isSafetyAborted (sy_pub example_crunch_system)"
    by (simp add: isSafetyAborted_def example_crunch_system_def crunch_configure_def pub_init_def)
  note result = crunch_overrun_limit [OF refl this t lim(1)]
  have "overruns_in_a_row jumpy_user its = 2"
    using its by (simp add: overruns_in_a_row_def)
  with result lim(2) t its show ?thesis by (auto split: prod.splits)
qed

text \<open>C24: Exactly when and how a crunch loop returns. \<^verbatim>\<open>runLoop\<close> returns in a state if and only if either the safety abort was
  up before it started and that state has the abort handler run and SOFT_ABORT logged, or after some number of
  complete passes, each with the kernel active, no stop condition and no abort at its head, one of the
  four reasons applies at the next head: the kernel is not active any more (the state is left as it is), a stop
  condition fires, the safety abort is up (abort handler, SOFT_ABORT), or the iteration is the overrun
  that reaches the limit (abort handler, HARD_FAULT). In particular an abort or a stop is honoured at the first head
  that sees it.\<close>

theorem crunch_exit_reasons:
  "crunch_runLoop env U cfg c s = Some s' \<longleftrightarrow>
     (if isSafetyAborted (sy_pub s)
      then \<exists>n. cr_task (sy_crunchDispatcher s) = Some n \<and> s' = crunch_soft_abort U n (clear_overruns s)
      else \<exists>k sk. crunch_passes env U cfg c k (clear_overruns s) = Some sk \<and> crunch_exit U cfg c (env sk) s')"
  by (auto simp: crunch_runLoop_def crunch_loop_iff clear_overruns_def bind_eq_Some_conv)

end
