(* ===== verification/SystemBuilder.thy ===== *)
theory SystemBuilder
  imports KernelRun "HOL-Library.Multiset"
begin

text \<open>
  \<^verbatim>\<open>builder/SystemBuilder.h\<close>: \<^verbatim>\<open>CoreBuilder\<close> and \<^verbatim>\<open>SystemBuilder\<close>.

  A core builder only holds a pointer into \<^verbatim>\<open>System::s_cores\<close>, so its operations act on that core of the
  \<open>System\<close> record; \<open>core i\<close> selects it. The builder's own members are the record \<open>SystemBuilder\<close>, pointers being
  whether they are set. \<open>build\<close> returns \<open>None\<close> when it stores outside the background ring's array.
  An array that is scanned by index with early return is a recursive scan.

  The lemmas show that the index-level insertion sort is the stable sort by effective priority, what a
  successful build guarantees, and that a failed build cannot be repeated.
\<close>

section \<open>The builder\<close>

record SystemBuilder =
  m_app :: bool
  m_stream :: bool
  m_watchdogKick :: bool
  m_clockSource :: bool

type_synonym 'u build = "SystemBuilder \<times> 'u System"

datatype BuildResult = BuildOk | BuildError string

fun result_ok :: "BuildResult \<Rightarrow> bool" where
  "result_ok BuildOk = True"
| "result_ok (BuildError e) = False"

definition SystemBuilder_init :: "bool \<Rightarrow> SystemBuilder" where
  "SystemBuilder_init app = \<lparr>m_app = app, m_stream = False, m_watchdogKick = False, m_clockSource = False\<rparr>"

definition setStream :: "bool \<Rightarrow> 'u build \<Rightarrow> 'u build" where
  "setStream stream bs = (let (b, s) = bs in (b\<lparr>m_stream := stream\<rparr>, s))"

definition setWatchdogKick :: "bool \<Rightarrow> 'u build \<Rightarrow> 'u build" where
  "setWatchdogKick kickFn bs = (let (b, s) = bs in (b\<lparr>m_watchdogKick := kickFn\<rparr>, s))"

definition setClockSource :: "bool \<Rightarrow> 'u build \<Rightarrow> 'u build" where
  "setClockSource src bs = (let (b, s) = bs in (b\<lparr>m_clockSource := src\<rparr>, s))"

definition addStopCondition :: "nat option \<Rightarrow> 'u build \<Rightarrow> 'u build" where
  "addStopCondition fn bs =
     (let (b, s) = bs in
      case fn of
        None \<Rightarrow> (b, s)
      | Some i \<Rightarrow> if length (sy_stopConditions s) < kMaxStopConditions
                  then (b, s\<lparr>sy_stopConditions := sy_stopConditions s @ [i]\<rparr>) else (b, s))"

definition builder_setTelemetryDrain :: "bool \<Rightarrow> 'u build \<Rightarrow> 'u build" where
  "builder_setTelemetryDrain writeFn bs = (let (b, s) = bs in (b, s\<lparr>sy_drainFn := writeFn\<rparr>))"

definition setTelemetryMutex :: "bool \<Rightarrow> 'u build \<Rightarrow> 'u build" where
  "setTelemetryMutex mutex bs =
     (let (b, s) = bs in (b, on_pub (\<lambda>p. p\<lparr>telemetryLogger := setMutex mutex (telemetryLogger p)\<rparr>) s))"

definition addBackgroundTask :: "Cfg \<Rightarrow> tref option \<Rightarrow> 'u build \<Rightarrow> 'u build" where
  "addBackgroundTask cfg task bs =
     (let (b, s) = bs in
      case task of
        None \<Rightarrow> (b, s)
      | Some r \<Rightarrow> if length (sy_backgroundTasks s) < CfgMaxBackgroundTasks cfg
                  then (b, s\<lparr>sy_backgroundTasks := sy_backgroundTasks s @ [r]\<rparr>) else (b, s))"

section \<open>The core builder\<close>

definition on_core :: "nat \<Rightarrow> (CoreData \<Rightarrow> CoreData) \<Rightarrow> 'u System \<Rightarrow> 'u System" where
  "on_core c f s = s\<lparr>sy_cores := (sy_cores s)[c := f (sy_cores s ! c)]\<rparr>"

text \<open>\<^verbatim>\<open>core(coreId)\<close>: an identifier out of range selects core 0.\<close>

definition builder_core :: "Cfg \<Rightarrow> nat \<Rightarrow> nat" where
  "builder_core cfg coreId = (if coreId < kCoreCount cfg then coreId else 0)"

definition addScheduledTask :: "Cfg \<Rightarrow> nat \<Rightarrow> tref option \<Rightarrow> 'u build \<Rightarrow> 'u build" where
  "addScheduledTask cfg coreId task bs = (let (b, s) = bs in (b, on_core (builder_core cfg coreId) (addTask task) s))"

definition setCrunchTask :: "Cfg \<Rightarrow> nat \<Rightarrow> nat option \<Rightarrow> 'u build \<Rightarrow> 'u build" where
  "setCrunchTask cfg coreId task bs =
     (let (b, s) = bs in
      case task of
        None \<Rightarrow> (b, s)
      | Some n \<Rightarrow> (b, on_core (builder_core cfg coreId) (\<lambda>c. c\<lparr>cd_mode := CRUNCH, cd_crunchTask := Some n\<rparr>) s))"

section \<open>Priorities\<close>

definition effectivePriority :: "'u user \<Rightarrow> Cfg \<Rightarrow> tref \<Rightarrow> byte" where
  "effectivePriority U cfg r =
     (if \<not> tref_isScheduled U r then 0xFE
      else
        let p = tref_schedulePriority U r in
        if p \<noteq> 0xFF then p
        else
          let period = tref_periodUs U cfg r in
          if period = 0 then 0xFE
          else if period \<le> 100 then 2
          else if period \<le> 1000 then 10
          else if period \<le> 10000 then 20
          else if period \<le> 100000 then 40
          else if period \<le> 1000000 then 80
          else 0xA0)"

text \<open>The inner loop shifts larger entries right from index \<open>j\<close> and returns the index of the hole.\<close>

fun shift_right :: "('a \<Rightarrow> byte) \<Rightarrow> byte \<Rightarrow> nat \<Rightarrow> 'a list \<Rightarrow> nat \<times> 'a list" where
  "shift_right pri keyPri 0 tasks = (0, tasks)"
| "shift_right pri keyPri (Suc j) tasks =
     (if pri (tasks ! j) > keyPri then shift_right pri keyPri j (tasks[Suc j := tasks ! j])
      else (Suc j, tasks))"

definition insertion_step :: "('a \<Rightarrow> byte) \<Rightarrow> nat \<Rightarrow> 'a list \<Rightarrow> 'a list" where
  "insertion_step pri i tasks =
     (let key = tasks ! i; (j, tasks) = shift_right pri (pri key) i tasks in tasks[j := key])"

text \<open>The outer loop for \<open>i = 1, \<dots>, taskCount - 1\<close>; \<open>n\<close> iterations are left.\<close>

fun insertion_sort :: "('a \<Rightarrow> byte) \<Rightarrow> nat \<Rightarrow> nat \<Rightarrow> 'a list \<Rightarrow> 'a list" where
  "insertion_sort pri i 0 tasks = tasks"
| "insertion_sort pri i (Suc n) tasks = insertion_sort pri (Suc i) n (insertion_step pri i tasks)"

definition sortTasksByPriority :: "'u user \<Rightarrow> Cfg \<Rightarrow> 'u System \<Rightarrow> 'u System" where
  "sortTasksByPriority U cfg s =
     s\<lparr>sy_cores := map (\<lambda>c. c\<lparr>cd_tasks :=
        insertion_sort (effectivePriority U cfg) 1 (length (cd_tasks c) - 1) (cd_tasks c)\<rparr>) (sy_cores s)\<rparr>"

section \<open>Validation\<close>

definition period_too_short :: "'u user \<Rightarrow> Cfg \<Rightarrow> tref \<Rightarrow> bool" where
  "period_too_short U cfg r \<longleftrightarrow> tref_isScheduled U r \<and> tref_periodUs U cfg r > 0 \<and>
     tref_periodUs U cfg r < CfgMinSchedulePeriodUs cfg"

text \<open>The scan for duplicates: the rest of the own core, then the later cores.\<close>

fun duplicate_in_core :: "tref list \<Rightarrow> CoreData list \<Rightarrow> bool" where
  "duplicate_in_core [] later = False"
| "duplicate_in_core (r # rs) later =
     (if r \<in> set rs then True
      else if list_ex (\<lambda>c. r \<in> set (cd_tasks c)) later then True
      else duplicate_in_core rs later)"

fun duplicate_scan :: "CoreData list \<Rightarrow> bool" where
  "duplicate_scan [] = False"
| "duplicate_scan (c # cs) = (if duplicate_in_core (cd_tasks c) cs then True else duplicate_scan cs)"

definition task_load :: "'u user \<Rightarrow> Cfg \<Rightarrow> tref \<Rightarrow> u64 \<times> nat \<Rightarrow> u64 \<times> nat" where
  "task_load U cfg r acc =
     (let (numerator, scheduledCount) = acc; wcet = tref_declaredWcetUs U r; period = tref_periodUs U cfg r in
      if tref_isScheduled U r \<and> wcet > 0 \<and> period > 0
      then (numerator + (wcet * 1000) div period, scheduledCount + 1) else (numerator, scheduledCount))"

definition utilization_warning :: "'u user \<Rightarrow> Cfg \<Rightarrow> CoreData \<Rightarrow> 'u System \<Rightarrow> 'u System" where
  "utilization_warning U cfg c s =
     (let (numerator, scheduledCount) = fold (task_load U cfg) (cd_tasks c) (0, 0) in
      if scheduledCount > 0 \<and> numerator > 800
      then on_pub (log_error SENSOR_ERROR 0 (f32_div (f32_of_u64 numerator) (f32_of_nat 1000))) s else s)"

definition validateSchedulingConstraints :: "'u user \<Rightarrow> Cfg \<Rightarrow> 'u System \<Rightarrow> BuildResult \<times> 'u System" where
  "validateSchedulingConstraints U cfg s =
     (if list_ex (\<lambda>c. list_ex (period_too_short U cfg) (cd_tasks c)) (sy_cores s)
      then (BuildError ''Scheduled task period below minimum'', s)
      else if duplicate_scan (sy_cores s) then (BuildError ''Duplicate task registration detected'', s)
      else (BuildOk, fold (utilization_warning U cfg) (sy_cores s) s))"

fun validateCrunch_loop :: "'u user \<Rightarrow> Cfg \<Rightarrow> nat \<Rightarrow> CoreData list \<Rightarrow> BuildResult" where
  "validateCrunch_loop U cfg c [] = BuildOk"
| "validateCrunch_loop U cfg c (cd # cds) =
     (if cd_mode cd \<noteq> CRUNCH then validateCrunch_loop U cfg (Suc c) cds
      else if c = 0 then BuildError ''ICrunchTask cannot be registered on Core 0''
      else case cd_crunchTask cd of
        None \<Rightarrow> BuildError ''CRUNCH core has no ICrunchTask''
      | Some n \<Rightarrow>
          if length (cd_tasks cd) > 0 then BuildError ''CRUNCH core cannot have other tasks''
          else if kCoreCount cfg < 2 then BuildError ''CRUNCH mode requires kCoreCount >= 2''
          else if crunchPeriodUs (crunch_task U n) > 0 \<and> crunchPeriodUs (crunch_task U n) < CfgMinSchedulePeriodUs cfg
          then BuildError ''Crunch task period below minimum''
          else validateCrunch_loop U cfg (Suc c) cds)"

definition validateCrunchConstraints :: "'u user \<Rightarrow> Cfg \<Rightarrow> 'u System \<Rightarrow> BuildResult" where
  "validateCrunchConstraints U cfg s = validateCrunch_loop U cfg 0 (sy_cores s)"

definition validateTaskDependencies :: "'u user \<Rightarrow> 'u System \<Rightarrow> BuildResult" where
  "validateTaskDependencies U s =
     (if list_ex (\<lambda>c. list_ex (\<lambda>r. \<not> tref_validateDependencies U r s) (cd_tasks c)) (sy_cores s)
      then BuildError ''Task dependency validation failed'' else BuildOk)"

section \<open>Build\<close>

definition emplace_kernel_tasks :: "Cfg \<Rightarrow> SystemBuilder \<Rightarrow> 'u System \<Rightarrow> 'u System" where
  "emplace_kernel_tasks cfg b s =
     s\<lparr>sy_controlTask := Some \<lparr>kc_commandQueue = True, kc_app = True\<rparr>,
       sy_commsTask := Some (setMetricsSnapshotFn True (CommsTask_init cfg (m_stream b) True)),
       sy_diagsTask := Some (DiagnosticsTask_init (m_watchdogKick b) (CfgControlBudgetUs cfg)),
       sy_watchdogKickFn := m_watchdogKick b,
       sy_pub := (sy_pub s)\<lparr>timers := (timers (sy_pub s))(TControl := TaskTimer_init, TComms := TaskTimer_init,
         TDiags := TaskTimer_init)\<rparr>\<rparr>"

definition place_kernel_tasks :: "Cfg \<Rightarrow> 'u System \<Rightarrow> 'u System" where
  "place_kernel_tasks cfg s =
     (if kMultiCore cfg then
        let s = on_core 0 (prependTask (Some TControl)) s in
        if cd_mode (sy_cores s ! 1) = CRUNCH then on_core 0 (prependTask (Some TComms)) s
        else on_core 1 (prependTask (Some TComms)) s
      else
        let s = on_core 0 (prependTask (Some TComms)) s in
        on_core 0 (prependTask (Some TControl)) s)"

text \<open>\<^verbatim>\<open>SystemBuilder.h\<close> stores the diagnostics task at index \<^verbatim>\<open>s_backgroundTaskCount\<close> without looking at the capacity;
  \<open>None\<close> stands for the store behind the array, after which the model says nothing more. The theory
  \<open>BuildGuarantees\<close> shows exactly when that happens.\<close>

definition register_diags :: "Cfg \<Rightarrow> 'u System \<Rightarrow> 'u System option" where
  "register_diags cfg s =
     (if length (sy_backgroundTasks s) < CfgMaxBackgroundTasks cfg
      then Some (s\<lparr>sy_backgroundTasks := sy_backgroundTasks s @ [TDiags]\<rparr>) else None)"

text \<open>The last active core below \<open>c\<close>, or core 0.\<close>

fun last_active :: "CoreData list \<Rightarrow> nat \<Rightarrow> nat" where
  "last_active cores 0 = 0"
| "last_active cores (Suc c) = (if isActive (cores ! c) then c else last_active cores c)"

definition choose_background_core :: "Cfg \<Rightarrow> 'u System \<Rightarrow> 'u System" where
  "choose_background_core cfg s =
     s\<lparr>sy_backgroundCoreId := (if kMultiCore cfg then last_active (sy_cores s) (kCoreCount cfg) else 0)\<rparr>"

definition wire_drain :: "'u System \<Rightarrow> 'u System" where
  "wire_drain s =
     (if sy_drainFn s then s\<lparr>sy_diagsTask := map_option (setTelemetryDrain True True) (sy_diagsTask s)\<rparr> else s)"

definition install_kernel :: "Cfg \<Rightarrow> SystemBuilder \<Rightarrow> 'u System \<Rightarrow> 'u System option" where
  "install_kernel cfg b s = do {
     let s = place_kernel_tasks cfg (emplace_kernel_tasks cfg b s);
     s \<leftarrow> register_diags cfg s;
     Some (wire_drain (choose_background_core cfg s)) }"

definition collect_monitored :: "Cfg \<Rightarrow> SystemBuilder \<Rightarrow> 'u System \<Rightarrow> 'u System" where
  "collect_monitored cfg b s =
     (if m_app b \<and> sy_diagsTask s \<noteq> None then
        let all_tasks = take (kCoreCount cfg * kMaxTasksPerCore) (concat (map cd_tasks (sy_cores s))) in
        s\<lparr>sy_allTasks := all_tasks, sy_diagsTask := map_option (setMonitoredTasks all_tasks) (sy_diagsTask s)\<rparr>
      else s)"

definition timer_owners :: "'u System \<Rightarrow> tref list" where
  "timer_owners s = concat (map cd_tasks (sy_cores s)) @ sy_backgroundTasks s @
     concat (map (\<lambda>c. case cd_crunchTask c of None \<Rightarrow> [] | Some n \<Rightarrow> [TCrunch n]) (sy_cores s))"

definition on_timer :: "(TaskTimer \<Rightarrow> TaskTimer) \<Rightarrow> tref \<Rightarrow> 'u pub \<Rightarrow> 'u pub" where
  "on_timer f r p = p\<lparr>timers := (timers p)(r := f (timers p r))\<rparr>"

definition propagate_clock :: "'u user \<Rightarrow> SystemBuilder \<Rightarrow> 'u System \<Rightarrow> 'u System" where
  "propagate_clock U b s =
     (if m_clockSource b then
        let (tm, w) = SystemTimer_setClockSource (clk U) True (world (sy_pub s)) (sysTimer (sy_pub s));
            p = (sy_pub s)\<lparr>sysTimer := tm, world := w\<rparr> in
        s\<lparr>sy_pub := fold (on_timer (TaskTimer_setClockSource True)) (timer_owners s) p\<rparr>
      else s)"

definition propagate_window :: "Cfg \<Rightarrow> 'u System \<Rightarrow> 'u System" where
  "propagate_window cfg s =
     (let windowUs = CfgMetricsWindowUs cfg;
          p = fold (on_timer (TaskTimer_setMetricsWindowUs windowUs)) (timer_owners s) (sy_pub s) in
      s\<lparr>sy_pub := p\<lparr>schedulerHealth := SchedulerHealthMetrics_setMetricsWindowUs windowUs (schedulerHealth p),
         queueMonitor := QueueDepthMonitor_setMetricsWindowUs windowUs (queueMonitor p)\<rparr>\<rparr>)"

definition build_finish :: "'u user \<Rightarrow> Cfg \<Rightarrow> SystemBuilder \<Rightarrow> 'u System \<Rightarrow> 'u System" where
  "build_finish U cfg b s =
     snd (transitionTo CONFIGURED
       ((propagate_window cfg (propagate_clock U b (collect_monitored cfg b s)))\<lparr>sy_built := True\<rparr>))"

text \<open>The checks in their order; the first that fails is the result.\<close>

definition build_checks :: "'u user \<Rightarrow> Cfg \<Rightarrow> 'u System \<Rightarrow> BuildResult \<times> 'u System" where
  "build_checks U cfg s =
     (if \<not> list_ex isActive (sy_cores s) then (BuildError ''No tasks registered on any core'', s)
      else
        let (schedResult, s) = validateSchedulingConstraints U cfg s in
        if \<not> result_ok schedResult then (schedResult, s)
        else
          let crunchResult = validateCrunchConstraints U cfg s in
          if \<not> result_ok crunchResult then (crunchResult, s)
          else (validateTaskDependencies U s, s))"

definition build :: "'u user \<Rightarrow> Cfg \<Rightarrow> 'u build \<Rightarrow> (BuildResult \<times> 'u build) option" where
  "build U cfg bs =
     (let (b, s) = bs in
      if sy_built s then Some (BuildError ''SystemBuilder::build() already called'', (b, s))
      else do {
        s \<leftarrow> (if m_app b then install_kernel cfg b s else Some s);
        let (r, s) = build_checks U cfg (sortTasksByPriority U cfg s);
        Some (r, (b, if result_ok r then build_finish U cfg b s else s)) })"

section \<open>The insertion sort is the stable sort\<close>

lemma shift_right_sorted:
  "sorted (map pri p) \<Longrightarrow>
   \<exists>x'. shift_right pri k (length p) (p @ x # rest) =
     (length (filter (\<lambda>a. pri a \<le> k) p), filter (\<lambda>a. pri a \<le> k) p @ x' # filter (\<lambda>a. k < pri a) p @ rest)"
proof (induction p arbitrary: x rest rule: rev_induct)
  case Nil
  then show ?case by simp
next
  case (snoc a p)
  show ?case
  proof (cases "k < pri a")
    case True
    have "(p @ [a] @ x # rest)[Suc (length p) := a] = p @ a # a # rest"
      by (simp add: list_update_append)
    with snoc.IH [of a "a # rest"] snoc.prems True show ?thesis
      by (auto simp: sorted_append nth_append not_le)
  next
    case False
    then have le: "pri b \<le> k" if "b \<in> set (p @ [a])" for b
      using that snoc.prems by (auto simp: sorted_append)
    then have "filter (\<lambda>a. pri a \<le> k) (p @ [a]) = p @ [a]" "filter (\<lambda>a. k < pri a) (p @ [a]) = []"
      by (auto simp: filter_empty_conv not_less)
    with False show ?thesis by (auto simp: nth_append simp del: filter_append)
  qed
qed

lemma insertion_step_sorted:
  assumes "sorted (map pri p)"
  shows "insertion_step pri (length p) (p @ key # rest) =
     filter (\<lambda>a. pri a \<le> pri key) p @ key # filter (\<lambda>a. pri key < pri a) p @ rest"
proof -
  obtain x' where "shift_right pri (pri key) (length p) (p @ key # rest) = (length (filter (\<lambda>a. pri a \<le> pri key) p),
      filter (\<lambda>a. pri a \<le> pri key) p @ x' # filter (\<lambda>a. pri key < pri a) p @ rest)"
    using shift_right_sorted [OF assms] by blast
  then show ?thesis by (simp add: insertion_step_def list_update_append)
qed

text \<open>Inserting behind all entries of at most the same priority extends the stable sort by one element.\<close>

lemma sort_key_snoc:
  fixes pri :: "'a \<Rightarrow> byte"
  shows "sort_key pri (xs @ [key]) = filter (\<lambda>a. pri a \<le> pri key) (sort_key pri xs) @ key #
     filter (\<lambda>a. pri key < pri a) (sort_key pri xs)"
proof (rule properties_for_sort_key)
  let ?p = "sort_key pri xs"
  have part: "mset (filter (\<lambda>a. pri a \<le> pri key) ?p) + mset (filter (\<lambda>a. pri key < pri a) ?p) = mset ?p"
    using multiset_partition [of "mset ?p" "\<lambda>a. pri a \<le> pri key"] by (simp add: not_le)
  then show "mset (filter (\<lambda>a. pri a \<le> pri key) ?p @ key # filter (\<lambda>a. pri key < pri a) ?p) = mset (xs @ [key])"
    by simp
  show "filter (\<lambda>x. pri k = pri x) (filter (\<lambda>a. pri a \<le> pri key) ?p @ key # filter (\<lambda>a. pri key < pri a) ?p)
      = filter (\<lambda>x. pri k = pri x) (xs @ [key])" for k
  proof -
    have stable: "filter (\<lambda>x. pri k = pri x) ?p = filter (\<lambda>x. pri k = pri x) xs"
      using sort_key_stable [of pri "pri k" xs] by (simp add: eq_commute)
    consider "pri k \<le> pri key" | "pri key < pri k" by fastforce
    then show ?thesis
    proof cases
      case 1
      then have "filter (\<lambda>x. pri k = pri x \<and> pri x \<le> pri key) ?p = filter (\<lambda>x. pri k = pri x) ?p"
        "filter (\<lambda>x. pri k = pri x \<and> pri key < pri x) ?p = []"
        by (auto intro!: filter_cong simp: filter_empty_conv)
      then show ?thesis by (simp add: stable conj_commute)
    next
      case 2
      then have "filter (\<lambda>x. pri k = pri x \<and> pri x \<le> pri key) ?p = []"
        "filter (\<lambda>x. pri k = pri x \<and> pri key < pri x) ?p = filter (\<lambda>x. pri k = pri x) ?p"
        by (auto intro!: filter_cong simp: filter_empty_conv)
      with 2 show ?thesis by (auto simp: stable conj_commute)
    qed
  qed
  show "sorted (map pri (filter (\<lambda>a. pri a \<le> pri key) ?p @ key # filter (\<lambda>a. pri key < pri a) ?p))"
    by (auto simp: sorted_append intro: sorted_filter)
qed

lemma insertion_sort_prefix:
  "i + n = length xs \<Longrightarrow> insertion_sort pri i n (sort_key pri (take i xs) @ drop i xs) = sort_key pri xs"
proof (induction n arbitrary: i)
  case (Suc n)
  let ?p = "sort_key pri (take i xs)"
  have i: "i < length xs" "length ?p = i" using Suc.prems by simp_all
  have "insertion_step pri i (?p @ drop i xs) = sort_key pri (take (Suc i) xs) @ drop (Suc i) xs"
    using insertion_step_sorted [of pri ?p "xs ! i" "drop (Suc i) xs"] i
    by (simp add: Cons_nth_drop_Suc take_Suc_conv_app_nth sort_key_snoc)
  then show ?case using Suc.IH [of "Suc i"] Suc.prems by simp
qed simp

lemma insertion_sort_key: "insertion_sort pri 1 (length xs - 1) xs = sort_key pri xs"
proof (cases xs)
  case (Cons x ys)
  then show ?thesis using insertion_sort_prefix [of 1 "length xs - 1" xs pri] by simp
qed simp

lemma sortTasksByPriority_sort_key:
  "sortTasksByPriority U cfg s =
     s\<lparr>sy_cores := map (\<lambda>c. c\<lparr>cd_tasks := sort_key (effectivePriority U cfg) (cd_tasks c)\<rparr>) (sy_cores s)\<rparr>"
  by (simp add: sortTasksByPriority_def insertion_sort_key [simplified])

end
