(* ===== verification/BuildGuarantees.thy ===== *)
theory BuildGuarantees
  imports SystemBuilder
begin

text \<open>
  What \<^verbatim>\<open>SystemBuilder::build()\<close> guarantees when it succeeds, and how it fails: the configuration it leaves, where
  it puts the kernel tasks, that the built system can be initialised and ticked, that a failed build cannot
  be repaired, the unchecked store into a full background ring, and the ring on a crunch core.
\<close>

section \<open>What build leaves alone\<close>

lemma on_pub_fields [simp]:
  "sy_pub (on_pub f s) = f (sy_pub s)" "sy_cores (on_pub f s) = sy_cores s" "sy_built (on_pub f s) = sy_built s"
  "sy_kernelState (on_pub f s) = sy_kernelState s" "sy_backgroundTasks (on_pub f s) = sy_backgroundTasks s"
  "sy_bgRoundRobin (on_pub f s) = sy_bgRoundRobin s" "sy_backgroundCoreId (on_pub f s) = sy_backgroundCoreId s"
  "sy_controlTask (on_pub f s) = sy_controlTask s" "sy_commsTask (on_pub f s) = sy_commsTask s"
  "sy_diagsTask (on_pub f s) = sy_diagsTask s" "sy_coreInitialized (on_pub f s) = sy_coreInitialized s"
  by (simp_all add: on_pub_def)

lemma utilization_warnings_frame:
  "\<exists>f. fold (utilization_warning U cfg) cs s = on_pub f s"
proof (induction cs arbitrary: s)
  case Nil
  have "s = on_pub (\<lambda>p. p) s" by (simp add: on_pub_def)
  then show ?case by fastforce
next
  case (Cons c cs)
  have "\<exists>f. utilization_warning U cfg c s = on_pub f s"
  proof -
    have "s = on_pub (\<lambda>p. p) s" by (simp add: on_pub_def)
    then show ?thesis by (auto simp: utilization_warning_def split: prod.split)
  qed
  then obtain f where f: "utilization_warning U cfg c s = on_pub f s" by blast
  obtain g where "fold (utilization_warning U cfg) cs (on_pub f s) = on_pub g (on_pub f s)" using Cons by blast
  then have "fold (utilization_warning U cfg) (c # cs) s = on_pub (g \<circ> f) s" using f by (simp add: on_pub_def)
  then show ?case by blast
qed

lemma build_checks_frame:
  "build_checks U cfg s = (r, s') \<Longrightarrow> \<exists>f. s' = on_pub f s"
proof -
  assume r: "build_checks U cfg s = (r, s')"
  have "s' = s \<or> s' = fold (utilization_warning U cfg) (sy_cores s) s"
    using r by (auto simp: build_checks_def validateSchedulingConstraints_def Let_def split: if_splits)
  moreover have "s = on_pub (\<lambda>p. p) s" by (simp add: on_pub_def)
  ultimately show ?thesis using utilization_warnings_frame by metis
qed

section \<open>What the checks establish\<close>

lemma duplicate_in_core_iff:
  "duplicate_in_core rs later \<longleftrightarrow> \<not> (distinct rs \<and> set rs \<inter> set (concat (map cd_tasks later)) = {})"
  by (induction rs) (auto simp: list_ex_iff)

lemma duplicate_scan_iff: "\<not> duplicate_scan cs \<longleftrightarrow> distinct (concat (map cd_tasks cs))"
  by (induction cs) (auto simp: duplicate_in_core_iff)

text \<open>A crunch core may only be there for one crunch task.\<close>

definition crunch_core_ok :: "'u user \<Rightarrow> Cfg \<Rightarrow> CoreData \<Rightarrow> bool" where
  "crunch_core_ok U cfg c \<longleftrightarrow> cd_tasks c = [] \<and> 2 \<le> kCoreCount cfg \<and>
     (case cd_crunchTask c of None \<Rightarrow> False
      | Some n \<Rightarrow> crunchPeriodUs (crunch_task U n) = 0 \<or> CfgMinSchedulePeriodUs cfg \<le> crunchPeriodUs (crunch_task U n))"

lemma validateCrunch_loop_iff:
  "validateCrunch_loop U cfg c cds = BuildOk \<longleftrightarrow>
     (\<forall>i < length cds. cd_mode (cds ! i) = CRUNCH \<longrightarrow> c + i \<noteq> 0 \<and> crunch_core_ok U cfg (cds ! i))"
proof (induction cds arbitrary: c)
  case (Cons cd cds)
  have "validateCrunch_loop U cfg c (cd # cds) = BuildOk \<longleftrightarrow>
      (cd_mode cd = CRUNCH \<longrightarrow> c \<noteq> 0 \<and> crunch_core_ok U cfg cd) \<and> validateCrunch_loop U cfg (Suc c) cds = BuildOk"
    by (cases "cd_crunchTask cd") (auto simp: crunch_core_ok_def not_less word_gt_0)
  then show ?case by (simp only: Cons.IH) (simp add: All_less_Suc2)
qed simp

lemma result_ok_iff: "result_ok r \<longleftrightarrow> r = BuildOk"
  by (cases r) simp_all

lemma build_checks_Ok:
  assumes "build_checks U cfg s = (BuildOk, s')"
  shows "\<forall>c \<in> set (sy_cores s). \<forall>r \<in> set (cd_tasks c). \<not> period_too_short U cfg r"
    "distinct (concat (map cd_tasks (sy_cores s)))"
    "validateCrunch_loop U cfg 0 (sy_cores s) = BuildOk"
    "\<forall>c \<in> set (sy_cores s). \<forall>r \<in> set (cd_tasks c). tref_validateDependencies U r s'"
proof -
  obtain f where f: "s' = on_pub f s" using build_checks_frame [OF assms] by blast
  show "\<forall>c \<in> set (sy_cores s). \<forall>r \<in> set (cd_tasks c). \<not> period_too_short U cfg r"
    "distinct (concat (map cd_tasks (sy_cores s)))"
    using assms by (auto simp: build_checks_def validateSchedulingConstraints_def Let_def list_ex_iff
        duplicate_scan_iff [symmetric] split: if_splits)
  obtain g where g: "fold (utilization_warning U cfg) (sy_cores s) s = on_pub g s" using utilization_warnings_frame by blast
  show "validateCrunch_loop U cfg 0 (sy_cores s) = BuildOk"
    "\<forall>c \<in> set (sy_cores s). \<forall>r \<in> set (cd_tasks c). tref_validateDependencies U r s'"
    using assms by (auto simp: build_checks_def validateSchedulingConstraints_def Let_def list_ex_iff g
        validateCrunchConstraints_def validateTaskDependencies_def result_ok_iff split: if_splits)
qed

lemma build_OkE:
  assumes "build U cfg (b, s) = Some (BuildOk, (b', s'))"
  obtains s0 s2 where "\<not> sy_built s" "(if m_app b then install_kernel cfg b s else Some s) = Some s0"
    "build_checks U cfg (sortTasksByPriority U cfg s0) = (BuildOk, s2)" "b' = b" "s' = build_finish U cfg b s2"
  using assms by (auto simp: build_def Let_def split: if_splits bind_splits prod.splits)

section \<open>What install and finish do\<close>

lemma build_finish_fields:
  "sy_cores (build_finish U cfg b s) = sy_cores s" "sy_built (build_finish U cfg b s)"
  "sy_backgroundTasks (build_finish U cfg b s) = sy_backgroundTasks s"
  "sy_bgRoundRobin (build_finish U cfg b s) = sy_bgRoundRobin s"
  "sy_backgroundCoreId (build_finish U cfg b s) = sy_backgroundCoreId s"
  "sy_controlTask (build_finish U cfg b s) = sy_controlTask s"
  "sy_commsTask (build_finish U cfg b s) = sy_commsTask s"
  "sy_diagsTask (build_finish U cfg b s) = (if m_app b
     then map_option (setMonitoredTasks (take (kCoreCount cfg * kMaxTasksPerCore) (concat (map cd_tasks (sy_cores s)))))
       (sy_diagsTask s) else sy_diagsTask s)"
  "sy_kernelState (build_finish U cfg b s) =
     (if sy_kernelState s = UNCONFIGURED then CONFIGURED else sy_kernelState s)"
  "sy_coreInitialized (build_finish U cfg b s) = sy_coreInitialized s"
  by (cases "sy_kernelState s"; simp add: build_finish_def transitionTo_def propagate_window_def propagate_clock_def
      collect_monitored_def on_pub_def Let_def split: prod.split)+

lemma install_kernel_fields:
  assumes "install_kernel cfg b s = Some s'"
  shows "length (sy_backgroundTasks s) < CfgMaxBackgroundTasks cfg"
    "sy_backgroundTasks s' = sy_backgroundTasks s @ [TDiags]" "sy_bgRoundRobin s' = sy_bgRoundRobin s"
    "sy_cores s' = sy_cores (place_kernel_tasks cfg s)" "sy_kernelState s' = sy_kernelState s"
    "sy_controlTask s' = Some \<lparr>kc_commandQueue = True, kc_app = True\<rparr>"
    "sy_commsTask s' = Some (setMetricsSnapshotFn True (CommsTask_init cfg (m_stream b) True))"
    "sy_diagsTask s' \<noteq> None" "sy_built s' = sy_built s"
    "sy_backgroundCoreId s' = (if kMultiCore cfg then last_active (sy_cores s') (kCoreCount cfg) else 0)"
    "sy_coreInitialized s' = sy_coreInitialized s"
  using assms
  by (auto simp: install_kernel_def register_diags_def wire_drain_def choose_background_core_def place_kernel_tasks_def
      emplace_kernel_tasks_def on_core_def Let_def split: if_splits)


section \<open>A configured system\<close>

definition configured :: "'u user \<Rightarrow> Cfg \<Rightarrow> 'u System \<Rightarrow> bool" where
  "configured U cfg s \<longleftrightarrow> sy_built s \<and> sy_kernelState s = CONFIGURED \<and>
     distinct (concat (map cd_tasks (sy_cores s))) \<and>
     (\<forall>c \<in> set (sy_cores s). sorted (map (effectivePriority U cfg) (cd_tasks c)) \<and>
        (\<forall>r \<in> set (cd_tasks c). \<not> period_too_short U cfg r)) \<and>
     (\<forall>i < length (sy_cores s). cd_mode (sy_cores s ! i) = CRUNCH \<longrightarrow>
        i \<noteq> 0 \<and> crunch_core_ok U cfg (sy_cores s ! i))"

lemma build_Ok_configured:
  assumes "build U cfg (b, s) = Some (BuildOk, (b', s'))" "sy_kernelState s = UNCONFIGURED"
  shows "configured U cfg s'"
proof -
  obtain s0 s2 where b: "(if m_app b then install_kernel cfg b s else Some s) = Some s0"
      "build_checks U cfg (sortTasksByPriority U cfg s0) = (BuildOk, s2)" "s' = build_finish U cfg b s2"
    by (rule build_OkE [OF assms(1)])
  obtain f where f: "s2 = on_pub f (sortTasksByPriority U cfg s0)" using build_checks_frame [OF b(2)] by blast
  have cores: "sy_cores s' = sy_cores (sortTasksByPriority U cfg s0)" by (simp add: b(3) build_finish_fields f)
  have "sy_kernelState s0 = UNCONFIGURED"
    using b(1) assms(2) install_kernel_fields(5) by (fastforce split: if_splits)
  then have "sy_kernelState s2 = UNCONFIGURED" by (simp add: f sortTasksByPriority_def)
  then have "sy_built s'" "sy_kernelState s' = CONFIGURED" by (simp_all add: b(3) build_finish_fields)
  moreover have "sorted (map (effectivePriority U cfg) (cd_tasks c))" if "c \<in> set (sy_cores s')" for c
    using that by (auto simp: cores sortTasksByPriority_sort_key)
  ultimately show ?thesis
    using build_checks_Ok [OF b(2), unfolded validateCrunch_loop_iff] by (auto simp: configured_def cores)
qed

lemma kernel_task_priorities:
  "effectivePriority U cfg TControl = 0" "effectivePriority U cfg TComms = 1"
  by (simp_all add: effectivePriority_def tref_isScheduled_def tref_schedulePriority_def
      control_schedulePriority_def comms_schedulePriority_def)

lemma hd_sort_control:
  "hd (sort_key (effectivePriority U cfg) (TControl # rs)) = TControl"
  "hd (sort_key (effectivePriority U cfg) (TComms # TControl # rs)) = TControl"
  by (simp_all add: insort_is_Cons kernel_task_priorities)

text \<open>Where the kernel tasks go when the cores have room for them.\<close>

definition comms_core :: "Cfg \<Rightarrow> 'u System \<Rightarrow> nat" where
  "comms_core cfg s = (if kMultiCore cfg \<and> cd_mode (sy_cores s ! 1) \<noteq> CRUNCH then 1 else 0)"

lemma prependTask_room:
  "length (cd_tasks c) < kMaxTasksPerCore \<Longrightarrow> prependTask (Some r) c = c\<lparr>cd_tasks := r # cd_tasks c\<rparr>"
  by (simp add: prependTask_def)

lemma on_core_cores [simp]: "sy_cores (on_core c f s) = (sy_cores s)[c := f (sy_cores s ! c)]"
  by (simp add: on_core_def)

lemma place_kernel_tasks_room:
  assumes "length (sy_cores s) = kCoreCount cfg" "0 < kCoreCount cfg"
    and "\<forall>c \<in> set (sy_cores s). length (cd_tasks c) + 2 \<le> kMaxTasksPerCore"
  shows "sy_cores (place_kernel_tasks cfg s) =
    (let c0 = sy_cores s ! 0; c1 = sy_cores s ! 1 in
     if \<not> kMultiCore cfg then (sy_cores s)[0 := c0\<lparr>cd_tasks := TControl # TComms # cd_tasks c0\<rparr>]
     else if comms_core cfg s = 0 then (sy_cores s)[0 := c0\<lparr>cd_tasks := TComms # TControl # cd_tasks c0\<rparr>]
     else (sy_cores s)[0 := c0\<lparr>cd_tasks := TControl # cd_tasks c0\<rparr>, 1 := c1\<lparr>cd_tasks := TComms # cd_tasks c1\<rparr>])"
proof -
  have room: "length (cd_tasks (sy_cores s ! i)) + 2 \<le> kMaxTasksPerCore" if "i < kCoreCount cfg" for i
    using assms(1,3) that nth_mem by fastforce
  have r0: "length (cd_tasks (sy_cores s ! 0)) < kMaxTasksPerCore" "Suc (length (cd_tasks (sy_cores s ! 0))) < kMaxTasksPerCore"
    using room [OF assms(2)] by linarith+
  have nz: "0 < length (sy_cores s)" using assms(1,2) by simp
  show ?thesis
  proof (cases "kMultiCore cfg")
    case False
    then show ?thesis
      using r0 nz by (simp add: place_kernel_tasks_def prependTask_room Let_def)
  next
    case True
    then have one: "1 < length (sy_cores s)" "length (cd_tasks (sy_cores s ! 1)) < kMaxTasksPerCore"
      using assms(1) room [of 1] by (simp_all add: kMultiCore_def)
    show ?thesis
    proof (cases "cd_mode (sy_cores s ! 1) = CRUNCH")
      case c: True
      then show ?thesis
        using True r0 nz by (simp add: place_kernel_tasks_def comms_core_def prependTask_room Let_def)
    next
      case c: False
      then show ?thesis
        using True r0 nz one by (simp add: place_kernel_tasks_def comms_core_def prependTask_room Let_def)
    qed
  qed
qed


lemma room_cores:
  assumes "install_kernel cfg b s = Some s0" "length (sy_cores s) = kCoreCount cfg" "0 < kCoreCount cfg"
    and "\<forall>c \<in> set (sy_cores s). length (cd_tasks c) + 2 \<le> kMaxTasksPerCore"
  shows "\<exists>rs. cd_tasks (sy_cores s0 ! 0) = TControl # rs \<or> cd_tasks (sy_cores s0 ! 0) = TComms # TControl # rs"
    "TComms \<in> set (cd_tasks (sy_cores s0 ! comms_core cfg s))" "length (sy_cores s0) = kCoreCount cfg"
    "comms_core cfg s < kCoreCount cfg"
    "i < kCoreCount cfg \<Longrightarrow> set (cd_tasks (sy_cores s0 ! i)) \<subseteq> {TControl, TComms} \<union> set (cd_tasks (sy_cores s ! i))"
    "i < kCoreCount cfg \<Longrightarrow> length (cd_tasks (sy_cores s0 ! i)) \<le> length (cd_tasks (sy_cores s ! i)) + 2"
    "i < kCoreCount cfg \<Longrightarrow> cd_crunchTask (sy_cores s0 ! i) = cd_crunchTask (sy_cores s ! i)"
proof -
  note cores = install_kernel_fields(4) [OF assms(1)] place_kernel_tasks_room [OF assms(2-4)]
  have nz: "0 < length (sy_cores s)" "kMultiCore cfg \<Longrightarrow> 1 < length (sy_cores s)"
    using assms(2,3) by (simp_all add: kMultiCore_def)
  have cc: "comms_core cfg s = 0 \<or> comms_core cfg s = 1 \<and> kMultiCore cfg" by (simp add: comms_core_def)
  show "\<exists>rs. cd_tasks (sy_cores s0 ! 0) = TControl # rs \<or> cd_tasks (sy_cores s0 ! 0) = TComms # TControl # rs"
    using nz by (auto simp: cores Let_def)
  show "TComms \<in> set (cd_tasks (sy_cores s0 ! comms_core cfg s))"
    using nz cc by (auto simp: cores Let_def)
  show "length (sy_cores s0) = kCoreCount cfg" using assms(2) by (simp add: cores Let_def)
  show "comms_core cfg s < kCoreCount cfg" using cc assms(2,3) nz by auto
  show "set (cd_tasks (sy_cores s0 ! i)) \<subseteq> {TControl, TComms} \<union> set (cd_tasks (sy_cores s ! i))" if "i < kCoreCount cfg"
    using nz that assms(2) by (auto simp: cores Let_def nth_list_update)
  show "length (cd_tasks (sy_cores s0 ! i)) \<le> length (cd_tasks (sy_cores s ! i)) + 2"
    "cd_crunchTask (sy_cores s0 ! i) = cd_crunchTask (sy_cores s ! i)" if "i < kCoreCount cfg"
    using nz that assms(2) by (auto simp: cores Let_def nth_list_update)
qed

lemma build_Ok_kernel:
  assumes "build U cfg (b, s) = Some (BuildOk, (b', s'))" "m_app b"
    and "length (sy_cores s) = kCoreCount cfg" "0 < kCoreCount cfg"
    and "\<forall>c \<in> set (sy_cores s). length (cd_tasks c) + 2 \<le> kMaxTasksPerCore"
  shows "cd_tasks (sy_cores s' ! 0) \<noteq> []" "hd (cd_tasks (sy_cores s' ! 0)) = TControl"
    "TComms \<in> set (cd_tasks (sy_cores s' ! comms_core cfg s))" "m_stream b"
    "sy_backgroundTasks s' = sy_backgroundTasks s @ [TDiags]"
    "length (sy_backgroundTasks s') \<le> CfgMaxBackgroundTasks cfg"
    "sy_controlTask s' = Some \<lparr>kc_commandQueue = True, kc_app = True\<rparr>"
    "sy_commsTask s' = Some (setMetricsSnapshotFn True (CommsTask_init cfg True True))"
    "map_option kd_monitoredTasks (sy_diagsTask s') = Some (take kMaxMonitoredTasks (concat (map cd_tasks (sy_cores s'))))"
    "sy_bgRoundRobin s' = sy_bgRoundRobin s" "sy_built s'"
    "sy_backgroundCoreId s' = (if kMultiCore cfg then last_active (sy_cores s') (kCoreCount cfg) else 0)"
    "length (sy_cores s') = kCoreCount cfg"
    "i < kCoreCount cfg \<Longrightarrow> set (cd_tasks (sy_cores s' ! i)) \<subseteq> {TControl, TComms} \<union> set (cd_tasks (sy_cores s ! i))"
    "i < kCoreCount cfg \<Longrightarrow> cd_crunchTask (sy_cores s' ! i) = cd_crunchTask (sy_cores s ! i)"
proof -
  obtain s0 s2 where b: "install_kernel cfg b s = Some s0"
      "build_checks U cfg (sortTasksByPriority U cfg s0) = (BuildOk, s2)" "s' = build_finish U cfg b s2"
    using build_OkE [OF assms(1)] assms(2) by metis
  obtain f where f: "s2 = on_pub f (sortTasksByPriority U cfg s0)" using build_checks_frame [OF b(2)] by blast
  note rc = room_cores [OF b(1) assms(3-5)] and ik = install_kernel_fields [OF b(1)]
  have cores: "sy_cores s' = map (\<lambda>c. c\<lparr>cd_tasks := sort_key (effectivePriority U cfg) (cd_tasks c)\<rparr>) (sy_cores s0)"
    by (simp add: b(3) build_finish_fields f sortTasksByPriority_sort_key)
  have tasks: "cd_tasks (sy_cores s' ! i) = sort_key (effectivePriority U cfg) (cd_tasks (sy_cores s0 ! i))"
      if "i < kCoreCount cfg" for i
    using that rc(3) by (simp add: cores)
  have fields: "sy_backgroundTasks s' = sy_backgroundTasks s0" "sy_controlTask s' = sy_controlTask s0"
      "sy_commsTask s' = sy_commsTask s0" "sy_bgRoundRobin s' = sy_bgRoundRobin s0"
      "sy_backgroundCoreId s' = sy_backgroundCoreId s0"
    by (simp_all add: b(3) build_finish_fields f sortTasksByPriority_def)
  show hd: "hd (cd_tasks (sy_cores s' ! 0)) = TControl" and "cd_tasks (sy_cores s' ! 0) \<noteq> []"
    using rc(1) assms(4) hd_sort_control by (auto simp: tasks simp flip: length_greater_0_conv)
  show comms: "TComms \<in> set (cd_tasks (sy_cores s' ! comms_core cfg s))" using rc(2,4) by (simp add: tasks)
  have "sy_cores s' ! comms_core cfg s \<in> set (sy_cores (sortTasksByPriority U cfg s0))"
    using rc(3,4) by (simp add: cores sortTasksByPriority_sort_key)
  then have "tref_validateDependencies U TComms s2" using build_checks_Ok(4) [OF b(2)] comms by blast
  then show stream: "m_stream b"
    by (simp add: tref_validateDependencies_def f sortTasksByPriority_def ik(7) comms_validateDependencies_def
        setMetricsSnapshotFn_def CommsTask_init_def CLI_init_def hasStream_def)
  show "sy_backgroundTasks s' = sy_backgroundTasks s @ [TDiags]" "length (sy_backgroundTasks s') \<le> CfgMaxBackgroundTasks cfg"
    "sy_controlTask s' = Some \<lparr>kc_commandQueue = True, kc_app = True\<rparr>"
    "sy_commsTask s' = Some (setMetricsSnapshotFn True (CommsTask_init cfg True True))"
    "sy_bgRoundRobin s' = sy_bgRoundRobin s" "sy_built s'" "length (sy_cores s') = kCoreCount cfg"
    using ik(1-3,6-7) stream rc(3) by (simp_all add: fields cores) (simp add: b(3) build_finish_fields)
  show "set (cd_tasks (sy_cores s' ! i)) \<subseteq> {TControl, TComms} \<union> set (cd_tasks (sy_cores s ! i))" if "i < kCoreCount cfg"
    using rc(5) [OF that] by (simp add: tasks [OF that])
  show "cd_crunchTask (sy_cores s' ! i) = cd_crunchTask (sy_cores s ! i)" if "i < kCoreCount cfg"
    using rc(3) rc(7) [OF that] that by (simp add: cores)
  have act: "last_active (map (\<lambda>c. c\<lparr>cd_tasks := sort_key (effectivePriority U cfg) (cd_tasks c)\<rparr>) cs) n = last_active cs n"
    if "n \<le> length cs" for cs n
    using that by (induction n) (simp_all add: isActive_def)
  show "sy_backgroundCoreId s' = (if kMultiCore cfg then last_active (sy_cores s') (kCoreCount cfg) else 0)"
    using ik(10) rc(3) by (simp add: fields cores act)
  show "map_option kd_monitoredTasks (sy_diagsTask s') = Some (take kMaxMonitoredTasks (concat (map cd_tasks (sy_cores s'))))"
  proof -
    obtain d where d: "sy_diagsTask s0 = Some d" using ik(8) by blast
    have "1 * kMaxTasksPerCore \<le> kCoreCount cfg * kMaxTasksPerCore"
      using assms(4) by (intro mult_le_mono1) simp
    then have "kMaxMonitoredTasks \<le> kCoreCount cfg * kMaxTasksPerCore"
      by (simp add: kMaxMonitoredTasks_def kMaxTasksPerCore_def)
    then have mon: "min kMaxMonitoredTasks (kCoreCount cfg * kMaxTasksPerCore) = kMaxMonitoredTasks"
      by (simp add: min_def)
    have set: "kd_monitoredTasks (setMonitoredTasks ts d) = take kMaxMonitoredTasks ts" for ts
      by (simp add: setMonitoredTasks_def Let_def)
    have "sy_diagsTask s2 = Some d" "sy_cores s' = sy_cores s2"
      using d by (simp_all add: f sortTasksByPriority_def b(3) build_finish_fields)
    then show ?thesis using assms(2) by (simp add: b(3) build_finish_fields set mon)
  qed
qed


section \<open>Initialisation returns\<close>

lemma tref_init_returns:
  assumes "task_returns U cfg s r"
  shows "\<exists>s'. tref_init U cfg r s = Some s' \<and> (\<forall>r'. task_returns U cfg s r' \<longrightarrow> task_returns U cfg s' r')"
proof (cases r)
  case TComms
  then obtain t where t: "sy_commsTask s = Some t" "cli_ok cfg (ct_cli t)"
    using assms by (auto simp: task_returns_def split: option.splits)
  obtain c p where c: "CLI_tick cfg (pub_stream U) (comms_handler (pub_stream U) (snapshot U cfg (sy_cores s)) (ct_snapshotFn t))
      (setProtocolHandler True (ct_cli t), sy_pub s) = (c, p)" by fastforce
  have "cli_ok cfg c" using comms.CLI_tick_ok [OF setProtocolHandler_ok [OF t(2)]] c by (metis fst_conv)
  then show ?thesis using TComms t c by (auto simp: tref_init_def comms_init_def task_returns_def split: tref.splits)
qed (use assms in \<open>auto simp: tref_init_def task_returns_def on_pub_def split: tref.splits option.splits\<close>)

lemma init_tasks_returns:
  "returning U cfg rs s \<Longrightarrow> \<exists>s'. init_tasks U cfg rs s = Some s' \<and> (\<forall>r'. task_returns U cfg s r' \<longrightarrow> task_returns U cfg s' r')"
proof (induction rs arbitrary: s)
  case (Cons r rs)
  obtain s1 where s1: "tref_init U cfg r s = Some s1" "\<forall>r'. task_returns U cfg s r' \<longrightarrow> task_returns U cfg s1 r'"
    using tref_init_returns Cons.prems by (metis list.set_intros(1) returning_def)
  then have "returning U cfg rs s1" using Cons.prems by (auto simp: returning_def)
  from Cons.IH [OF this] s1 show ?case by fastforce
qed simp

lemma tref_init_frame:
  assumes "tref_init U cfg r s = Some s'"
  shows "sy_built s' = sy_built s" "sy_bgRoundRobin s' = sy_bgRoundRobin s"
  using assms by (auto simp: tref_init_def split: tref.splits option.splits prod.splits)

lemma init_tasks_frame:
  assumes "init_tasks U cfg rs s = Some s'"
  shows "sy_built s' = sy_built s" "sy_bgRoundRobin s' = sy_bgRoundRobin s"
  using assms by (induction rs arbitrary: s) (auto split: bind_splits simp: tref_init_frame)

lemma transitionTo_task_returns [simp]:
  "task_returns U cfg (snd (transitionTo st s)) r = task_returns U cfg s r"
  "sy_built (snd (transitionTo st s)) = sy_built s" "sy_bgRoundRobin (snd (transitionTo st s)) = sy_bgRoundRobin s"
  by (simp_all add: transitionTo_def task_returns_def split: tref.split)

lemma System_init_tickable:
  assumes "tickable U cfg c s" "c < kCoreCount cfg"
  shows "\<exists>s'. System_init U cfg c s = Some s' \<and> tickable U cfg c s'"
proof -
  define s1 where "s1 = (if sy_kernelState s = CONFIGURED then snd (transitionTo INITIALIZING s) else s)"
  have s1: "task_returns U cfg s1 r = task_returns U cfg s r" "sy_cores s1 = sy_cores s" "sy_built s1" "sy_backgroundTasks s1 = sy_backgroundTasks s"
      "sy_bgRoundRobin s1 = sy_bgRoundRobin s" for r
    using assms(1) by (simp_all add: s1_def transitionTo_fields tickable_def)
  have ret: "returning U cfg (cd_tasks (sy_cores s ! c)) s1" "returning U cfg (sy_backgroundTasks s) s1"
    using assms(1) s1 by (simp_all add: tickable_def returning_def)
  obtain s2 where s2: "init_tasks U cfg (cd_tasks (sy_cores s ! c)) s1 = Some s2"
      "\<forall>r'. task_returns U cfg s r' \<longrightarrow> task_returns U cfg s2 r'"
    using init_tasks_returns [OF ret(1)] s1(1) by auto
  obtain s3 where s3: "(case cd_crunchTask (sy_cores s2 ! c) of
               Some n \<Rightarrow> if cd_mode (sy_cores s2 ! c) = CRUNCH then tref_init U cfg (TCrunch n) s2 else Some s2
             | None \<Rightarrow> Some s2) = Some s3" "\<And>r. task_returns U cfg s3 r = task_returns U cfg s2 r"
      "sy_cores s3 = sy_cores s2" "sy_built s3 = sy_built s2" "sy_backgroundTasks s3 = sy_backgroundTasks s2"
      "sy_bgRoundRobin s3 = sy_bgRoundRobin s2"
    by (cases "cd_crunchTask (sy_cores s2 ! c)"; cases "cd_mode (sy_cores s2 ! c) = CRUNCH")
       (auto simp: tref_init_def intro: that)
  note f2 = init_tasks_fields [OF s2(1)] init_tasks_frame [OF s2(1)]
  have "returning U cfg (sy_backgroundTasks s3) s3"
    using ret(2) s2(2) s3(2,5) f2 s1 by (simp add: returning_def)
  from init_tasks_returns [OF this] obtain s4 where s4: "init_tasks U cfg (sy_backgroundTasks s3) s3 = Some s4"
      "\<forall>r'. task_returns U cfg s3 r' \<longrightarrow> task_returns U cfg s4 r'" by blast
  define s5 where "s5 = (if c = sy_backgroundCoreId s3 then s4 else s3)"
  have s5: "\<forall>r'. task_returns U cfg s r' \<longrightarrow> task_returns U cfg s5 r'" "sy_cores s5 = sy_cores s" "sy_built s5"
      "sy_backgroundTasks s5 = sy_backgroundTasks s" "sy_bgRoundRobin s5 = sy_bgRoundRobin s"
    using s2(2) s3(2-6) s4(2) init_tasks_fields [OF s4(1)] init_tasks_frame [OF s4(1)] f2 s1
    by (simp_all add: s5_def)
  let ?s6 = "(if sy_kernelState s5 = INITIALIZING then snd (transitionTo RUNNING s5) else s5)
      \<lparr>sy_coreInitialized := (sy_coreInitialized
         (if sy_kernelState s5 = INITIALIZING then snd (transitionTo RUNNING s5) else s5))[c := True]\<rparr>"
  have "System_init U cfg c s = Some ?s6"
    using assms s2(1) s3(1,5) s4(1) s1 f2
    by (simp add: System_init_def Let_def tickable_def s1_def [symmetric] s5_def)
  moreover have "task_returns U cfg ?s6 r = task_returns U cfg s5 r" for r
    by (simp add: task_returns_def transitionTo_def split: tref.split)
  then have "tickable U cfg c ?s6"
    using assms(1) s5 by (auto simp: tickable_def returning_def ring_wf_def ring_ok_def transitionTo_fields)
  ultimately show ?thesis by blast
qed


section \<open>Building twice\<close>

lemma install_again:
  assumes "TControl \<in> set (cd_tasks (sy_cores s ! 0))" "install_kernel cfg b s = Some s0"
    and "length (sy_cores s) = kCoreCount cfg" "0 < kCoreCount cfg"
    and "\<forall>c \<in> set (sy_cores s). length (cd_tasks c) + 2 \<le> kMaxTasksPerCore"
  shows "\<not> distinct (cd_tasks (sy_cores s0 ! 0))"
proof -
  have "cd_tasks (sy_cores s0 ! 0) = (if \<not> kMultiCore cfg then [TControl, TComms]
      else if comms_core cfg s = 0 then [TComms, TControl] else [TControl]) @ cd_tasks (sy_cores s ! 0)"
    using assms(3,4) by (auto simp: install_kernel_fields(4) [OF assms(2)] place_kernel_tasks_room [OF assms(3-5)] Let_def)
  with assms(1) show ?thesis by auto
qed

lemma build_again:
  assumes "TControl \<in> set (cd_tasks (sy_cores s ! 0))" "m_app b"
    and "length (sy_cores s) = kCoreCount cfg" "0 < kCoreCount cfg"
    and "\<forall>c \<in> set (sy_cores s). length (cd_tasks c) + 2 \<le> kMaxTasksPerCore"
  shows "build U cfg (b, s) \<noteq> Some (BuildOk, bs)"
proof
  assume ok: "build U cfg (b, s) = Some (BuildOk, bs)"
  obtain b' s' where bs: "bs = (b', s')" by fastforce
  obtain s0 s2 where b: "install_kernel cfg b s = Some s0"
      "build_checks U cfg (sortTasksByPriority U cfg s0) = (BuildOk, s2)"
    using build_OkE [OF ok [unfolded bs]] assms(2) by metis
  have "sy_cores (sortTasksByPriority U cfg s0) ! 0 \<in> set (sy_cores (sortTasksByPriority U cfg s0))"
    using room_cores(3) [OF b(1) assms(3-5)] assms(4) by (simp add: sortTasksByPriority_def)
  then have "distinct (cd_tasks (sy_cores (sortTasksByPriority U cfg s0) ! 0))"
    using build_checks_Ok(2) [OF b(2)] by (auto simp: distinct_concat_iff)
  moreover have "cd_tasks (sy_cores (sortTasksByPriority U cfg s0) ! 0)
      = sort_key (effectivePriority U cfg) (cd_tasks (sy_cores s0 ! 0))"
    using room_cores(3) [OF b(1) assms(3-5)] assms(4) by (simp add: sortTasksByPriority_sort_key)
  ultimately show False using install_again [OF assms(1) b(1) assms(3-5)] by simp
qed

lemma build_failed_cores:
  assumes "build U cfg (b, s) = Some (BuildError e, (b', s'))" "m_app b" "\<not> sy_built s"
    and "length (sy_cores s) = kCoreCount cfg" "0 < kCoreCount cfg"
    and "\<forall>c \<in> set (sy_cores s). length (cd_tasks c) + 4 \<le> kMaxTasksPerCore"
  shows "TControl \<in> set (cd_tasks (sy_cores s' ! 0))" "length (sy_cores s') = kCoreCount cfg"
    "\<forall>c \<in> set (sy_cores s'). length (cd_tasks c) + 2 \<le> kMaxTasksPerCore"
proof -
  have room: "\<forall>c \<in> set (sy_cores s). length (cd_tasks c) + 2 \<le> kMaxTasksPerCore" using assms(6) by fastforce
  obtain s0 s2 where b: "install_kernel cfg b s = Some s0"
      "build_checks U cfg (sortTasksByPriority U cfg s0) = (BuildError e, s2)" "s' = s2"
    using assms(1-3) by (auto simp: build_def Let_def split: if_splits bind_splits prod.splits)
  obtain f where f: "s2 = on_pub f (sortTasksByPriority U cfg s0)" using build_checks_frame [OF b(2)] by blast
  have cores: "sy_cores s' = map (\<lambda>c. c\<lparr>cd_tasks := sort_key (effectivePriority U cfg) (cd_tasks c)\<rparr>) (sy_cores s0)"
    by (simp add: b(3) f sortTasksByPriority_sort_key)
  note rc = room_cores [OF b(1) assms(4,5) room]
  show "TControl \<in> set (cd_tasks (sy_cores s' ! 0))" "length (sy_cores s') = kCoreCount cfg"
    using rc(1,3) assms(5) by (auto simp: cores)
  have "length (cd_tasks c) + 2 \<le> kMaxTasksPerCore" if c: "c \<in> set (sy_cores s0)" for c
  proof -
    obtain i where i: "i < kCoreCount cfg" "c = sy_cores s0 ! i" using c rc(3) by (metis in_set_conv_nth)
    then have "length (cd_tasks (sy_cores s ! i)) + 4 \<le> kMaxTasksPerCore" using assms(4,6) by simp
    with rc(6) [OF i(1)] i(2) show ?thesis by simp
  qed
  then show "\<forall>c \<in> set (sy_cores s'). length (cd_tasks c) + 2 \<le> kMaxTasksPerCore" by (auto simp: cores)
qed

section \<open>The ring on another core\<close>

lemma ticks_keep_diags:
  assumes "c < kCoreCount cfg"
  shows "System_ticks U cfg c nows s = Some s' \<Longrightarrow> c \<noteq> sy_backgroundCoreId s \<Longrightarrow>
    TDiags \<notin> set (cd_tasks (sy_cores s ! c)) \<Longrightarrow> sy_diagsTask s' = sy_diagsTask s"
proof (induction nows arbitrary: s)
  case (Cons now nows)
  obtain s1 where s1: "System_tick U cfg c now s = Some s1" "System_ticks U cfg c nows s1 = Some s'"
    using Cons.prems(1) by (auto split: bind_splits)
  obtain b1 s2 b2 s3 where steps:
      "phase1 U cfg c now 0 (cd_tasks (sy_cores s ! c)) (0, tick_begin c now s) = Some (b1, s2)"
      "phase2 U cfg c now (b1, s2) = Some (b2, s3)" "s1 = tick_end U cfg c now (b2, s3)"
    by (rule System_tickE [OF s1(1) assms])
  have "tick_effect s s2" using tick_begin_effect phase1_effect [OF steps(1)] tick_effect_trans by blast
  then have "s3 = s2" using steps(2) Cons.prems(2) by (simp add: phase2_def tick_effect_fields)
  moreover have "sy_diagsTask s2 = sy_diagsTask s"
    using phase1_diags [OF steps(1) Cons.prems(3)] by (simp add: tick_begin_def Let_def)
  ultimately have "sy_diagsTask s1 = sy_diagsTask s" by (simp add: steps(3) tick_end_def split: prod.split)
  then show ?case
    using Cons.IH [OF s1(2)] Cons.prems tick_effect_fields(5,6) [OF System_tick_effect [OF s1(1)]] by simp
qed simp


lemma build_Ok_tickable:
  assumes "build U cfg (b, s) = Some (BuildOk, (b', s'))" "m_app b" "c < kCoreCount cfg"
    and "length (sy_cores s) = kCoreCount cfg" "sy_bgRoundRobin s = 0" "0 < CfgMaxLineLen cfg"
    and "\<forall>c \<in> set (sy_cores s). length (cd_tasks c) + 2 \<le> kMaxTasksPerCore"
    and "\<forall>r \<in> set (concat (map cd_tasks (sy_cores s)) @ sy_backgroundTasks s).
           \<exists>n. r = TUser n \<and> (\<forall>now p. task_tick (user_task U n) now p \<noteq> None)"
  shows "tickable U cfg c s'"
proof -
  have pos: "0 < kCoreCount cfg" using assms(3) by simp
  note k = build_Ok_kernel [OF assms(1,2,4) pos assms(7)]
  have kernel: "task_returns U cfg s' TControl" "task_returns U cfg s' TComms" "task_returns U cfg s' TDiags"
    using k(7-9) cli_ok_init [OF assms(6), of True]
    by (auto simp: task_returns_def setMetricsSnapshotFn_def CommsTask_init_def)
  have users: "task_returns U cfg s' r" if "r \<in> set (concat (map cd_tasks (sy_cores s)) @ sy_backgroundTasks s)" for r
    using assms(8) that by (fastforce simp: task_returns_def)
  have "sy_cores s ! c \<in> set (sy_cores s)" using assms(3,4) by simp
  then have "task_returns U cfg s' r" if "r \<in> set (cd_tasks (sy_cores s' ! c) @ sy_backgroundTasks s')" for r
    using that k(5) k(14) [OF assms(3)] kernel users by fastforce
  then show ?thesis
    using k(5,10,11) assms(5) by (simp add: tickable_def returning_def ring_wf_def ring_ok_def)
qed

section \<open>Properties\<close>

text \<open>An application with one scheduled task on core 0 and one background task; \<open>stream\<close> tells whether its
  stream was set. The second one also gives core 1 to a crunch task.\<close>

definition example_builder :: "bool \<Rightarrow> example_user_state build" where
  "example_builder stream = addBackgroundTask example_cfg (Some (TUser 95))
     (addScheduledTask example_cfg 0 (Some (TUser 20))
       (setStream stream (SystemBuilder_init True, System_static example_cfg example_state)))"

definition example_crunch_builder :: "example_user_state build" where
  "example_crunch_builder = setCrunchTask example_cfg 1 (Some 3) (example_builder True)"

lemma example_build_ok:
  "\<exists>b' s'. build example_user example_cfg (fst (example_builder True), snd (example_builder True)) = Some (BuildOk, (b', s'))"
  "\<exists>b' s'. build example_user example_cfg (fst example_crunch_builder, snd example_crunch_builder) = Some (BuildOk, (b', s'))"
proof -
  have "map_option fst (build example_user example_cfg (example_builder True)) = Some BuildOk"
    by code_simp
  then show "\<exists>b' s'. build example_user example_cfg (fst (example_builder True), snd (example_builder True)) = Some (BuildOk, (b', s'))"
    by auto
  have "map_option fst (build example_user example_cfg example_crunch_builder) = Some BuildOk"
    by code_simp
  then show "\<exists>b' s'. build example_user example_cfg (fst example_crunch_builder, snd example_crunch_builder) = Some (BuildOk, (b', s'))"
    by auto
qed

lemma example_build_fails:
  "\<exists>b' s'. build example_user example_cfg (fst (example_builder False), snd (example_builder False)) =
     Some (BuildError ''Task dependency validation failed'', (b', s'))"
proof -
  have "map_option fst (build example_user example_cfg (example_builder False)) =
      Some (BuildError ''Task dependency validation failed'')"
    by code_simp
  then show ?thesis by auto
qed

lemma example_builder_fields:
  "m_app (fst (example_builder stream))" "sy_kernelState (snd (example_builder stream)) = UNCONFIGURED"
  "\<not> sy_built (snd (example_builder stream))"
  "sy_cores (snd (example_builder stream)) = [\<lparr>cd_tasks = [TUser 20], cd_mode = FLAT_LOOP, cd_crunchTask = None\<rparr>, CoreData_init]"
  "sy_backgroundTasks (snd (example_builder stream)) = [TUser 95]" "sy_bgRoundRobin (snd (example_builder stream)) = 0"
  by (simp_all add: example_builder_def addBackgroundTask_def addScheduledTask_def setStream_def SystemBuilder_init_def
      System_static_def builder_core_def addTask_def on_core_def numeral_2_eq_2 kMaxTasksPerCore_def CoreData_init_def)

lemma example_crunch_builder_fields:
  "m_app (fst example_crunch_builder)"
  "sy_cores (snd example_crunch_builder) =
     [\<lparr>cd_tasks = [TUser 20], cd_mode = FLAT_LOOP, cd_crunchTask = None\<rparr>, \<lparr>cd_tasks = [], cd_mode = CRUNCH, cd_crunchTask = Some 3\<rparr>]"
  "sy_backgroundTasks (snd example_crunch_builder) = [TUser 95]" "sy_bgRoundRobin (snd example_crunch_builder) = 0"
proof -
  have eq: "example_crunch_builder = (fst (example_builder True),
      on_core 1 (\<lambda>c. c\<lparr>cd_mode := CRUNCH, cd_crunchTask := Some 3\<rparr>) (snd (example_builder True)))"
    by (simp add: example_crunch_builder_def setCrunchTask_def builder_core_def case_prod_unfold Let_def)
  show "m_app (fst example_crunch_builder)"
    "sy_cores (snd example_crunch_builder) =
       [\<lparr>cd_tasks = [TUser 20], cd_mode = FLAT_LOOP, cd_crunchTask = None\<rparr>, \<lparr>cd_tasks = [], cd_mode = CRUNCH, cd_crunchTask = Some 3\<rparr>]"
    "sy_backgroundTasks (snd example_crunch_builder) = [TUser 95]" "sy_bgRoundRobin (snd example_crunch_builder) = 0"
    unfolding eq using example_builder_fields [of True] by (simp_all add: CoreData_init_def on_core_def)
qed

text \<open>C22: the hand-written insertion sort is the stable sort. On every core, sorting by priority permutes the task
  list into ascending effective priority and keeps the order of registration among equal priorities.\<close>

theorem sort_by_priority:
  "sortTasksByPriority U cfg s =
     s\<lparr>sy_cores := map (\<lambda>c. c\<lparr>cd_tasks := sort_key (effectivePriority U cfg) (cd_tasks c)\<rparr>) (sy_cores s)\<rparr>"
  by (rule sortTasksByPriority_sort_key)

text \<open>C11: what a successful build guarantees. The system is built and CONFIGURED; no task is registered twice, on
  one core or on two; on every core the tasks are in ascending effective priority and no scheduled period is
  positive but below the configured minimum; a crunch core is not core 0, has a crunch task of an admissible
  period and no other task.\<close>

theorem build_configures:
  assumes "build U cfg (b, s) = Some (BuildOk, (b', s'))" "sy_kernelState s = UNCONFIGURED"
  shows "configured U cfg s'"
  using build_Ok_configured [OF assms] .

theorem build_configures_witness:
  "\<exists>b' s'. build example_user example_cfg (fst (example_builder True), snd (example_builder True)) = Some (BuildOk, (b', s')) \<and>
     configured example_user example_cfg s'"
  using example_build_ok(1) build_configures example_builder_fields(2) by fastforce

text \<open>C12: a successful build installs the kernel. With an application and room on the cores, the control task is
  the first task of core 0, the communications task is on core 1, or on core 0 when there is no core 1 or it
  is a crunch core; a stream was set; the diagnostics task is the last of the ring and monitors the first
  16 tasks in core order; and the ring runs on the last active core.\<close>

theorem build_installs_kernel:
  assumes "build U cfg (b, s) = Some (BuildOk, (b', s'))" "m_app b"
    and "length (sy_cores s) = kCoreCount cfg" "0 < kCoreCount cfg"
    and "\<forall>c \<in> set (sy_cores s). length (cd_tasks c) + 2 \<le> kMaxTasksPerCore"
  shows "System_task cfg 0 0 s' = Some TControl \<and> TComms \<in> set (cd_tasks (sy_cores s' ! comms_core cfg s)) \<and>
     m_stream b \<and> sy_backgroundTasks s' = sy_backgroundTasks s @ [TDiags] \<and>
     map_option kd_monitoredTasks (sy_diagsTask s') =
       Some (take kMaxMonitoredTasks (concat (map cd_tasks (sy_cores s')))) \<and>
     sy_backgroundCoreId s' = (if kMultiCore cfg then last_active (sy_cores s') (kCoreCount cfg) else 0)"
  using build_Ok_kernel [OF assms] assms(4) by (simp add: System_task_def core_task_def hd_conv_nth)

theorem build_installs_kernel_witness:
  "\<exists>b' s'. build example_user example_cfg (fst (example_builder True), snd (example_builder True)) = Some (BuildOk, (b', s')) \<and>
     System_task example_cfg 0 0 s' = Some TControl \<and> TComms \<in> set (cd_tasks (sy_cores s' ! 1)) \<and>
     sy_backgroundTasks s' = [TUser 95, TDiags]"
proof -
  obtain b' s' where b: "build example_user example_cfg (fst (example_builder True), snd (example_builder True)) = Some (BuildOk, (b', s'))"
    using example_build_ok(1) by blast
  have "comms_core example_cfg (snd (example_builder True)) = 1"
    by (simp add: comms_core_def kMultiCore_def example_builder_fields CoreData_init_def)
  with build_installs_kernel [OF b] b show ?thesis
    by (fastforce simp: example_builder_fields CoreData_init_def kMaxTasksPerCore_def)
qed

text \<open>C4: what is built can run. When every task registered by the application is an ordinary task whose tick
  returns, a successful build leaves a system on which each core can be initialised and then ticked at any
  times: no kernel task is missing, and every call returns.\<close>

theorem built_system_ticks:
  assumes "build U cfg (b, s) = Some (BuildOk, (b', s'))" "m_app b" "c < kCoreCount cfg"
    and "length (sy_cores s) = kCoreCount cfg" "sy_bgRoundRobin s = 0" "0 < CfgMaxLineLen cfg"
    and "\<forall>c \<in> set (sy_cores s). length (cd_tasks c) + 2 \<le> kMaxTasksPerCore"
    and "\<forall>r \<in> set (concat (map cd_tasks (sy_cores s)) @ sy_backgroundTasks s).
           \<exists>n. r = TUser n \<and> (\<forall>now p. task_tick (user_task U n) now p \<noteq> None)"
  shows "\<exists>s1. System_init U cfg c s' = Some s1 \<and> (\<exists>s2. System_ticks U cfg c nows s1 = Some s2)"
proof -
  obtain s1 where s1: "System_init U cfg c s' = Some s1" "tickable U cfg c s1"
    using System_init_tickable [OF build_Ok_tickable [OF assms] assms(3)] by blast
  with System_ticks_tickable [OF s1(2) assms(3), of nows] show ?thesis by blast
qed

theorem built_system_ticks_witness:
  "\<exists>b' s'. build example_user example_cfg (fst (example_builder True), snd (example_builder True)) = Some (BuildOk, (b', s')) \<and>
     (\<exists>s1. System_init example_user example_cfg 0 s' = Some s1 \<and>
        (\<exists>s2. System_ticks example_user example_cfg 0 [1000, 21000, 3] s1 = Some s2))"
proof -
  obtain b' s' where b: "build example_user example_cfg (fst (example_builder True), snd (example_builder True)) = Some (BuildOk, (b', s'))"
    using example_build_ok(1) by blast
  have "\<forall>r \<in> set (concat (map cd_tasks (sy_cores (snd (example_builder True)))) @ sy_backgroundTasks (snd (example_builder True))).
           \<exists>n. r = TUser n \<and> (\<forall>now p. task_tick (user_task example_user n) now p \<noteq> None)"
    by (simp add: example_builder_fields CoreData_init_def example_user_def example_task_def)
  then have "\<exists>s1. System_init example_user example_cfg 0 s' = Some s1 \<and>
      (\<exists>s2. System_ticks example_user example_cfg 0 [1000, 21000, 3] s1 = Some s2)"
    using example_builder_fields [of True]
    by (intro built_system_ticks [OF b]) (simp_all add: CoreData_init_def kMaxTasksPerCore_def)
  with b show ?thesis by blast
qed

text \<open>A failed build cannot be repaired. The kernel tasks are put on the cores before anything is checked, so
  after a failed build, whatever is changed in the builder (say, the missing stream is set), the next build
  of the same system registers the control task a second time and fails again; only \<^verbatim>\<open>System::reset()\<close>, which
  forgets all registrations, helps.\<close>

theorem failed_build_not_retryable:
  assumes "build U cfg (b, s) = Some (BuildError e, (b', s'))" "m_app b" "\<not> sy_built s"
    and "length (sy_cores s) = kCoreCount cfg" "0 < kCoreCount cfg"
    and "\<forall>c \<in> set (sy_cores s). length (cd_tasks c) + 4 \<le> kMaxTasksPerCore" "m_app b''"
  shows "build U cfg (b'', s') \<noteq> Some (BuildOk, bs)"
  using build_again [OF build_failed_cores(1) [OF assms(1-6)] assms(7) build_failed_cores(2) [OF assms(1-6)] assms(5)
      build_failed_cores(3) [OF assms(1-6)]] .

theorem failed_build_not_retryable_witness:
  "\<exists>b' s'. build example_user example_cfg (fst (example_builder False), snd (example_builder False)) =
       Some (BuildError ''Task dependency validation failed'', (b', s')) \<and>
     build example_user example_cfg (b'\<lparr>m_app := True, m_stream := True\<rparr>, s') \<noteq> Some (BuildOk, bs)"
proof -
  obtain b' s' where b: "build example_user example_cfg (fst (example_builder False), snd (example_builder False)) =
      Some (BuildError ''Task dependency validation failed'', (b', s'))"
    using example_build_fails by blast
  with failed_build_not_retryable [OF b, of "b'\<lparr>m_app := True, m_stream := True\<rparr>"] show ?thesis
    by (simp add: example_builder_fields CoreData_init_def kMaxTasksPerCore_def)
qed

lemma addBackgroundTask_fold:
  "\<exists>rs'. fold (\<lambda>r. addBackgroundTask cfg (Some r)) rs (b, s) = (b, s\<lparr>sy_backgroundTasks := sy_backgroundTasks s @ rs'\<rparr>) \<and>
     length rs' = min (length rs) (CfgMaxBackgroundTasks cfg - length (sy_backgroundTasks s))"
proof (induction rs arbitrary: s)
  case (Cons r rs)
  show ?case
  proof (cases "length (sy_backgroundTasks s) < CfgMaxBackgroundTasks cfg")
    case True
    let ?s = "s\<lparr>sy_backgroundTasks := sy_backgroundTasks s @ [r]\<rparr>"
    obtain rs' where "fold (\<lambda>r. addBackgroundTask cfg (Some r)) rs (b, ?s) = (b, ?s\<lparr>sy_backgroundTasks := sy_backgroundTasks ?s @ rs'\<rparr>)"
        "length rs' = min (length rs) (CfgMaxBackgroundTasks cfg - length (sy_backgroundTasks ?s))"
      using Cons [of ?s] by blast
    moreover have "addBackgroundTask cfg (Some r) (b, s) = (b, ?s)" using True by (simp add: addBackgroundTask_def)
    ultimately show ?thesis using True by (intro exI [of _ "r # rs'"]) simp
  next
    case False
    then have "addBackgroundTask cfg (Some r) (b, s) = (b, s)" by (simp add: addBackgroundTask_def)
    with False Cons [of s] show ?thesis by simp
  qed
qed (simp add: exI [of _ "[]"])

text \<open>The only way \<^verbatim>\<open>build()\<close> leaves an array: an application is set and the ring is already full.\<close>

lemma build_None_iff:
  "build U cfg (b, s) = None \<longleftrightarrow>
     \<not> sy_built s \<and> m_app b \<and> CfgMaxBackgroundTasks cfg \<le> length (sy_backgroundTasks s)"
proof -
  have "sy_backgroundTasks (place_kernel_tasks cfg (emplace_kernel_tasks cfg b s)) = sy_backgroundTasks s"
    by (simp add: place_kernel_tasks_def emplace_kernel_tasks_def on_core_def Let_def)
  then show ?thesis
    by (auto simp: build_def install_kernel_def register_diags_def Let_def split: prod.split)
qed

text \<open>C38: a full background ring. \<^verbatim>\<open>build()\<close> stores the diagnostics task without looking at the capacity. An
  application that registers as many background tasks as the configuration allows makes it write behind the
  array; with fewer it does not.\<close>

theorem build_ring_overflow:
  "build U cfg (fold (\<lambda>r. addBackgroundTask cfg (Some r)) rs (SystemBuilder_init True, System_static cfg u)) = None \<longleftrightarrow>
     CfgMaxBackgroundTasks cfg \<le> length rs"
proof -
  obtain rs' where rs': "fold (\<lambda>r. addBackgroundTask cfg (Some r)) rs (SystemBuilder_init True, System_static cfg u) =
      (SystemBuilder_init True, (System_static cfg u)\<lparr>sy_backgroundTasks := rs'\<rparr>)"
      "length rs' = min (length rs) (CfgMaxBackgroundTasks cfg)"
    using addBackgroundTask_fold [of cfg rs "SystemBuilder_init True" "System_static cfg u"] by (auto simp: System_static_def)
  then show ?thesis by (auto simp: build_None_iff SystemBuilder_init_def System_static_def)
qed

text \<open>Background tasks on a crunch core. When the last core is a crunch core, the ring is assigned to it, and
  nothing ever serves the ring: the crunch loop does not, and the ticks of the other cores leave the state
  of the diagnostics task (its cycle counter, so the watchdog callback, the budget scan and the telemetry
  drain) untouched, for any number of ticks.\<close>

theorem crunch_core_blocks_ring:
  assumes "build U cfg (b, s) = Some (BuildOk, (b', s'))" "m_app b" "kMultiCore cfg"
    and "length (sy_cores s) = kCoreCount cfg"
    and "\<forall>c \<in> set (sy_cores s). length (cd_tasks c) + 2 \<le> kMaxTasksPerCore \<and> TDiags \<notin> set (cd_tasks c)"
    and "cd_crunchTask (sy_cores s ! (kCoreCount cfg - 1)) \<noteq> None" "c < kCoreCount cfg - 1"
    and "System_ticks U cfg c nows s' = Some s''"
  shows "sy_backgroundCoreId s' = kCoreCount cfg - 1 \<and> sy_diagsTask s'' = sy_diagsTask s'"
proof -
  have room: "\<forall>c \<in> set (sy_cores s). length (cd_tasks c) + 2 \<le> kMaxTasksPerCore" using assms(5) by blast
  have pos: "0 < kCoreCount cfg" and c: "c < kCoreCount cfg" using assms(7) by simp_all
  let ?l = "kCoreCount cfg - 1"
  note k = build_Ok_kernel [OF assms(1,2,4) pos room]
  have "isActive (sy_cores s' ! ?l)" using k(15) [of ?l] assms(6) pos by (simp add: isActive_def)
  moreover have "kCoreCount cfg = Suc ?l" using pos by simp
  ultimately have "last_active (sy_cores s') (kCoreCount cfg) = ?l" by (metis last_active.simps(2))
  then have bg: "sy_backgroundCoreId s' = ?l" using k(12) assms(3) by simp
  have "sy_cores s ! c \<in> set (sy_cores s)" using c assms(4) by simp
  then have "TDiags \<notin> set (cd_tasks (sy_cores s' ! c))" using k(14) [OF c] assms(5) by blast
  with ticks_keep_diags [OF c assms(8)] bg assms(7) show ?thesis by simp
qed

theorem crunch_core_blocks_ring_witness:
  "\<exists>b' s' s''. build example_user example_cfg (fst example_crunch_builder, snd example_crunch_builder) = Some (BuildOk, (b', s')) \<and>
     System_ticks example_user example_cfg 0 [1000, 21000] s' = Some s'' \<and>
     sy_backgroundCoreId s' = 1 \<and> sy_diagsTask s'' = sy_diagsTask s'"
proof -
  obtain b' s' where b: "build example_user example_cfg (fst example_crunch_builder, snd example_crunch_builder) = Some (BuildOk, (b', s'))"
    using example_build_ok(2) by blast
  have "\<forall>r \<in> set (concat (map cd_tasks (sy_cores (snd example_crunch_builder))) @ sy_backgroundTasks (snd example_crunch_builder)).
           \<exists>n. r = TUser n \<and> (\<forall>now p. task_tick (user_task example_user n) now p \<noteq> None)"
    by (simp add: example_crunch_builder_fields example_user_def example_task_def)
  then have "tickable example_user example_cfg 0 s'"
    using example_crunch_builder_fields by (intro build_Ok_tickable [OF b]) (simp_all add: kMaxTasksPerCore_def)
  then obtain s'' where t: "System_ticks example_user example_cfg 0 [1000, 21000] s' = Some s''"
    using System_ticks_tickable by fastforce
  from crunch_core_blocks_ring [OF b _ _ _ _ _ _ t] b t show ?thesis
    by (simp add: example_crunch_builder_fields kMultiCore_def kMaxTasksPerCore_def)
qed

end
