(* ===== verification/SystemLifecycle.thy ===== *)
theory SystemLifecycle
  imports BuildGuarantees
begin

text \<open>
  The life of a system as a step relation: \<open>sys_op\<close> has one rule for each call with which the application, the
  builder or a core changes the state, \<open>sys_step\<close> adds \<^verbatim>\<open>System::reset()\<close>. The calls do not overlap: \<^verbatim>\<open>init()\<close> and
  \<^verbatim>\<open>tick()\<close> of several cores come one after the other, and the blocking \<^verbatim>\<open>run()\<close> is a call of a system with one core.
  (Cores that execute \<^verbatim>\<open>run()\<close> at the same time are the subject of \<open>KernelRun\<close>, with the other cores as an argument, and
  of \<open>KernelRace\<close>, access by access.) The invariant \<open>sys_inv\<close> bounds every index and fixes the kernel
  states; each operation is shown to keep it, so it holds in all states reached before a \<^verbatim>\<open>build()\<close> that overflows
  the background ring.
\<close>

lemma on_pub_more [simp]:
  "sy_lastDispatch (on_pub f s) = sy_lastDispatch s" "sy_lastTime (on_pub f s) = sy_lastTime s"
  "sy_stopConditions (on_pub f s) = sy_stopConditions s" "sy_sync (on_pub f s) = sy_sync s"
  "sy_crunchDispatcher (on_pub f s) = sy_crunchDispatcher s"
  by (simp_all add: on_pub_def)

section \<open>The invariant of the system\<close>

definition sys_inv :: "Cfg \<Rightarrow> 'u System \<Rightarrow> bool" where
  "sys_inv cfg s \<longleftrightarrow> length (sy_cores s) = kCoreCount cfg \<and>
     (\<forall>c \<in> set (sy_cores s). length (cd_tasks c) \<le> kMaxTasksPerCore) \<and>
     map length (sy_lastDispatch s) = replicate (kCoreCount cfg) kMaxTasksPerCore \<and>
     length (sy_lastTime s) = kCoreCount cfg \<and> length (sy_coreInitialized s) = kCoreCount cfg \<and>
     length (sy_backgroundTasks s) \<le> CfgMaxBackgroundTasks cfg \<and>
     sy_bgRoundRobin s < max 1 (length (sy_backgroundTasks s)) \<and> sy_backgroundCoreId s < kCoreCount cfg \<and>
     length (sy_stopConditions s) \<le> kMaxStopConditions \<and>
     sy_kernelState s \<notin> {SUSPENDING, SUSPENDED, ABORTING, ABORTED} \<and>
     (sy_built s \<longleftrightarrow> sy_kernelState s \<noteq> UNCONFIGURED)"

text \<open>A step that keeps the invariant and never takes the kernel state back.\<close>

definition keeps :: "Cfg \<Rightarrow> 'u System \<Rightarrow> 'u System \<Rightarrow> bool" where
  "keeps cfg s s' \<longleftrightarrow> (sys_inv cfg s \<longrightarrow> sys_inv cfg s' \<and>
     kernel_state_num (sy_kernelState s) \<le> kernel_state_num (sy_kernelState s'))"

lemma keeps_refl [simp]: "keeps cfg s s" by (simp add: keeps_def)

lemma keeps_trans [trans]: "keeps cfg s s' \<Longrightarrow> keeps cfg s' s'' \<Longrightarrow> keeps cfg s s''"
  by (auto simp: keeps_def)

text \<open>The members the invariant looks at.\<close>

definition same_shape :: "'u System \<Rightarrow> 'u System \<Rightarrow> bool" where
  "same_shape s s' \<longleftrightarrow> sy_cores s' = sy_cores s \<and> map length (sy_lastDispatch s') = map length (sy_lastDispatch s) \<and>
     length (sy_lastTime s') = length (sy_lastTime s) \<and>
     length (sy_coreInitialized s') = length (sy_coreInitialized s) \<and>
     sy_backgroundTasks s' = sy_backgroundTasks s \<and> sy_backgroundCoreId s' = sy_backgroundCoreId s \<and>
     sy_stopConditions s' = sy_stopConditions s \<and> sy_built s' = sy_built s"

lemma same_shape_refl [simp]: "same_shape s s" by (simp add: same_shape_def)

lemma same_shape_trans [trans]: "same_shape s s' \<Longrightarrow> same_shape s' s'' \<Longrightarrow> same_shape s s''"
  by (simp add: same_shape_def)

lemma same_shape_keeps:
  assumes "same_shape s s'" "sy_bgRoundRobin s' = sy_bgRoundRobin s" "sy_kernelState s' = sy_kernelState s"
  shows "keeps cfg s s'"
  using assms by (simp add: keeps_def sys_inv_def same_shape_def)

lemma task_effect_shape: "task_effect s s' \<Longrightarrow> same_shape s s'"
  by (simp add: same_shape_def task_effect_fields)

lemma map_length_update:
  "length ys = length (xss ! c) \<Longrightarrow> map length (xss[c := ys]) = map length xss"
proof (cases "c < length xss")
  case True
  assume "length ys = length (xss ! c)"
  then show ?thesis using True by (simp add: map_update) (metis list_update_id nth_map)
qed (simp add: list_update_beyond)

lemma period_gate_shape: "same_shape s (snd (period_gate U cfg c now t r s))"
  by (simp add: same_shape_def period_gate_def Let_def map_length_update)

lemma dispatch_slot_shape:
  assumes "dispatch_slot U cfg c now tr (b, s) = Some (b', s')"
  shows "same_shape s s'"
proof -
  obtain t r where tr: "tr = (t, r)" by (cases tr)
  obtain s1 where "timed_tick U cfg r now (snd (period_gate U cfg c now t r s)) = Some s1"
      "s' = deadline_check U now r s1"
    using assms by (auto simp: dispatch_slot_def tr split: bind_splits)
  then show ?thesis
    using period_gate_shape timed_tick_effect task_effect_shape deadline_check_effect same_shape_trans by metis
qed

lemma phase1_shape: "phase1 U cfg c now t rs (b, s) = Some (b', s') \<Longrightarrow> same_shape s s'"
proof (induction rs arbitrary: t b s)
  case (Cons r rs)
  show ?case
  proof (cases "due U cfg c now s (t, r)")
    case True
    then obtain b1 s1 where "dispatch_slot U cfg c now (t, r) (b, s) = Some (b1, s1)"
        "phase1 U cfg c now (Suc t) rs (b1, s1) = Some (b', s')"
      using Cons.prems by (auto simp: phase1_step simp del: phase1.simps split: bind_splits)
    then show ?thesis using dispatch_slot_shape Cons.IH same_shape_trans by blast
  next
    case False
    then show ?thesis using Cons by (simp add: phase1_step del: phase1.simps)
  qed
qed simp

lemma ring_turn_shape: "ring_turn U cfg now (u, s) = Some (u', s') \<Longrightarrow> same_shape s s'"
  by (auto simp: ring_turn_def Let_def same_shape_def split: bind_splits dest!: timed_tick_effect task_effect_shape)

lemma phase2_loop_shape: "phase2_loop U cfg now g i n (u, s) = Some (u', s') \<Longrightarrow> same_shape s s'"
proof (induction n arbitrary: i u s)
  case (Suc n)
  have over: "same_shape s (pass_over s)" for s :: "'a System" by (simp add: same_shape_def pass_over_def)
  show ?case
    using Suc ring_turn_shape same_shape_trans over
    by (fastforce simp: phase2_loop_step simp del: phase2_loop.simps split: bind_splits if_splits)
qed simp

lemma phase2_shape: "phase2 U cfg c now (b, s) = Some (b', s') \<Longrightarrow> same_shape s s'"
  using phase2_loop_shape by (fastforce simp: phase2_def split: bind_splits if_splits prod.splits)

lemma tick_begin_shape: "same_shape s (tick_begin c now s)"
  by (simp add: same_shape_def tick_begin_def Let_def)

lemma tick_end_shape: "same_shape s (tick_end U cfg c now (b, s))"
  by (simp add: same_shape_def tick_end_def split: prod.split)

lemma System_tick_keeps:
  assumes "System_tick U cfg c now s = Some s'"
  shows "keeps cfg s s'"
proof (cases "c < kCoreCount cfg")
  case True
  then obtain b1 s1 b2 s2 where steps:
      "phase1 U cfg c now 0 (cd_tasks (sy_cores s ! c)) (0, tick_begin c now s) = Some (b1, s1)"
      "phase2 U cfg c now (b1, s1) = Some (b2, s2)" "s' = tick_end U cfg c now (b2, s2)"
    by (rule System_tickE [OF assms])
  have shape: "same_shape s s'"
    using tick_begin_shape phase1_shape [OF steps(1)] phase2_shape [OF steps(2)] tick_end_shape steps(3) same_shape_trans
    by metis
  have "sy_kernelState s' = sy_kernelState s" by (rule tick_effect_fields(8) [OF System_tick_effect [OF assms]])
  moreover have "sy_bgRoundRobin s' < max 1 (length (sy_backgroundTasks s'))"
    if "sy_bgRoundRobin s < max 1 (length (sy_backgroundTasks s))"
  proof (cases "sy_backgroundTasks s = []")
    case nil: True
    have "sy_bgRoundRobin s1 = sy_bgRoundRobin s" using phase1_rr [OF steps(1)] by (simp add: tick_begin_def Let_def)
    moreover have "s2 = s1" using steps(2) nil phase1_shape [OF steps(1)] tick_begin_shape [of s c now]
      by (simp add: phase2_def same_shape_def)
    ultimately show ?thesis using that nil by (simp add: steps(3) tick_end_def split: prod.split)
  next
    case False
    then have "ring_wf s" using that by (auto simp: ring_wf_def ring_ok_def max_def split: if_splits)
    from System_tick_ring_wf [OF assms True this] False shape show ?thesis
      by (simp add: ring_wf_def ring_ok_def same_shape_def)
  qed
  ultimately show ?thesis using shape by (simp add: keeps_def sys_inv_def same_shape_def)
qed (use assms in \<open>simp add: System_tick_def split: if_splits\<close>)

section \<open>Initialisation and the loops keep it\<close>

lemma on_pub_keeps [simp]: "keeps cfg s (on_pub f s)" "keeps cfg s (s\<lparr>sy_pub := p\<rparr>)"
  by (simp_all add: keeps_def sys_inv_def)

lemma valid_transition_keeps:
  "target \<notin> {CONFIGURED, SUSPENDING, SUSPENDED, ABORTING, ABORTED} \<Longrightarrow> keeps cfg s (snd (transitionTo target s))"
  by (cases "sy_kernelState s"; cases target; simp add: keeps_def sys_inv_def transitionTo_def on_pub_def)

lemma tref_init_keeps:
  assumes "tref_init U cfg r s = Some s'"
  shows "keeps cfg s s'"
proof -
  have "same_shape s s' \<and> sy_bgRoundRobin s' = sy_bgRoundRobin s \<and> sy_kernelState s' = sy_kernelState s"
    using assms by (auto simp: tref_init_def same_shape_def split: tref.splits option.splits prod.splits)
  then show ?thesis using same_shape_keeps by blast
qed

lemma init_tasks_keeps: "init_tasks U cfg rs s = Some s' \<Longrightarrow> keeps cfg s s'"
proof (induction rs arbitrary: s)
  case (Cons r rs)
  then show ?case using tref_init_keeps keeps_trans by (fastforce split: bind_splits)
qed simp


lemma coreInitialized_keeps [simp]: "keeps cfg s (s\<lparr>sy_coreInitialized := (sy_coreInitialized s)[c := b]\<rparr>)"
  by (rule same_shape_keeps) (simp_all add: same_shape_def)

lemma System_init_keeps:
  assumes "System_init U cfg c s = Some s'"
  shows "keeps cfg s s'"
proof (cases "c < kCoreCount cfg")
  case True
  define s1 where "s1 = (if sy_kernelState s = CONFIGURED then snd (transitionTo INITIALIZING s) else s)"
  obtain s2 s3 s4 where steps: "init_tasks U cfg (cd_tasks (sy_cores s1 ! c)) s1 = Some s2"
      "(case cd_crunchTask (sy_cores s2 ! c) of
               Some n \<Rightarrow> if cd_mode (sy_cores s2 ! c) = CRUNCH then tref_init U cfg (TCrunch n) s2 else Some s2
             | None \<Rightarrow> Some s2) = Some s3"
      "(if c = sy_backgroundCoreId s3 then init_tasks U cfg (sy_backgroundTasks s3) s3 else Some s3) = Some s4"
      "s' = (let s = if sy_kernelState s4 = INITIALIZING then snd (transitionTo RUNNING s4) else s4 in
         s\<lparr>sy_coreInitialized := (sy_coreInitialized s)[c := True]\<rparr>)"
    using assms True by (auto simp: System_init_def Let_def s1_def split: bind_splits if_splits)
  have "keeps cfg s s1" by (simp add: s1_def valid_transition_keeps)
  also have "keeps cfg s1 s2" by (rule init_tasks_keeps [OF steps(1)])
  also have "keeps cfg s2 s3" using steps(2) tref_init_keeps by (auto split: option.splits if_splits)
  also have "keeps cfg s3 s4" using steps(3) init_tasks_keeps by (auto split: if_splits)
  also have "keeps cfg s4 (if sy_kernelState s4 = INITIALIZING then snd (transitionTo RUNNING s4) else s4)"
    by (simp add: valid_transition_keeps)
  also have "keeps cfg \<dots> s'" by (simp add: steps(4) Let_def del: if_split)
  finally show ?thesis .
qed (use assms in \<open>simp add: System_init_def split: if_splits\<close>)

lemma dispatcher_keeps [simp]:
  "keeps cfg s (s\<lparr>sy_crunchDispatcher := d\<rparr>)" "keeps cfg s (s\<lparr>sy_crunchDispatcher := d, sy_pub := p\<rparr>)"
  "keeps cfg s (s\<lparr>sy_sync := m\<rparr>)"
  by (rule same_shape_keeps; simp add: same_shape_def)+

lemma crunch_steps_keep:
  "keeps cfg s (crunch_configure n k s)" "keeps cfg s (crunch_soft_abort U n s)"
  "keeps cfg s (count_overrun now el s)" "keeps cfg s (reset_overruns s)" "keeps cfg s (crunch_hard_fault U n now s)"
  "keeps cfg s (snd (anyStopConditionFired U s))"
  by (simp_all add: crunch_configure_def crunch_soft_abort_def count_overrun_def reset_overruns_def crunch_hard_fault_def
      anyStopConditionFired_def Let_def split: prod.split)

lemma crunch_timed_keeps: "crunch_timed U c n s = Some (now, el, s') \<Longrightarrow> keeps cfg s s'"
  by (auto simp: crunch_timed_def Let_def split: prod.splits bind_splits)

lemma crunch_iteration_keeps:
  assumes "crunch_iteration U cfg c n s = Some (b, s')"
  shows "keeps cfg s s'"
proof -
  obtain now el s1 where s1: "crunch_timed U c n s = Some (now, el, s1)"
    using assms by (auto simp: crunch_iteration_def split: bind_splits)
  then have "keeps cfg s s1" by (rule crunch_timed_keeps)
  moreover have "s' \<in> {reset_overruns s1, count_overrun now el s1, crunch_hard_fault U n now (count_overrun now el s1)}"
    using assms s1 by (auto simp: crunch_iteration_def Let_def split: if_splits)
  then have "keeps cfg s1 s'" using crunch_steps_keep(3-5) keeps_trans by blast
  ultimately show ?thesis by (rule keeps_trans)
qed

lemma crunch_passes_keeps:
  assumes "\<forall>s. keeps cfg s (env s)"
  shows "crunch_passes env U cfg c k s = Some s' \<Longrightarrow> keeps cfg s s'"
proof (induction k arbitrary: s)
  case (Suc k)
  obtain fired s1 where s1: "anyStopConditionFired U (env s) = (fired, s1)" by fastforce
  with Suc.prems obtain n s2 where "crunch_iteration U cfg c n s1 = Some (True, s2)" "crunch_passes env U cfg c k s2 = Some s'"
    by (auto split: if_splits option.splits prod.splits bool.splits)
  then have "keeps cfg s1 s'" using crunch_iteration_keeps Suc.IH keeps_trans by blast
  moreover have "keeps cfg s s1"
    using assms crunch_steps_keep(6) [of cfg "env s" U] s1 keeps_trans by (metis snd_conv)
  ultimately show ?case by (rule keeps_trans [rotated])
qed simp

lemma crunch_exit_keeps: "crunch_exit U cfg c s s' \<Longrightarrow> keeps cfg s s'"
proof (induction rule: crunch_exit.induct)
  case (stopped s s')
  then show ?case using crunch_steps_keep(6) [of cfg s U] by simp
next
  case (aborted s s1 n)
  then show ?case using crunch_steps_keep(6) [of cfg s U] crunch_steps_keep(2) keeps_trans by (metis snd_conv)
next
  case (overrun_limit s s1 n now elapsed s2)
  then have "keeps cfg s s1" "keeps cfg s1 s2"
    using crunch_steps_keep(6) [of cfg s U] crunch_timed_keeps by auto
  then have "keeps cfg s s2" using keeps_trans by blast
  then have "keeps cfg s (count_overrun now elapsed s2)" by (rule keeps_trans [OF _ crunch_steps_keep(3)])
  then show ?case by (rule keeps_trans [OF _ crunch_steps_keep(5)])
qed simp

lemma crunch_loop_keeps:
  assumes "crunch_loop env U cfg c s = Some s'" "\<forall>s. keeps cfg s (env s)"
  shows "keeps cfg s s'"
proof -
  obtain k sk where k: "crunch_passes env U cfg c k s = Some sk" "crunch_exit U cfg c (env sk) s'"
    using assms(1) unfolding crunch_loop_iff by blast
  have "keeps cfg s sk" by (rule crunch_passes_keeps [OF assms(2) k(1)])
  also have "keeps cfg sk (env sk)" using assms(2) by blast
  also have "keeps cfg (env sk) s'" by (rule crunch_exit_keeps [OF k(2)])
  finally show ?thesis .
qed

lemma flat_loop_keeps:
  assumes "flat_loop env U cfg c s = Some s'"
  shows "(\<forall>s. keeps cfg s (env s)) \<longrightarrow> keeps cfg s s'"
proof (rule flat_loop.raw_induct [OF _ assms], intro impI)
  fix loop :: "('a System \<Rightarrow> 'a System) \<Rightarrow> 'a user \<Rightarrow> Cfg \<Rightarrow> nat \<Rightarrow> 'a System \<Rightarrow> 'a System option"
    and env U cfg c s s'
  assume IH: "\<And>env U cfg c s s'. loop env U cfg c s = Some s' \<Longrightarrow> (\<forall>s. keeps cfg s (env s)) \<longrightarrow> keeps cfg s s'"
    and body: "(let s = env s
      in if isActiveState (sy_kernelState s)
         then let (fired, s) = anyStopConditionFired U s
              in if fired then Some s
                 else let (now, p) = pub_now U (sy_pub s)
                      in System_tick U cfg c now (s\<lparr>sy_pub := p\<rparr>) \<bind> loop env U cfg c
         else Some s) = Some s'"
    and env: "\<forall>s. keeps cfg s (env s)"
  obtain fired s1 where s1: "anyStopConditionFired U (env s) = (fired, s1)" by fastforce
  obtain now p where now: "pub_now U (sy_pub s1) = (now, p)" by fastforce
  have k1: "keeps cfg s (env s)" using env by blast
  have k2: "keeps cfg s s1" using keeps_trans [OF k1] crunch_steps_keep(6) [of cfg "env s" U] s1 by simp
  note k = k1 k2
  consider "s' = env s" | "s' = s1"
    | s2 where "System_tick U cfg c now (s1\<lparr>sy_pub := p\<rparr>) = Some s2" "loop env U cfg c s2 = Some s'"
    using body s1 now by (cases "isActiveState (sy_kernelState (env s))"; cases fired) (auto split: bind_splits)
  then show "keeps cfg s s'"
  proof cases
    case (3 s2)
    have "keeps cfg s s2"
      using k(2) on_pub_keeps(2) [of cfg s1 p] System_tick_keeps [OF 3(1), of] keeps_trans by metis
    with 3(2) IH [of env U cfg c s2 s'] env keeps_trans show ?thesis by blast
  qed (use k in simp_all)
qed


lemma sync_keeps [simp]: "keeps cfg s (if b then s\<lparr>sy_sync := m\<rparr> else s)"
  by simp

lemma run_shutdown_keeps: "keeps cfg s (run_shutdown s)"
proof -
  let ?s1 = "if sy_kernelState s = RUNNING then snd (transitionTo SHUTTING_DOWN s) else s"
  have "keeps cfg s ?s1" "keeps cfg ?s1 (run_shutdown s)"
    by (simp_all add: run_shutdown_def Let_def valid_transition_keeps del: if_split)
  then show ?thesis by (rule keeps_trans)
qed

lemma run_init_keeps: "run_init U cfg c s = Some s' \<Longrightarrow> keeps cfg s s'"
  using keeps_trans [OF sync_keeps System_init_keeps] by (fastforce simp: run_init_def Let_def split: if_splits)

lemma run_dispatch_keeps:
  assumes "run_dispatch env U cfg c s = Some s'" "\<forall>s. keeps cfg s (env s)"
  shows "keeps cfg s s'"
proof (cases "cd_mode (sy_cores s ! c) = CRUNCH \<and> cd_crunchTask (sy_cores s ! c) \<noteq> None")
  case True
  let ?s = "crunch_configure (the (cd_crunchTask (sy_cores s ! c))) (sy_watchdogKickFn s) s"
  have "keeps cfg s (clear_overruns ?s)"
    using keeps_trans [OF crunch_steps_keep(1) dispatcher_keeps(1)] by (simp add: clear_overruns_def)
  moreover have "(\<exists>n. s' = crunch_soft_abort U n (clear_overruns ?s)) \<or> crunch_loop env U cfg c (clear_overruns ?s) = Some s'"
    using assms(1) True by (auto simp: run_dispatch_def crunch_runLoop_def Let_def split: if_splits bind_splits)
  then have "keeps cfg (clear_overruns ?s) s'" using crunch_steps_keep(2) crunch_loop_keeps assms(2) by blast
  ultimately show ?thesis by (rule keeps_trans)
next
  case False
  then have "flat_loop env U cfg c s = Some s'" using assms(1) by (auto simp: run_dispatch_def Let_def)
  then show ?thesis using flat_loop_keeps assms(2) by blast
qed

lemma System_run_keeps:
  assumes "System_run env startup shutdown U cfg c s = Some s'" "\<forall>s. keeps cfg s (env s)"
  shows "keeps cfg s s'"
proof (cases "c < kCoreCount cfg")
  case True
  obtain s1 s2 s3 where steps: "run_init U cfg c s = Some s1" "\<exists>m. s2 = (if kMultiCore cfg then s1\<lparr>sy_sync := m\<rparr> else s1)"
      "run_dispatch env U cfg c s2 = Some s3"
      "\<exists>m. s' = (if kMultiCore cfg then (run_shutdown s3)\<lparr>sy_sync := m\<rparr> else run_shutdown s3)"
    using assms(1) True by (cases "kMultiCore cfg") (auto simp: System_run_def Let_def split: bind_splits if_splits)
  have "keeps cfg s s1" by (rule run_init_keeps [OF steps(1)])
  also have "keeps cfg s1 s2" using steps(2) by auto
  also have "keeps cfg s2 s3" by (rule run_dispatch_keeps [OF steps(3) assms(2)])
  also have "keeps cfg s3 (run_shutdown s3)" by (rule run_shutdown_keeps)
  also have "keeps cfg \<dots> s'" using steps(4) by auto
  finally show ?thesis .
qed (use assms(1) in \<open>simp add: System_run_def split: if_splits\<close>)

section \<open>The builder and reset keep it\<close>

lemma on_core_keeps:
  assumes "\<And>c. length (cd_tasks c) \<le> kMaxTasksPerCore \<Longrightarrow> length (cd_tasks (f c)) \<le> kMaxTasksPerCore"
  shows "keeps cfg s (on_core c f s)"
proof -
  have "length (cd_tasks d) \<le> kMaxTasksPerCore"
    if "\<forall>d \<in> set (sy_cores s). length (cd_tasks d) \<le> kMaxTasksPerCore" "d \<in> set ((sy_cores s)[c := f (sy_cores s ! c)])" for d
  proof (cases "c < length (sy_cores s)")
    case True
    then have "d = f (sy_cores s ! c) \<or> d \<in> set (sy_cores s)"
      using that(2) set_update_subset_insert [of "sy_cores s" c] by fastforce
    then show ?thesis using that(1) assms True by auto
  qed (use that in \<open>simp add: list_update_beyond\<close>)
  then show ?thesis by (simp add: keeps_def sys_inv_def on_core_def)
qed

lemma addTask_room:
  "length (cd_tasks c) \<le> kMaxTasksPerCore \<Longrightarrow> length (cd_tasks (addTask r c)) \<le> kMaxTasksPerCore"
  "length (cd_tasks c) \<le> kMaxTasksPerCore \<Longrightarrow> length (cd_tasks (prependTask r c)) \<le> kMaxTasksPerCore"
  by (simp_all add: addTask_def prependTask_def split: option.split)

lemma builder_ops_keep:
  "keeps cfg s (snd (addScheduledTask cfg c r (b, s)))" "keeps cfg s (snd (setCrunchTask cfg c n (b, s)))"
  "keeps cfg s (snd (addBackgroundTask cfg r (b, s)))" "keeps cfg s (snd (addStopCondition fn (b, s)))"
  "keeps cfg s (snd (builder_setTelemetryDrain w (b, s)))" "keeps cfg s (snd (setTelemetryMutex m (b, s)))"
  "keeps cfg s (snd (setStream x (b, s)))" "keeps cfg s (snd (setWatchdogKick x (b, s)))"
  "keeps cfg s (snd (setClockSource x (b, s)))"
proof -
  show "keeps cfg s (snd (addScheduledTask cfg c r (b, s)))" "keeps cfg s (snd (setCrunchTask cfg c n (b, s)))"
    by (simp_all add: addScheduledTask_def setCrunchTask_def on_core_keeps addTask_room split: option.split)
  show "keeps cfg s (snd (addBackgroundTask cfg r (b, s)))" "keeps cfg s (snd (addStopCondition fn (b, s)))"
    "keeps cfg s (snd (builder_setTelemetryDrain w (b, s)))"
    by (auto simp: addBackgroundTask_def addStopCondition_def builder_setTelemetryDrain_def keeps_def sys_inv_def split: option.split)
qed (simp_all add: setTelemetryMutex_def setStream_def setWatchdogKick_def setClockSource_def)


lemma place_kernel_tasks_keeps: "keeps cfg s (place_kernel_tasks cfg s)"
proof -
  have "keeps cfg s (on_core c (prependTask r) (on_core c' (prependTask r') s))" for c r c' r'
    using keeps_trans [OF on_core_keeps on_core_keeps] addTask_room(2) by blast
  then show ?thesis by (simp add: place_kernel_tasks_def Let_def)
qed

lemma emplace_kernel_tasks_keeps: "keeps cfg s (emplace_kernel_tasks cfg b s)"
  by (simp add: emplace_kernel_tasks_def keeps_def sys_inv_def)

lemma last_active_less: "n \<noteq> 0 \<Longrightarrow> last_active cores n < n"
proof (induction n)
  case (Suc n)
  then show ?case by (cases n) (auto simp: less_Suc_eq)
qed simp

lemma install_kernel_keeps:
  assumes "install_kernel cfg b s = Some s'" "0 < kCoreCount cfg"
  shows "keeps cfg s s'"
proof -
  let ?s1 = "place_kernel_tasks cfg (emplace_kernel_tasks cfg b s)"
  obtain s2 where s2: "register_diags cfg ?s1 = Some s2" "s' = wire_drain (choose_background_core cfg s2)"
    using assms(1) by (auto simp: install_kernel_def Let_def split: bind_splits)
  have "keeps cfg s ?s1" using keeps_trans [OF emplace_kernel_tasks_keeps place_kernel_tasks_keeps] .
  also have "keeps cfg ?s1 s2"
    using s2(1) by (auto simp: register_diags_def keeps_def sys_inv_def split: if_splits)
  also have "keeps cfg s2 (choose_background_core cfg s2)"
    using assms(2) last_active_less [of "kCoreCount cfg"] by (simp add: choose_background_core_def keeps_def sys_inv_def)
  also have "keeps cfg \<dots> s'" by (simp add: s2(2) wire_drain_def keeps_def sys_inv_def)
  finally show ?thesis .
qed

lemma sortTasksByPriority_keeps: "keeps cfg s (sortTasksByPriority U cfg s)"
  by (simp add: sortTasksByPriority_sort_key keeps_def sys_inv_def)

lemma build_finish_keeps:
  assumes "sy_kernelState s = UNCONFIGURED"
  shows "keeps cfg s (build_finish U cfg b s)"
proof -
  let ?s = "build_finish U cfg b s"
  have "sy_lastDispatch ?s = sy_lastDispatch s" "sy_lastTime ?s = sy_lastTime s" "sy_stopConditions ?s = sy_stopConditions s"
    by (simp_all add: build_finish_def transitionTo_def propagate_window_def propagate_clock_def
        collect_monitored_def on_pub_def Let_def split: prod.split)
  with assms build_finish_fields [of U cfg b s] show ?thesis by (simp add: keeps_def sys_inv_def)
qed

lemma build_keeps:
  assumes "build U cfg (b, s) = Some (r, (b', s'))" "0 < kCoreCount cfg"
  shows "keeps cfg s s'"
proof (cases "sy_built s \<or> \<not> sys_inv cfg s")
  case False
  then have st: "sy_kernelState s = UNCONFIGURED" by (auto simp: sys_inv_def)
  obtain s0 s2 where b: "(if m_app b then install_kernel cfg b s else Some s) = Some s0"
      "build_checks U cfg (sortTasksByPriority U cfg s0) = (r, s2)"
      "s' = (if result_ok r then build_finish U cfg b s2 else s2)"
    using assms(1) False by (auto simp: build_def Let_def split: if_splits bind_splits prod.splits)
  obtain f where f: "s2 = on_pub f (sortTasksByPriority U cfg s0)" using build_checks_frame [OF b(2)] by blast
  have "sy_kernelState s0 = UNCONFIGURED" using b(1) st install_kernel_fields(5) by (fastforce split: if_splits)
  then have st2: "sy_kernelState s2 = UNCONFIGURED" by (simp add: f sortTasksByPriority_def)
  have "keeps cfg s s0" using b(1) install_kernel_keeps assms(2) by (auto split: if_splits)
  also have "keeps cfg s0 (sortTasksByPriority U cfg s0)" by (rule sortTasksByPriority_keeps)
  also have "keeps cfg \<dots> s2" by (simp add: f)
  also have "keeps cfg s2 s'" using build_finish_keeps [OF st2] by (simp add: b(3))
  finally show ?thesis .
qed (use assms(1) in \<open>auto simp: build_def keeps_def\<close>)

lemma System_reset_inv: "0 < kCoreCount cfg \<Longrightarrow> sys_inv cfg (System_reset U cfg s)"
  by (simp add: System_reset_def sys_inv_def CoreData_init_def kMaxTasksPerCore_def Let_def split: prod.split)

lemma System_static_inv: "0 < kCoreCount cfg \<Longrightarrow> sys_inv cfg (System_static cfg u)"
  by (simp add: System_static_def sys_inv_def CoreData_init_def kMaxTasksPerCore_def)

section \<open>The life of a system\<close>

text \<open>What happens to a builder and its system: user code and the public accessors act on the public state, the
  application registers through the builder and builds, the cores are initialised and ticked one at a time, the
  core of a single-core system is run, and a new builder may be made at any time.\<close>

inductive sys_op :: "'u user \<Rightarrow> Cfg \<Rightarrow> 'u build \<Rightarrow> 'u build \<Rightarrow> bool" for U cfg where
  user_code: "sys_op U cfg (b, s) (b, on_pub f s)"
| new_builder: "sys_op U cfg (b, s) (SystemBuilder_init app, s)"
| stream: "sys_op U cfg (b, s) (setStream x (b, s))"
| watchdog: "sys_op U cfg (b, s) (setWatchdogKick x (b, s))"
| clock: "sys_op U cfg (b, s) (setClockSource x (b, s))"
| stop_condition: "sys_op U cfg (b, s) (addStopCondition fn (b, s))"
| drain: "sys_op U cfg (b, s) (builder_setTelemetryDrain w (b, s))"
| mutex: "sys_op U cfg (b, s) (setTelemetryMutex m (b, s))"
| background: "sys_op U cfg (b, s) (addBackgroundTask cfg r (b, s))"
| scheduled: "sys_op U cfg (b, s) (addScheduledTask cfg c r (b, s))"
| crunch: "sys_op U cfg (b, s) (setCrunchTask cfg c n (b, s))"
| build: "build U cfg (b, s) = Some (r, bs) \<Longrightarrow> sys_op U cfg (b, s) bs"
| init: "System_init U cfg c s = Some s' \<Longrightarrow> sys_op U cfg (b, s) (b, s')"
| tick: "System_tick U cfg c now s = Some s' \<Longrightarrow> sys_op U cfg (b, s) (b, s')"
| run: "System_run (\<lambda>s. s) startup shutdown U cfg c s = Some s' \<Longrightarrow> kCoreCount cfg = 1 \<Longrightarrow> sys_op U cfg (b, s) (b, s')"

inductive sys_step :: "'u user \<Rightarrow> Cfg \<Rightarrow> 'u build \<Rightarrow> 'u build \<Rightarrow> bool" for U cfg where
  op: "sys_op U cfg bs bs' \<Longrightarrow> sys_step U cfg bs bs'"
| reset: "sys_step U cfg (b, s) (b, System_reset U cfg s)"

lemma sys_op_keeps:
  assumes "sys_op U cfg bs bs'" "0 < kCoreCount cfg"
  shows "keeps cfg (snd bs) (snd bs')"
  using assms(1)
proof cases
  case (build b s r)
  then show ?thesis using build_keeps [OF _ assms(2)] by (cases bs') auto
qed (simp_all add: builder_ops_keep System_init_keeps System_tick_keeps System_run_keeps)

lemma sys_steps_inv:
  assumes "(sys_step U cfg)\<^sup>*\<^sup>* bs bs'" "0 < kCoreCount cfg" "sys_inv cfg (snd bs)"
  shows "sys_inv cfg (snd bs')"
  using assms(1,3)
proof (induction rule: rtranclp_induct)
  case (step bs1 bs2)
  from step.hyps(2) show ?case
  proof cases
    case op
    from sys_op_keeps [OF this assms(2)] step.IH step.prems show ?thesis by (simp add: keeps_def)
  next
    case (reset b s)
    then show ?thesis using System_reset_inv [OF assms(2)] by simp
  qed
qed simp

lemma sys_ops_monotone:
  assumes "(sys_op U cfg)\<^sup>*\<^sup>* bs bs'" "0 < kCoreCount cfg"
  shows "keeps cfg (snd bs) (snd bs')"
  using assms(1) by induction (auto intro: keeps_trans sys_op_keeps [OF _ assms(2)])


lemma example_builder_steps:
  "\<exists>b' s'. (sys_op example_user example_cfg)\<^sup>*\<^sup>* (SystemBuilder_init True, System_static example_cfg example_state) (b', s') \<and>
     sy_kernelState s' = CONFIGURED \<and> tickable example_user example_cfg 0 s'"
proof -
  let ?op = "sys_op example_user example_cfg"
  obtain b1 s1 where 1: "setStream True (SystemBuilder_init True, System_static example_cfg example_state) = (b1, s1)" by fastforce
  obtain b2 s2 where 2: "addScheduledTask example_cfg 0 (Some (TUser 20)) (b1, s1) = (b2, s2)" by fastforce
  obtain b3 s3 where 3: "addBackgroundTask example_cfg (Some (TUser 95)) (b2, s2) = (b3, s3)" by fastforce
  have ex: "example_builder True = (b3, s3)" using 1 2 3 by (simp add: example_builder_def)
  obtain b4 s4 where b: "build example_user example_cfg (b3, s3) = Some (BuildOk, (b4, s4))"
    using example_build_ok(1) ex by auto
  have "sy_kernelState s4 = CONFIGURED"
    using build_Ok_configured [OF b] example_builder_fields(2) [of True] ex by (simp add: configured_def)
  moreover have "tickable example_user example_cfg 0 s4"
    using example_builder_fields [of True] ex
    by (intro build_Ok_tickable [OF b]) (simp_all add: CoreData_init_def kMaxTasksPerCore_def example_user_def example_task_def)
  moreover have "?op (SystemBuilder_init True, System_static example_cfg example_state) (b1, s1)" using sys_op.stream 1 by metis
  moreover have "?op (b1, s1) (b2, s2)" using sys_op.scheduled 2 by metis
  moreover have "?op (b2, s2) (b3, s3)" using sys_op.background 3 by metis
  moreover have "?op (b3, s3) (b4, s4)" using sys_op.build b by blast
  ultimately show ?thesis by (meson rtranclp.rtrancl_refl rtranclp.rtrancl_into_rtrancl)
qed

lemma example_running_steps:
  "\<exists>b' s'. (sys_op example_user example_cfg)\<^sup>*\<^sup>* (SystemBuilder_init True, System_static example_cfg example_state) (b', s') \<and>
     sy_kernelState s' = RUNNING"
proof -
  let ?op = "sys_op example_user example_cfg"
  obtain b4 s4 where r: "?op\<^sup>*\<^sup>* (SystemBuilder_init True, System_static example_cfg example_state) (b4, s4)"
      "sy_kernelState s4 = CONFIGURED" "tickable example_user example_cfg 0 s4"
    using example_builder_steps by blast
  obtain s5 where s5: "System_init example_user example_cfg 0 s4 = Some s5" "tickable example_user example_cfg 0 s5"
    using System_init_tickable [OF r(3)] by auto
  obtain s6 where s6: "System_tick example_user example_cfg 0 1000 s5 = Some s6"
    using System_tick_tickable [OF s5(2)] by auto
  have "sy_kernelState s6 = RUNNING"
    using System_init_fields(3) [OF s5(1)] tick_effect_fields(8) [OF System_tick_effect [OF s6]] r(2) by simp
  moreover have "?op (b4, s4) (b4, s5)" "?op (b4, s5) (b4, s6)" using sys_op.init s5(1) sys_op.tick s6 by blast+
  ultimately show ?thesis using r(1) by (meson rtranclp.rtrancl_into_rtrancl)
qed

section \<open>Properties\<close>

text \<open>C3: The invariant of the kernel. In every state that calls of the application, the builder and the cores, one after
  the other, can bring the system into, each array index is inside its array (task lists, last dispatch times,
  background ring and its head, stop conditions), the background core exists, the system is built exactly when it is
  past UNCONFIGURED, and the kernel state is never SUSPENDING, SUSPENDED, ABORTING or ABORTED, so that the
  only active one is RUNNING. The one call that can leave these bounds is also determined: \<^verbatim>\<open>build()\<close> stores behind the
  background ring, and the history ends there, exactly when the system is not built, an application is set and the
  ring is full.\<close>

theorem lifecycle_invariant:
  assumes "(sys_step U cfg)\<^sup>*\<^sup>* (b, System_static cfg u) (b', s)" "0 < kCoreCount cfg"
  shows "sys_inv cfg s \<and> (isActiveState (kernelState s) \<longleftrightarrow> kernelState s = RUNNING) \<and>
     (build U cfg (b', s) = None \<longleftrightarrow>
        \<not> isBuilt s \<and> m_app b' \<and> length (sy_backgroundTasks s) = CfgMaxBackgroundTasks cfg)"
proof -
  have inv: "sys_inv cfg s" using sys_steps_inv [OF assms] System_static_inv [OF assms(2), of u] by simp
  then have "sy_kernelState s \<notin> {SUSPENDING, SUSPENDED}" "length (sy_backgroundTasks s) \<le> CfgMaxBackgroundTasks cfg"
    by (simp_all add: sys_inv_def)
  with inv show ?thesis by (auto simp: isActiveState_def kernelState_def isBuilt_def build_None_iff)
qed

text \<open>A history: register, build, initialise core 0, tick it.\<close>

theorem lifecycle_invariant_witness:
  "\<exists>b' s. (sys_step example_user example_cfg)\<^sup>*\<^sup>* (SystemBuilder_init True, System_static example_cfg example_state) (b', s) \<and>
     sy_kernelState s = RUNNING \<and> sys_inv example_cfg s \<and> isActiveState (kernelState s) \<and>
     build example_user example_cfg (b', s) \<noteq> None"
proof -
  obtain b' s where ops: "(sys_op example_user example_cfg)\<^sup>*\<^sup>*
      (SystemBuilder_init True, System_static example_cfg example_state) (b', s)" "sy_kernelState s = RUNNING"
    using example_running_steps by blast
  have "sys_op example_user example_cfg \<le> sys_step example_user example_cfg"
    by (auto intro: sys_step.op)
  from rtranclp_mono [OF this] ops(1)
  have r: "(sys_step example_user example_cfg)\<^sup>*\<^sup>* (SystemBuilder_init True, System_static example_cfg example_state) (b', s)"
    by blast
  have pos: "0 < kCoreCount example_cfg" by simp
  from lifecycle_invariant [OF r pos] ops(2) have "isBuilt s" by (simp add: sys_inv_def isBuilt_def)
  with lifecycle_invariant [OF r pos] r ops(2) show ?thesis unfolding kernelState_def by blast
qed

text \<open>As long as the calls do not overlap, the life of a system only goes forward: short of
  \<^verbatim>\<open>System::reset()\<close>, the kernel state never returns to an earlier one (in the order UNCONFIGURED,
  CONFIGURED, INITIALIZING, RUNNING, SHUTTING_DOWN, SHUTDOWN); a built system stays built and a system that
  was shut down stays in SHUTDOWN. (Cores that run at the same time can break this order: \<open>KernelRace\<close>.)\<close>

theorem lifecycle_monotone:
  assumes "(sys_op U cfg)\<^sup>*\<^sup>* (b, s) (b', s')" "0 < kCoreCount cfg" "sys_inv cfg s"
  shows "kernel_state_num (kernelState s) \<le> kernel_state_num (kernelState s') \<and>
     (if isBuilt s then isBuilt s' else True) \<and> (if kernelState s = SHUTDOWN then kernelState s' = SHUTDOWN else True)"
proof -
  have k: "sys_inv cfg s'" "kernel_state_num (sy_kernelState s) \<le> kernel_state_num (sy_kernelState s')"
    using sys_ops_monotone [OF assms(1,2)] assms(3) by (auto simp: keeps_def)
  have zero: "kernel_state_num st = 0 \<longleftrightarrow> st = UNCONFIGURED" "9 \<le> kernel_state_num st \<longleftrightarrow> st = SHUTDOWN" for st
    by (cases st; simp)+
  have "isBuilt s'" if "isBuilt s"
    using that k assms(3) zero(1) by (metis sys_inv_def isBuilt_def le_0_eq)
  moreover have "kernelState s' = SHUTDOWN" if "kernelState s = SHUTDOWN"
    using that k(2) zero(2) [of "sy_kernelState s'"] by (simp add: kernelState_def)
  ultimately show ?thesis using k(2) by (simp add: kernelState_def)
qed

theorem lifecycle_monotone_witness:
  "\<exists>b' s'. (sys_op example_user example_cfg)\<^sup>*\<^sup>* (SystemBuilder_init True, System_static example_cfg example_state) (b', s') \<and>
     kernelState s' = CONFIGURED \<and>
     kernel_state_num (kernelState (System_static example_cfg example_state)) \<le> kernel_state_num (kernelState s')"
proof -
  obtain b' s' where r: "(sys_op example_user example_cfg)\<^sup>*\<^sup>* (SystemBuilder_init True, System_static example_cfg example_state) (b', s')"
      "sy_kernelState s' = CONFIGURED"
    using example_builder_steps by blast
  have "kernel_state_num (kernelState (System_static example_cfg example_state)) \<le> kernel_state_num (kernelState s')"
    using lifecycle_monotone [OF r(1)] System_static_inv [of example_cfg example_state] by simp
  with r show ?thesis unfolding kernelState_def by blast
qed

end
