(* ===== verification/Pipeline.thy ===== *)
theory Pipeline
  imports SystemLifecycle
begin

text \<open>
  The kernel tasks working together on one system: a command from the wire through the communications task,
  the command queue and the control task to the application, and a metrics request through the
  communications task and \<^verbatim>\<open>System::snapshot()\<close> to the response.
\<close>

section \<open>The stream inside the public state\<close>

lemma delivers_pub_stream:
  "delivers (strm U) bs (world p) w \<Longrightarrow> delivers (pub_stream U) bs p (p\<lparr>world := w\<rparr>)"
  by (simp add: delivers_def pub_stream_def)

lemma write_pub_stream: "write_bytes (pub_stream U) bs p = p\<lparr>world := snd (write_stream (strm U) bs (world p))\<rparr>"
  by (simp add: write_bytes_def pub_stream_def split: prod.split)

text \<open>The communications task is in framed mode, between two frames.\<close>

definition comms_listening :: "Cfg \<Rightarrow> 'u System \<Rightarrow> bool" where
  "comms_listening cfg s \<longleftrightarrow> (case sy_commsTask s of None \<Rightarrow> False
     | Some t \<Rightarrow> cli_ok cfg (ct_cli t) \<and> CLI.m_stream (ct_cli t) \<and> ct_commandQueue t \<and> m_mode (ct_cli t) = FRAMED \<and>
         fd_cobsLen (m_frameDecoder (ct_cli t)) = 0)"

lemma comms_tick_queues:
  assumes "comms_listening cfg s"
    and "delivers (strm U) (frame_wire MT_COMMAND q (command_payload cmd)) (world (sy_pub s)) w"
    and "queue_ok (kQueueCapacity cfg) (commandQueue (sy_pub s))"
    and "old = queue_list (commandQueue (sy_pub s))" "room = (length old < kQueueCapacity cfg)"
  shows "\<exists>s1. tref_tick U cfg TComms now s = Some s1 \<and> sy_controlTask s1 = sy_controlTask s \<and>
     world (sy_pub s1) = snd (write_stream (strm U)
       (if room then frame_wire MT_ACK q [cmd_id cmd] else frame_wire MT_NACK q (command_payload cmd)) w) \<and>
     queue_ok (kQueueCapacity cfg) (commandQueue (sy_pub s1)) \<and>
     queue_list (commandQueue (sy_pub s1)) = (if room then old @ [cmd] else old)"
proof -
  obtain t where t: "sy_commsTask s = Some t" "cli_ok cfg (ct_cli t)" "CLI.m_stream (ct_cli t)" "ct_commandQueue t"
      "m_mode (ct_cli t) = FRAMED" "fd_cobsLen (m_frameDecoder (ct_cli t)) = 0"
    using assms(1) by (auto simp: comms_listening_def split: option.splits)
  let ?p = "sy_pub s"
  obtain q' where q': "try_push (kQueueCapacity cfg) cmd (commandQueue ?p) = (room, q')" "queue_ok (kQueueCapacity cfg) q'"
      "queue_list q' = (if room then old @ [cmd] else old)"
    using lfq.push_iff [OF assms(3), of cmd] assms(4,5) by auto
  have push: "pub_try_push cfg cmd (?p\<lparr>world := w\<rparr>) = (room, ?p\<lparr>world := w, commandQueue := q'\<rparr>)"
    using q'(1) by (simp add: pub_try_push_def)
  from framed_command_tick [where push = "pub_try_push cfg", OF t(2-6) delivers_pub_stream [OF assms(2)] push]
  obtain t' where t': "comms_tick cfg (pub_stream U) (pub_try_push cfg) (snapshot U cfg (sy_cores s)) t ?p =
      Some (t', write_bytes (pub_stream U)
        (if room then frame_wire MT_ACK q [cmd_id cmd] else frame_wire MT_NACK q (command_payload cmd))
        (?p\<lparr>world := w, commandQueue := q'\<rparr>))" "m_mode (ct_cli t') = FRAMED"
    by blast
  then show ?thesis
    using t(1) q' by (simp add: tref_tick_def write_pub_stream)
qed


lemma control_tick_handles:
  assumes "sy_controlTask s = Some t" "kc_app t" "kc_commandQueue t" "\<And>c. leaves_queue (handleCommand U c)"
    and "queue_ok (kQueueCapacity cfg) (commandQueue (sy_pub s))"
  shows "if unsafe U (sy_pub s) then tref_tick U cfg TControl now s = Some (on_pub (\<lambda>p. signalSafetyAbort (forceSafeAbort U p)) s)
     else \<exists>q. tref_tick U cfg TControl now s = Some (on_pub (\<lambda>p. app_tick U now ((fold (handleCommand U)
           (take (CfgMaxCommandsPerTick cfg) (queue_list (commandQueue p))) p)\<lparr>commandQueue := q\<rparr>)) s) \<and>
         queue_list q = drop (CfgMaxCommandsPerTick cfg) (queue_list (commandQueue (sy_pub s)))"
  using control_tick_fifo [OF assms(2-5), of now] assms(1)
  by (auto simp: tref_tick_def on_pub_def split: if_splits)

section \<open>Properties\<close>

text \<open>C1: from the wire to the application. A COMMAND frame that reaches the communications task in framed mode
  is appended to the command queue and acknowledged under its sequence number, or, exactly when the queue is
  full, rejected with a NACK that returns the command, with the queue unchanged. The next tick of the control
  task hands the queued commands to the application in order of arrival, up to the configured number, and
  then ticks the application; unless a safety monitor reports unsafe: then it only has the application
  abort and raises the abort flag, and every command stays queued.\<close>

theorem command_reaches_application:
  assumes "comms_listening cfg s" "sy_controlTask s = Some \<lparr>kc_commandQueue = True, kc_app = True\<rparr>"
    and "delivers (strm U) (frame_wire MT_COMMAND q (command_payload cmd)) (world (sy_pub s)) w"
    and "queue_ok (kQueueCapacity cfg) (commandQueue (sy_pub s))" "\<And>c. leaves_queue (handleCommand U c)"
    and "old = queue_list (commandQueue (sy_pub s))" "room = (length old < kQueueCapacity cfg)"
  shows "\<exists>s1. tref_tick U cfg TComms now s = Some s1 \<and>
     world (sy_pub s1) = snd (write_stream (strm U)
       (if room then frame_wire MT_ACK q [cmd_id cmd] else frame_wire MT_NACK q (command_payload cmd)) w) \<and>
     queue_list (commandQueue (sy_pub s1)) = (if room then old @ [cmd] else old) \<and>
     (if unsafe U (sy_pub s1)
      then tref_tick U cfg TControl now' s1 = Some (on_pub (\<lambda>p. signalSafetyAbort (forceSafeAbort U p)) s1)
      else \<exists>q'. tref_tick U cfg TControl now' s1 = Some (on_pub (\<lambda>p. app_tick U now' ((fold (handleCommand U)
             (take (CfgMaxCommandsPerTick cfg) (queue_list (commandQueue p))) p)\<lparr>commandQueue := q'\<rparr>)) s1) \<and>
           queue_list q' = drop (CfgMaxCommandsPerTick cfg) (queue_list (commandQueue (sy_pub s1))))"
proof -
  obtain s1 where s1: "tref_tick U cfg TComms now s = Some s1" "sy_controlTask s1 = sy_controlTask s"
      "world (sy_pub s1) = snd (write_stream (strm U)
       (if room then frame_wire MT_ACK q [cmd_id cmd] else frame_wire MT_NACK q (command_payload cmd)) w)"
      "queue_ok (kQueueCapacity cfg) (commandQueue (sy_pub s1))"
      "queue_list (commandQueue (sy_pub s1)) = (if room then old @ [cmd] else old)"
    using comms_tick_queues [OF assms(1,3,4,6,7)] by metis
  have "sy_controlTask s1 = Some \<lparr>kc_commandQueue = True, kc_app = True\<rparr>" using s1(2) assms(2) by simp
  from control_tick_handles [OF this _ _ assms(5) s1(4), of now'] s1 show ?thesis
    by (intro exI [of _ s1]) simp
qed

text \<open>The example system in framed mode, with a command on the wire.\<close>

definition example_framed :: "example_user_state System" where
  "example_framed = example_system\<lparr>sy_controlTask := Some \<lparr>kc_commandQueue = True, kc_app = True\<rparr>,
     sy_commsTask := Some (example_comms FRAMED),
     sy_pub := (pub_init example_cfg example_state)\<lparr>world := example_state\<lparr>ex_in :=
       frame_wire MT_COMMAND 3 (command_payload \<lparr>cmd_id = 1, targetDevice = 0, cmd_value = 0\<rparr>)\<rparr>\<rparr>\<rparr>"

theorem command_reaches_application_witness:
  "\<exists>s1 q'. tref_tick example_user example_cfg TComms 5 example_framed = Some s1 \<and>
     queue_list (commandQueue (sy_pub s1)) = [\<lparr>cmd_id = 1, targetDevice = 0, cmd_value = 0\<rparr>] \<and>
     tref_tick example_user example_cfg TControl 9 s1 = Some (on_pub (\<lambda>p. app_tick example_user 9
       ((fold (handleCommand example_user) (take 8 (queue_list (commandQueue p))) p)\<lparr>commandQueue := q'\<rparr>)) s1) \<and> queue_list q' = []"
proof -
  let ?cmd = "\<lparr>cmd_id = 1, targetDevice = 0, cmd_value = 0\<rparr>"
  let ?w = "example_state\<lparr>ex_in := []\<rparr>"
  let ?b = "frame_wire MT_COMMAND 3 (command_payload ?cmd)"
  have len: "length ?b \<le> 15" by (rule short_frame) simp
  have f: "world (sy_pub example_framed) = example_state\<lparr>ex_in := ?b\<rparr>"
      "commandQueue (sy_pub example_framed) = LockFreeQueue_init 16 command_default"
    by (simp_all add: example_framed_def pub_init_def)
  have "comms_listening example_cfg example_framed"
    using example_comms_ok [of FRAMED] by (simp add: comms_listening_def example_framed_def)
  moreover have "delivers (strm example_user) ?b (world (sy_pub example_framed)) ?w"
    using len frame_wire_nonempty by (simp add: f delivers_def example_user_def kReadBufSize_def)
  moreover have "sy_controlTask example_framed = Some \<lparr>kc_commandQueue = True, kc_app = True\<rparr>"
    by (simp add: example_framed_def)
  moreover have "queue_ok (kQueueCapacity example_cfg) (commandQueue (sy_pub example_framed))"
    by (simp add: f queue_ok_init)
  moreover have "leaves_queue (handleCommand example_user c)" for c
    by (simp add: leaves_queue_def example_user_def on_world_def)
  ultimately obtain s1 where s1: "tref_tick example_user example_cfg TComms 5 example_framed = Some s1"
     "world (sy_pub s1) = snd (write_stream (strm example_user) (frame_wire MT_ACK 3 [1]) ?w)"
     "queue_list (commandQueue (sy_pub s1)) = [?cmd]"
     "if unsafe example_user (sy_pub s1)
      then tref_tick example_user example_cfg TControl 9 s1 = Some (on_pub (\<lambda>p. signalSafetyAbort (forceSafeAbort example_user p)) s1)
      else \<exists>q'. tref_tick example_user example_cfg TControl 9 s1 = Some (on_pub (\<lambda>p. app_tick example_user 9 ((fold (handleCommand example_user)
             (take (CfgMaxCommandsPerTick example_cfg) (queue_list (commandQueue p))) p)\<lparr>commandQueue := q'\<rparr>)) s1) \<and>
           queue_list q' = drop (CfgMaxCommandsPerTick example_cfg) (queue_list (commandQueue (sy_pub s1)))"
    using command_reaches_application [of example_cfg example_framed example_user 3 ?cmd ?w "[]" True 5 9]
    by (auto simp: f simp del: example_cfg_simps(4))
  have "\<not> unsafe example_user (sy_pub s1)"
    using s1(2) by (simp add: unsafe_def example_user_def example_state_def)
  with s1 show ?thesis by auto
qed

section \<open>The tasks of a snapshot\<close>

definition core_snapshots :: "'u pub \<Rightarrow> nat \<times> CoreData \<Rightarrow> TaskSnapshot list" where
  "core_snapshots p cc = map (\<lambda>(t, r). task_snapshot p (fst cc) t r) (enumerate 0 (cd_tasks (snd cc)))"

lemma snapshot_tasks_take:
  "length acc \<le> kMaxSnapshotTasks \<Longrightarrow> snapshot_tasks p c t rs acc =
     acc @ take (kMaxSnapshotTasks - length acc) (map (\<lambda>(t, r). task_snapshot p c t r) (enumerate t rs))"
proof (induction rs arbitrary: t acc)
  case (Cons r rs)
  show ?case
  proof (cases "length acc < kMaxSnapshotTasks")
    case True
    then have "kMaxSnapshotTasks - length acc = Suc (kMaxSnapshotTasks - Suc (length acc))" by simp
    with True Cons.IH [of "acc @ [task_snapshot p c t r]" "Suc t"] show ?thesis by simp
  qed (use Cons.prems in simp)
qed simp

lemma snapshot_cores_take:
  "length acc \<le> kMaxSnapshotTasks \<Longrightarrow> snapshot_cores p c cds acc =
     acc @ take (kMaxSnapshotTasks - length acc) (concat (map (core_snapshots p) (enumerate c cds)))"
proof (induction cds arbitrary: c acc)
  case (Cons cd cds)
  show ?case
  proof (cases "length acc < kMaxSnapshotTasks")
    case True
    let ?xs = "core_snapshots p (c, cd)"
    have "snapshot_tasks p c 0 (cd_tasks cd) acc = acc @ take (kMaxSnapshotTasks - length acc) ?xs"
      using snapshot_tasks_take [OF Cons.prems] by (simp add: core_snapshots_def)
    moreover have "length (acc @ take (kMaxSnapshotTasks - length acc) ?xs) \<le> kMaxSnapshotTasks"
      using Cons.prems by simp
    ultimately show ?thesis using True Cons.IH [of "acc @ take (kMaxSnapshotTasks - length acc) ?xs" "Suc c"]
      by (simp add: min_def)
  qed (use Cons.prems in simp)
qed simp

lemma length_core_snapshots:
  "length (concat (map (core_snapshots p) (enumerate c cds))) = length (concat (map cd_tasks cds))"
  by (induction cds arbitrary: c) (simp_all add: core_snapshots_def)

lemma snapshot_tasks_listed:
  assumes "snapshot U cfg cores p = (snap, p')"
  shows "snapshot_ok snap" "ps_taskCount snap = min (length (concat (map cd_tasks cores))) kMaxSnapshotTasks"
    "take (ps_taskCount snap) (ps_tasks snap) = take kMaxSnapshotTasks (concat (map (core_snapshots p') (enumerate 0 cores)))"
    "p' = snd (pub_now U p)"
proof -
  obtain now where now: "pub_now U p = (now, p')"
    using assms by (auto simp: snapshot_def Let_def split: prod.splits)
  have ts: "snapshot_cores p' 0 cores [] = take kMaxSnapshotTasks (concat (map (core_snapshots p') (enumerate 0 cores)))"
    using snapshot_cores_take [of "[]" p' 0 cores] by simp
  have snap: "ps_taskCount snap = length (snapshot_cores p' 0 cores [])"
      "ps_tasks snap = snapshot_cores p' 0 cores [] @
         replicate (kMaxSnapshotTasks - length (snapshot_cores p' 0 cores [])) task_snapshot_default"
      "length (ps_coreUtilization snap) = kMaxSnapshotCores"
    using assms by (auto simp: snapshot_def now Let_def)
  have len: "length (snapshot_cores p' 0 cores []) = min (length (concat (map cd_tasks cores))) kMaxSnapshotTasks"
    by (simp only: ts length_take length_core_snapshots)
  show "snapshot_ok snap" "ps_taskCount snap = min (length (concat (map cd_tasks cores))) kMaxSnapshotTasks"
    using snap len by (simp_all add: snapshot_ok_def)
  have "take (ps_taskCount snap) (ps_tasks snap) = snapshot_cores p' 0 cores []" by (simp add: snap)
  then show "take (ps_taskCount snap) (ps_tasks snap) = take kMaxSnapshotTasks (concat (map (core_snapshots p') (enumerate 0 cores)))"
    by (simp only: ts)
  show "p' = snd (pub_now U p)" by (simp add: now)
qed

text \<open>C28: the performance snapshot. It has the sizes the serializer relies on, whatever the configuration; it
  counts and lists the tasks of all cores in core order, each with its core, its index and the statistics of
  its timer, cut off after 16; and taking it only reads the clock.\<close>

theorem snapshot_lists_tasks:
  assumes "snapshot U cfg cores p = (snap, p')"
  shows "snapshot_ok snap \<and> ps_taskCount snap = min (length (concat (map cd_tasks cores))) kMaxSnapshotTasks \<and>
     take (ps_taskCount snap) (ps_tasks snap) =
       take kMaxSnapshotTasks (concat (map (core_snapshots p') (enumerate 0 cores))) \<and>
     p' = snd (pub_now U p)"
  using snapshot_tasks_listed [OF assms] by blast

theorem snapshot_lists_tasks_witness:
  "\<exists>snap p'. snapshot example_user example_cfg (sy_cores example_system) (sy_pub example_system) = (snap, p') \<and>
     snapshot_ok snap \<and> ps_taskCount snap = 1 \<and> take (ps_taskCount snap) (ps_tasks snap) = [task_snapshot p' 0 0 (TUser 20)]"
proof -
  obtain snap p' where s: "snapshot example_user example_cfg (sy_cores example_system) (sy_pub example_system) = (snap, p')"
    by fastforce
  have cores: "sy_cores example_system = [\<lparr>cd_tasks = [TUser 20], cd_mode = FLAT_LOOP, cd_crunchTask = None\<rparr>, CoreData_init]"
    by (simp add: example_system_def)
  note listed = snapshot_lists_tasks [OF s]
  then have "ps_taskCount snap = 1" by (simp add: cores CoreData_init_def kMaxSnapshotTasks_def)
  moreover have "take kMaxSnapshotTasks (concat (map (core_snapshots p') (enumerate 0 (sy_cores example_system))))
      = [task_snapshot p' 0 0 (TUser 20)]"
    by (simp add: cores CoreData_init_def core_snapshots_def kMaxSnapshotTasks_def)
  ultimately show ?thesis using s listed by metis
qed

text \<open>C29: a metrics request is answered only in a small system. A METRICS_REQ frame is answered with one
  METRICS_RESP frame that holds the image of a fresh snapshot when the cores have at most seven tasks
  together, the kernel's own included; with eight or more the response does not fit into a frame, and nothing
  at all is sent, not even a NACK.\<close>

theorem metrics_request_answered:
  assumes "comms_listening cfg s" "sy_commsTask s = Some t" "m_handler (ct_cli t)" "ct_snapshotFn t"
    and "\<not> m_hasFramedCommand (ct_cli t)" "length payload \<le> MaxPayload"
    and "delivers (strm U) (frame_wire MT_METRICS_REQ q payload) (world (sy_pub s)) w"
    and "snapshot U cfg (sy_cores s) ((sy_pub s)\<lparr>world := w\<rparr>) = (snap, p)"
  shows "\<exists>s1. tref_tick U cfg TComms now s = Some s1 \<and>
     sy_pub s1 = (if length (concat (map cd_tasks (sy_cores s))) \<le> 7
       then write_bytes (pub_stream U) (frame_wire MT_METRICS_RESP q (metrics_image snap)) p else p)"
proof -
  have t: "cli_ok cfg (ct_cli t)" "CLI.m_stream (ct_cli t)" "m_mode (ct_cli t) = FRAMED"
      "fd_cobsLen (m_frameDecoder (ct_cli t)) = 0"
    using assms(1,2) by (simp_all add: comms_listening_def)
  have small: "ps_taskCount snap \<le> 7 \<longleftrightarrow> length (concat (map cd_tasks (sy_cores s))) \<le> 7"
    using snapshot_tasks_listed(2) [OF assms(8)] by (simp add: kMaxSnapshotTasks_def min_le_iff_disj)
  from metrics_tick [where snapshot = "snapshot U cfg (sy_cores s)" and push = "pub_try_push cfg",
      OF t(1,2) assms(3,4) t(3,4) assms(5,6) delivers_pub_stream [OF assms(7)] assms(8) snapshot_tasks_listed(1) [OF assms(8)]]
  show ?thesis unfolding small using assms(2) by (auto simp: tref_tick_def split del: if_split)
qed


theorem metrics_request_answered_witness:
  "let s = example_framed\<lparr>sy_pub := (sy_pub example_framed)\<lparr>world := example_state\<lparr>ex_in := frame_wire MT_METRICS_REQ 7 []\<rparr>\<rparr>\<rparr>;
       r = snapshot example_user example_cfg (sy_cores s) ((sy_pub s)\<lparr>world := example_state\<rparr>) in
   \<exists>s1. tref_tick example_user example_cfg TComms 5 s = Some s1 \<and>
     sy_pub s1 = write_bytes (pub_stream example_user) (frame_wire MT_METRICS_RESP 7 (metrics_image (fst r))) (snd r)"
proof -
  let ?s = "example_framed\<lparr>sy_pub := (sy_pub example_framed)\<lparr>world := example_state\<lparr>ex_in := frame_wire MT_METRICS_REQ 7 []\<rparr>\<rparr>\<rparr>"
  obtain snap p where r: "snapshot example_user example_cfg (sy_cores ?s) ((sy_pub ?s)\<lparr>world := example_state\<rparr>) = (snap, p)"
    by fastforce
  have len: "length (frame_wire MT_METRICS_REQ 7 []) \<le> 15" by (rule short_frame) simp
  have listening: "comms_listening example_cfg ?s" "sy_commsTask ?s = Some (example_comms FRAMED)"
    using example_comms_ok [of FRAMED] by (simp_all add: comms_listening_def example_framed_def)
  have "delivers (strm example_user) (frame_wire MT_METRICS_REQ 7 []) (world (sy_pub ?s)) example_state"
    using len frame_wire_nonempty by (simp add: delivers_def example_user_def kReadBufSize_def example_state_def)
  moreover have "m_handler (ct_cli (example_comms FRAMED))" "ct_snapshotFn (example_comms FRAMED)"
      "\<not> m_hasFramedCommand (ct_cli (example_comms FRAMED))"
    using example_comms_ok [of FRAMED] by simp_all
  moreover have "length (concat (map cd_tasks (sy_cores ?s))) \<le> 7"
    by (simp add: example_framed_def example_system_def CoreData_init_def)
  ultimately show ?thesis
    using metrics_request_answered [OF listening, of "[]" example_user 7 example_state snap p 5] r
    by (simp add: Let_def)
qed

end
