(* ===== verification/SafetyChain.thy ===== *)
theory SafetyChain
  imports Pipeline
begin

text \<open>
  How a verdict of a safety monitor on one core reaches a crunch core: the control task
  (\<^verbatim>\<open>kernel/tasks/ScheduledControlTask.h\<close>), the safety-abort flag of \<^verbatim>\<open>kernel/System.h\<close>, the loop of
  \<^verbatim>\<open>kernel/CrunchDispatcher.h\<close> and the end of \<^verbatim>\<open>run()\<close> together.
\<close>

lemma stop_conditions_keep_abort:
  assumes "\<forall>i p. safetyAbort (snd (stopCondition U i p)) = safetyAbort p"
  shows "safetyAbort (snd (anyStopCondition_loop U conds p)) = safetyAbort p"
proof (induction conds arbitrary: p)
  case (Cons i conds)
  obtain b q where "stopCondition U i p = (b, q)" by fastforce
  with assms [rule_format, of i p] Cons show ?case by simp
qed simp

lemma unsafe_dispatch:
  assumes "sy_controlTask s = Some \<lparr>kc_commandQueue = True, kc_app = True\<rparr>"
    and "unsafe U (timer_start U TControl (sy_pub s))"
  shows "timed_tick U cfg TControl now s = Some (on_pub (\<lambda>p. timer_stop U TControl (signalSafetyAbort
     (forceSafeAbort U (timer_start U TControl p)))) s)"
  using assms by (auto simp: timed_tick_def tref_tick_def control_tick_def evaluateSafety_iff on_pub_def unsafe_def)

lemma timer_stop_keeps_abort: "safetyAbort (timer_stop U r p) = safetyAbort p"
  by (simp add: timer_stop_def split: prod.split)

lemma aborted_head:
  assumes "isActiveState (sy_kernelState (env s))" "isSafetyAborted (sy_pub (env s))"
    and "\<forall>i p. safetyAbort (snd (stopCondition U i p)) = safetyAbort p"
    and "anyStopConditionFired U (env s) = (fired, s1)" "cr_task (sy_crunchDispatcher (env s)) = Some n"
  shows "crunch_loop env U cfg c s = Some (if fired then s1 else crunch_soft_abort U n s1)"
proof -
  have "isSafetyAborted (sy_pub s1)"
    using stop_conditions_keep_abort [OF assms(3), of "sy_stopConditions (env s)" "sy_pub (env s)"] assms(2,4)
    by (auto simp: anyStopConditionFired_def isSafetyAborted_def split: prod.splits)
  moreover have "cr_task (sy_crunchDispatcher s1) = Some n"
    using assms(5) anyStopConditionFired_fields(3) [OF assms(4)] by simp
  ultimately show ?thesis using assms(1,4) by (subst crunch_loop.simps) simp
qed

text \<open>C2: 
  An unsafe verdict ends a system with a crunch core. Suppose that, after any number of passes of the crunch loop, the
  other core dispatches the control task and a monitor reports unsafe. Then the application has been told to abort, the loop is left at its
  next head, with the abort handler of the configured crunch task called and SOFT_ABORT logged unless a stop condition fired at that very moment, \<^verbatim>\<open>run()\<close> of
  the crunch core takes the kernel to SHUTDOWN, and the loop of the other core ends there too.
\<close>

theorem unsafe_verdict_ends_system:
  assumes "crunch_passes env U cfg c k s = Some sk" "sy_kernelState sk = RUNNING" "cr_task (sy_crunchDispatcher sk) = Some n"
    and "sy_controlTask sk = Some \<lparr>kc_commandQueue = True, kc_app = True\<rparr>"
    and "unsafe U (timer_start U TControl (sy_pub sk))" "timed_tick U cfg TControl now sk = Some (env sk)"
    and "\<forall>i p. safetyAbort (snd (stopCondition U i p)) = safetyAbort p"
    and "anyStopConditionFired U (env sk) = (fired, s1)"
    and "s' = (if fired then s1 else crunch_soft_abort U n s1)"
  shows "sy_pub (env sk) = timer_stop U TControl (signalSafetyAbort (forceSafeAbort U (timer_start U TControl (sy_pub sk)))) \<and>
    crunch_loop env U cfg c s = Some s' \<and> sy_kernelState (run_shutdown s') = SHUTDOWN \<and>
    flat_loop (\<lambda>s. s) U cfg 0 (run_shutdown s') = Some (run_shutdown s')"
proof -
  have e: "env sk = on_pub (\<lambda>p. timer_stop U TControl (signalSafetyAbort (forceSafeAbort U (timer_start U TControl p)))) sk"
    using unsafe_dispatch [OF assms(4,5), of cfg now] assms(6) by simp
  then have st: "sy_kernelState (env sk) = RUNNING" "isSafetyAborted (sy_pub (env sk))" "cr_task (sy_crunchDispatcher (env sk)) = Some n"
    using assms(2,3) by (simp_all add: on_pub_def isSafetyAborted_def timer_stop_keeps_abort signalSafetyAbort_def)
  have loop: "crunch_loop env U cfg c s = Some s'"
    using crunch_loop_passes [OF assms(1)] aborted_head [of env sk, OF _ st(2) assms(7,8) st(3)] st(1) assms(9)
    by (simp add: isActiveState_def)
  have "sy_kernelState s' = RUNNING"
    using anyStopConditionFired_fields(1) [OF assms(8)] st(1) assms(9)
    by (simp add: crunch_soft_abort_def split: prod.split)
  then have "sy_kernelState (run_shutdown s') = SHUTDOWN" by (simp add: run_shutdown_state)
  moreover from this have "flat_loop (\<lambda>s. s) U cfg 0 (run_shutdown s') = Some (run_shutdown s')"
    by (subst flat_loop.simps) (simp add: isActiveState_def)
  ultimately show ?thesis using e loop by (simp add: on_pub_def)
qed

text \<open>A crunch task on core 1 completes one pass while its own core is undisturbed; then core 0 finds the machine
  unsafe.\<close>

definition unsafe_system :: "example_user_state System" where
  "unsafe_system = example_crunch_system\<lparr>sy_controlTask := Some \<lparr>kc_commandQueue = True, kc_app = True\<rparr>,
     sy_kernelState := RUNNING, sy_stopConditions := [],
     sy_pub := (sy_pub example_crunch_system)\<lparr>world := example_state\<lparr>ex_safe := False\<rparr>\<rparr>\<rparr>"

definition control_env :: "example_user_state System \<Rightarrow> example_user_state System" where
  "control_env s = (if ex_time (world (sy_pub s)) < 1100 then s
     else case timed_tick example_user example_cfg TControl 7 s of None \<Rightarrow> s | Some s' \<Rightarrow> s')"

lemma unsafe_system_pass:
  "case crunch_passes control_env example_user example_cfg 1 1 unsafe_system of None \<Rightarrow> False
   | Some s \<Rightarrow> sy_kernelState s = RUNNING \<and> cr_task (sy_crunchDispatcher s) = Some 6 \<and> sy_controlTask s = Some \<lparr>kc_commandQueue = True, kc_app = True\<rparr> \<and>
       1100 \<le> ex_time (world (sy_pub s)) \<and> \<not> ex_safe (world (sy_pub s))"
  by code_simp

theorem unsafe_verdict_ends_system_witness:
  "\<exists>sk s'. crunch_passes control_env example_user example_cfg 1 1 unsafe_system = Some sk \<and>
     crunch_loop control_env example_user example_cfg 1 unsafe_system = Some s' \<and>
     isSafetyAborted (sy_pub (control_env sk)) \<and> sy_kernelState (run_shutdown s') = SHUTDOWN"
proof -
  obtain sk where sk: "crunch_passes control_env example_user example_cfg 1 1 unsafe_system = Some sk"
      "sy_kernelState sk = RUNNING" "cr_task (sy_crunchDispatcher sk) = Some 6" "sy_controlTask sk = Some \<lparr>kc_commandQueue = True, kc_app = True\<rparr>"
      "1100 \<le> ex_time (world (sy_pub sk))" "\<not> ex_safe (world (sy_pub sk))"
    using unsafe_system_pass by (auto split: option.splits)
  have un: "unsafe example_user (timer_start example_user TControl (sy_pub sk))"
    using sk(6) by (auto simp: unsafe_def timer_start_def TaskTimer_start_def example_user_def spend_def read_source_def
        split: if_splits)
  then have tick: "timed_tick example_user example_cfg TControl 7 sk = Some (control_env sk)"
    using unsafe_dispatch [OF sk(4) un, of example_cfg 7] sk(5) by (auto simp: control_env_def not_less)
  obtain fired s1 where f: "anyStopConditionFired example_user (control_env sk) = (fired, s1)" by fastforce
  have "\<forall>i p. safetyAbort (snd (stopCondition example_user i p)) = safetyAbort p" by (simp add: example_user_def)
  from unsafe_verdict_ends_system [OF sk(1-4) un tick this f refl] sk(1) show ?thesis
    by (auto simp: isSafetyAborted_def timer_stop_keeps_abort signalSafetyAbort_def)
qed

end
