(* ===== verification/Formatter.thy ===== *)
theory Formatter
  imports Protocol
begin

text \<open>
  \<^verbatim>\<open>utils/PerformanceFormatter.h\<close> and \<^verbatim>\<open>src/utils/PerformanceFormatter.cpp\<close>: the two text formats of a
  performance snapshot, written into a caller's buffer.

  The source advances a position by what each append reports; here an append takes and returns the position
  together with the buffer, and is \<open>None\<close> when it stores outside the buffer. A sequence of statements is a list
  run by \<open>seqM\<close>. A null buffer pointer is the buffer \<open>None\<close>. The lemmas show that each append writes its characters as far as the buffer reaches, so
  that the whole output is the text of the snapshot, cut off before the last byte, which holds the
  terminator.
\<close>

type_synonym fmt = "nat \<times> byte list"

definition seqM :: "('a \<Rightarrow> 'a option) list \<Rightarrow> 'a \<Rightarrow> 'a option" where
  "seqM fs = foldM (\<lambda>f. f) fs"

section \<open>Private helpers\<close>

fun appendStr :: "nat \<Rightarrow> cstr \<Rightarrow> fmt \<Rightarrow> fmt option" where
  "appendStr bufLen [] pb = Some pb"
| "appendStr bufLen (c # cs) (pos, buf) =
     (if pos + 1 < bufLen then do { buf \<leftarrow> wr buf pos c; appendStr bufLen cs (pos + 1, buf) }
      else Some (pos, buf))"

definition appendChar :: "nat \<Rightarrow> byte \<Rightarrow> fmt \<Rightarrow> fmt option" where
  "appendChar bufLen c pb =
     (let (pos, buf) = pb in
      if pos + 1 < bufLen then do { buf \<leftarrow> wr buf pos c; Some (pos + 1, buf) } else Some (pos, buf))"

text \<open>The digits of a number, the last one first, as the temporary array holds them.\<close>

function u64_digits :: "u64 \<Rightarrow> byte list" where
  "u64_digits val = (if val > 0 then (48 + ucast (val mod 10)) # u64_digits (val div 10) else [])"
  by pat_completeness auto
termination
proof (relation "measure unat")
  fix val :: u64
  assume "val > 0"
  then have "unat val > 0" by (simp add: word_less_nat_alt)
  then show "(val div 10, val) \<in> measure unat" by (simp add: unat_div)
qed simp

declare u64_digits.simps [simp del]

definition tmp_digits :: "u64 \<Rightarrow> byte list" where
  "tmp_digits val = (if val = 0 then [48] else u64_digits val)"

definition appendU64 :: "nat \<Rightarrow> u64 \<Rightarrow> fmt \<Rightarrow> fmt option" where
  "appendU64 bufLen val = appendStr bufLen (rev (tmp_digits val))"

definition appendU32 :: "nat \<Rightarrow> u32 \<Rightarrow> fmt \<Rightarrow> fmt option" where
  "appendU32 bufLen val = appendU64 bufLen (ucast val)"

definition f32_1000 :: f32 where "f32_1000 = 0x447A0000"

definition appendFloat :: "nat \<Rightarrow> f32 \<Rightarrow> fmt \<Rightarrow> fmt option" where
  "appendFloat bufLen val pb =
     (let neg = f32_less val 0;
          val = (if neg then f32_uminus val else val);
          intPart = f32_to_u32 val;
          frac = f32_sub val (f32_of_u32 intPart);
          fracInt = f32_to_u32 (f32_add (f32_mul frac f32_1000) f32_half);
          fracInt = (if fracInt \<ge> 1000 then 999 else fracInt) in
      seqM ((if neg then [appendChar bufLen 45] else []) @
        [appendU32 bufLen intPart, appendChar bufLen 46] @
        (if fracInt < 100 then [appendChar bufLen 48] else []) @
        (if fracInt < 10 then [appendChar bufLen 48] else []) @
        [appendU32 bufLen fracInt]) pb)"

section \<open>Key-value format\<close>

definition KV_U64 :: "nat \<Rightarrow> string \<Rightarrow> u64 \<Rightarrow> fmt \<Rightarrow> fmt option" where
  "KV_U64 bufLen key val = seqM [appendStr bufLen (str (key @ ''='')), appendU64 bufLen val, appendChar bufLen 10]"

definition KV_U32 :: "nat \<Rightarrow> string \<Rightarrow> u32 \<Rightarrow> fmt \<Rightarrow> fmt option" where
  "KV_U32 bufLen key val = seqM [appendStr bufLen (str (key @ ''='')), appendU32 bufLen val, appendChar bufLen 10]"

definition KV_FLOAT :: "nat \<Rightarrow> string \<Rightarrow> f32 \<Rightarrow> fmt \<Rightarrow> fmt option" where
  "KV_FLOAT bufLen key val = seqM [appendStr bufLen (str (key @ ''='')), appendFloat bufLen val, appendChar bufLen 10]"

definition kv_core :: "nat \<Rightarrow> PerformanceSnapshot \<Rightarrow> nat \<Rightarrow> fmt \<Rightarrow> fmt option" where
  "kv_core bufLen snap c = seqM [appendStr bufLen (str ''core''), appendU32 bufLen (of_nat c),
     appendStr bufLen (str ''_util=''), appendFloat bufLen (ps_coreUtilization snap ! c), appendChar bufLen 10]"

definition task_prefix :: "nat \<Rightarrow> byte list" where
  "task_prefix i = [116] @ (if i \<ge> 10 then [48 + of_nat (i div 10)] else []) @ [48 + of_nat (i mod 10)] @ [95]"

definition kv_hist :: "nat \<Rightarrow> TaskSnapshot \<Rightarrow> nat \<Rightarrow> fmt \<Rightarrow> fmt option" where
  "kv_hist bufLen t b = seqM ((if b > 0 then [appendChar bufLen 44] else []) @ [appendU32 bufLen (ts_histogram t ! b)])"

definition kv_task :: "nat \<Rightarrow> PerformanceSnapshot \<Rightarrow> nat \<Rightarrow> fmt \<Rightarrow> fmt option" where
  "kv_task bufLen snap i =
     (let t = ps_tasks snap ! i; prefix = appendStr bufLen (task_prefix i); nl = appendChar bufLen 10 in
      seqM ([prefix, appendStr bufLen (str ''core=''), appendU32 bufLen (of_nat (ts_coreId t)), nl,
        prefix, appendStr bufLen (str ''last=''), appendU64 bufLen (ts_lastUs t), nl,
        prefix, appendStr bufLen (str ''min=''), appendU64 bufLen (ts_minUs t), nl,
        prefix, appendStr bufLen (str ''max=''), appendU64 bufLen (ts_maxUs t), nl,
        prefix, appendStr bufLen (str ''avg=''), appendFloat bufLen (ts_avgUs t), nl,
        prefix, appendStr bufLen (str ''samples=''), appendU32 bufLen (ts_samples t), nl,
        prefix, appendStr bufLen (str ''overruns=''), appendU32 bufLen (ts_overruns t), nl,
        prefix, appendStr bufLen (str ''misses=''), appendU32 bufLen (ts_misses t), nl,
        prefix, appendStr bufLen (str ''hist='')] @
        map (kv_hist bufLen t) [0..<kHistogramBuckets] @ [nl]))"

text \<open>The terminator and the result.\<close>

definition fmt_finish :: "nat \<Rightarrow> fmt \<Rightarrow> (nat \<times> byte list) option" where
  "fmt_finish bufLen pb =
     (let (pos, buf) = pb in
      if pos < bufLen then do { buf \<leftarrow> wr buf pos 0; Some (pos, buf) }
      else if bufLen > 0 then do { buf \<leftarrow> wr buf (bufLen - 1) 0; Some (pos, buf) }
      else Some (pos, buf))"

definition formatKeyValue :: "PerformanceSnapshot \<Rightarrow> byte list option \<Rightarrow> nat \<Rightarrow> (nat \<times> byte list option) option" where
  "formatKeyValue snap buf bufLen =
     (case buf of None \<Rightarrow> Some (0, None)
      | Some b \<Rightarrow> if bufLen < 2 then Some (0, Some b)
      else do {
        pb \<leftarrow> seqM ([KV_U64 bufLen ''timestamp'' (ps_timestamp snap), KV_U32 bufLen ''cores'' (of_nat (ps_coreCount snap))] @
          map (kv_core bufLen snap) [0..<min (ps_coreCount snap) kMaxSnapshotCores] @
          [KV_U64 bufLen ''queue_depth'' (of_nat (ps_queueDepth snap)),
           KV_U64 bufLen ''queue_max'' (of_nat (ps_queueMaxDepth snap)),
           KV_FLOAT bufLen ''queue_avg'' (ps_queueAvgDepth snap),
           KV_U64 bufLen ''heap_peak'' (of_nat (ps_peakHeapUsed snap)),
           KV_U64 bufLen ''heap_free'' (of_nat (ps_freeHeap snap)),
           KV_U64 bufLen ''stack_hw'' (of_nat (ps_stackHighWater snap)),
           KV_U64 bufLen ''gap_total'' (ps_totalGapUs snap), KV_U64 bufLen ''gap_max'' (ps_maxGapUs snap),
           KV_FLOAT bufLen ''gap_avg'' (ps_avgGapUs snap),
           KV_U32 bufLen ''sched_ticks'' (ps_schedulerTickCount snap),
           KV_U32 bufLen ''overruns'' (ps_totalOverruns snap),
           KV_U32 bufLen ''deadline_misses'' (ps_totalDeadlineMisses snap),
           KV_U32 bufLen ''task_count'' (of_nat (ps_taskCount snap))] @
          map (kv_task bufLen snap) [0..<min (ps_taskCount snap) kMaxSnapshotTasks]) (0, b);
        (pos, b) \<leftarrow> fmt_finish bufLen pb;
        Some (pos, Some b) })"

section \<open>CSV format\<close>

definition csv_header :: string where
  "csv_header = ''timestamp,cores,queue_depth,queue_max,queue_avg,'' @ ''heap_peak,heap_free,stack_hw,'' @
     ''gap_total,gap_max,gap_avg,sched_ticks,overruns,deadline_misses'' @ [CHR 0x0A]"

definition csv_system :: "nat \<Rightarrow> PerformanceSnapshot \<Rightarrow> fmt \<Rightarrow> fmt option" where
  "csv_system bufLen snap =
     (let comma = appendChar bufLen 44 in
      seqM [appendU64 bufLen (ps_timestamp snap), comma, appendU32 bufLen (of_nat (ps_coreCount snap)), comma,
        appendU64 bufLen (of_nat (ps_queueDepth snap)), comma, appendU64 bufLen (of_nat (ps_queueMaxDepth snap)), comma,
        appendFloat bufLen (ps_queueAvgDepth snap), comma,
        appendU64 bufLen (of_nat (ps_peakHeapUsed snap)), comma, appendU64 bufLen (of_nat (ps_freeHeap snap)), comma,
        appendU64 bufLen (of_nat (ps_stackHighWater snap)), comma,
        appendU64 bufLen (ps_totalGapUs snap), comma, appendU64 bufLen (ps_maxGapUs snap), comma,
        appendFloat bufLen (ps_avgGapUs snap), comma, appendU32 bufLen (ps_schedulerTickCount snap), comma,
        appendU32 bufLen (ps_totalOverruns snap), comma, appendU32 bufLen (ps_totalDeadlineMisses snap),
        appendChar bufLen 10])"

definition csv_task_header :: "nat \<Rightarrow> fmt \<Rightarrow> fmt option" where
  "csv_task_header bufLen =
     seqM ([appendStr bufLen (str ''task_idx,core,last,min,max,avg,samples,overruns,misses'')] @
       map (\<lambda>b. seqM [appendStr bufLen (str '',h''), appendU32 bufLen (of_nat b)]) [0..<kHistogramBuckets] @
       [appendChar bufLen 10])"

definition csv_task :: "nat \<Rightarrow> PerformanceSnapshot \<Rightarrow> nat \<Rightarrow> fmt \<Rightarrow> fmt option" where
  "csv_task bufLen snap i =
     (let t = ps_tasks snap ! i; comma = appendChar bufLen 44 in
      seqM ([appendU32 bufLen (of_nat (ts_taskIndex t)), comma, appendU32 bufLen (of_nat (ts_coreId t)), comma,
        appendU64 bufLen (ts_lastUs t), comma, appendU64 bufLen (ts_minUs t), comma, appendU64 bufLen (ts_maxUs t), comma,
        appendFloat bufLen (ts_avgUs t), comma, appendU32 bufLen (ts_samples t), comma,
        appendU32 bufLen (ts_overruns t), comma, appendU32 bufLen (ts_misses t)] @
        map (\<lambda>b. seqM [comma, appendU32 bufLen (ts_histogram t ! b)]) [0..<kHistogramBuckets] @
        [appendChar bufLen 10]))"

definition formatCSV :: "PerformanceSnapshot \<Rightarrow> byte list option \<Rightarrow> nat \<Rightarrow> (nat \<times> byte list option) option" where
  "formatCSV snap buf bufLen =
     (case buf of None \<Rightarrow> Some (0, None)
      | Some b \<Rightarrow> if bufLen < 2 then Some (0, Some b)
      else do {
        pb \<leftarrow> seqM ([appendStr bufLen (str csv_header), csv_system bufLen snap, csv_task_header bufLen] @
          map (csv_task bufLen snap) [0..<min (ps_taskCount snap) kMaxSnapshotTasks]) (0, b);
        (pos, b) \<leftarrow> fmt_finish bufLen pb;
        Some (pos, Some b) })"

section \<open>What an append writes\<close>

text \<open>As many of the characters as fit before the last byte.\<close>

definition put :: "nat \<Rightarrow> byte list \<Rightarrow> fmt \<Rightarrow> fmt" where
  "put bufLen bs pb =
     (let (pos, buf) = pb; bs' = take (bufLen - 1 - pos) bs in
      (pos + length bs', take pos buf @ bs' @ drop (pos + length bs') buf))"

definition fmt_ok :: "nat \<Rightarrow> fmt \<Rightarrow> bool" where
  "fmt_ok bufLen pb \<longleftrightarrow> fst pb < bufLen \<and> bufLen \<le> length (snd pb)"

definition writes :: "nat \<Rightarrow> (fmt \<Rightarrow> fmt option) \<Rightarrow> byte list \<Rightarrow> bool" where
  "writes bufLen f bs \<longleftrightarrow> (\<forall>pb. fmt_ok bufLen pb \<longrightarrow> f pb = Some (put bufLen bs pb))"

lemma put_Nil [simp]: "fmt_ok bufLen pb \<Longrightarrow> put bufLen [] pb = pb"
  by (cases pb) (simp add: put_def)

lemma put_ok: "fmt_ok bufLen pb \<Longrightarrow> fmt_ok bufLen (put bufLen bs pb)"
  by (cases pb) (auto simp: fmt_ok_def put_def Let_def)

lemma put_append: "fmt_ok bufLen pb \<Longrightarrow> put bufLen (xs @ ys) pb = put bufLen ys (put bufLen xs pb)"
proof -
  assume ok: "fmt_ok bufLen pb"
  obtain pos buf where pb: "pb = (pos, buf)" by fastforce
  have le: "pos < bufLen" "bufLen \<le> length buf" using ok by (simp_all add: pb fmt_ok_def)
  show ?thesis
  proof (cases "length xs \<le> bufLen - Suc pos")
    case True
    then show ?thesis using le by (simp add: pb put_def Let_def ac_simps)
  next
    case False
    then have "bufLen - Suc (pos + length xs) = 0" "min (length xs) (bufLen - Suc pos) = bufLen - Suc pos"
        "pos + (bufLen - Suc pos) = bufLen - 1" "bufLen - Suc (bufLen - 1) = 0"
      using le by auto
    then show ?thesis using le by (simp add: pb put_def Let_def)
  qed
qed

named_theorems writes_intros \<open>what a sequence of appends writes\<close>

lemma writes_Nil [writes_intros]: "writes bufLen (seqM []) []"
  by (simp add: writes_def seqM_def)

lemma writes_Cons [writes_intros]:
  assumes "writes bufLen f bs" "writes bufLen (seqM fs) bs'"
  shows "writes bufLen (seqM (f # fs)) (bs @ bs')"
proof -
  have "foldM (\<lambda>f. f) (f # fs) pb = Some (put bufLen (bs @ bs') pb)" if "fmt_ok bufLen pb" for pb
    using assms that put_ok [OF that, of bs] by (simp add: writes_def seqM_def put_append del: split_paired_All)
  then show ?thesis by (simp add: writes_def seqM_def)
qed

lemma writes_append [writes_intros]:
  assumes "writes bufLen (seqM fs) bs" "writes bufLen (seqM gs) bs'"
  shows "writes bufLen (seqM (fs @ gs)) (bs @ bs')"
proof -
  have "foldM (\<lambda>f. f) (fs @ gs) pb = foldM (\<lambda>f. f) fs pb \<bind> foldM (\<lambda>f. f) gs" for pb
    by (induction fs arbitrary: pb) (auto split: bind_splits)
  then have "foldM (\<lambda>f. f) (fs @ gs) pb = Some (put bufLen (bs @ bs') pb)" if "fmt_ok bufLen pb" for pb
    using assms that put_ok [OF that, of bs] by (simp add: writes_def seqM_def put_append del: split_paired_All)
  then show ?thesis by (simp add: writes_def seqM_def)
qed

lemma writes_if [writes_intros]:
  "writes bufLen (seqM fs) bs \<Longrightarrow> writes bufLen (seqM (if P then fs else [])) (if P then bs else [])"
  by (simp add: writes_Nil)

lemma writes_map [writes_intros]:
  "(\<And>x. writes bufLen (f x) (g x)) \<Longrightarrow> writes bufLen (seqM (map f xs)) (concat (map g xs))"
  by (induction xs) (simp_all add: writes_Nil writes_Cons)

lemma writes_appendStr [writes_intros]: "writes bufLen (appendStr bufLen cs) cs"
proof -
  have "appendStr bufLen cs pb = Some (put bufLen cs pb)" if "fmt_ok bufLen pb" for pb
    using that
  proof (induction bufLen cs pb rule: appendStr.induct)
    case (2 bufLen c cs pos buf)
    show ?case
    proof (cases "pos + 1 < bufLen")
      case True
      then have ok: "fmt_ok bufLen (pos + 1, buf[pos := c])" and len: "pos < length buf"
        using 2(2) by (auto simp: fmt_ok_def)
      have "put bufLen (c # cs) (pos, buf) = put bufLen cs (put bufLen [c] (pos, buf))"
        using put_append [OF 2(2), of "[c]" cs] by simp
      also have "put bufLen [c] (pos, buf) = (pos + 1, buf[pos := c])"
        using True len by (simp add: put_def upd_conv_take_nth_drop)
      finally show ?thesis using 2(1) [OF True _ ok] True len by (simp add: wr_Some)
    next
      case False
      then show ?thesis using 2(2) by (simp add: put_def fmt_ok_def)
    qed
  qed simp
  then show ?thesis by (simp add: writes_def)
qed

lemma writes_appendChar [writes_intros]: "writes bufLen (appendChar bufLen c) [c]"
proof -
  have "appendChar bufLen c pb = appendStr bufLen [c] pb" for pb
    by (cases pb) (simp add: appendChar_def)
  then show ?thesis using writes_appendStr [of bufLen "[c]"] by (simp add: writes_def)
qed

lemma writes_appendChar_Cons [writes_intros]:
  "writes bufLen (seqM fs) bs \<Longrightarrow> writes bufLen (seqM (appendChar bufLen c # fs)) (c # bs)"
  using writes_Cons [OF writes_appendChar] by fastforce

section \<open>The text of a snapshot\<close>

definition renderU64 :: "u64 \<Rightarrow> byte list" where
  "renderU64 val = rev (tmp_digits val)"

lemma writes_numbers [writes_intros]:
  "writes bufLen (appendU64 bufLen val) (renderU64 val)" "writes bufLen (appendU32 bufLen v) (renderU64 (ucast v))"
  by (simp_all add: appendU64_def appendU32_def renderU64_def writes_appendStr)

definition float_text :: "f32 \<Rightarrow> byte list" where
  "float_text val =
     (let neg = f32_less val 0; val = (if neg then f32_uminus val else val); intPart = f32_to_u32 val;
          fracInt = f32_to_u32 (f32_add (f32_mul (f32_sub val (f32_of_u32 intPart)) f32_1000) f32_half);
          millis = (if fracInt \<ge> 1000 then 999 else fracInt) in
      (if neg then [45] else []) @ (renderU64 (ucast intPart) @ [46]) @
      (if millis < 100 then [48] else []) @ (if millis < 10 then [48] else []) @ renderU64 (ucast millis))"

lemma writes_single [writes_intros]: "writes bufLen f bs \<Longrightarrow> writes bufLen (seqM [f]) bs"
  using writes_Cons [OF _ writes_Nil] by fastforce

lemma writes_appendFloat [writes_intros]: "writes bufLen (appendFloat bufLen val) (float_text val)"
proof -
  have "writes bufLen (\<lambda>pb. appendFloat bufLen val pb) (float_text val)"
    unfolding appendFloat_def float_text_def Let_def by (intro writes_intros)
  then show ?thesis by simp
qed

text \<open>The reference texts.\<close>

definition kv_line :: "string \<Rightarrow> byte list \<Rightarrow> byte list" where
  "kv_line key val = str (key @ ''='') @ val @ [10]"

lemma writes_KV [writes_intros]:
  "writes bufLen (KV_U64 bufLen key v64) (kv_line key (renderU64 v64))"
  "writes bufLen (KV_U32 bufLen key v32) (kv_line key (renderU64 (ucast v32)))"
  "writes bufLen (KV_FLOAT bufLen key f) (kv_line key (float_text f))"
  unfolding KV_U64_def KV_U32_def KV_FLOAT_def kv_line_def by (intro writes_intros)+


definition u32_text :: "u32 \<Rightarrow> byte list" where
  "u32_text v = renderU64 (ucast v)"

definition nat_text :: "nat \<Rightarrow> byte list" where
  "nat_text n = renderU64 (of_nat n)"

definition core_text :: "PerformanceSnapshot \<Rightarrow> nat \<Rightarrow> byte list" where
  "core_text snap c = str ''core'' @ u32_text (of_nat c) @ str ''_util='' @ float_text (ps_coreUtilization snap ! c) @ [10]"

definition task_line :: "nat \<Rightarrow> string \<Rightarrow> byte list \<Rightarrow> byte list" where
  "task_line i key val = task_prefix i @ str key @ val @ [10]"

definition hist_text :: "TaskSnapshot \<Rightarrow> byte list" where
  "hist_text t = concat (map (\<lambda>b. (if b > 0 then [44] else []) @ u32_text (ts_histogram t ! b)) [0..<kHistogramBuckets])"

definition task_text :: "PerformanceSnapshot \<Rightarrow> nat \<Rightarrow> byte list" where
  "task_text snap i =
     (let t = ps_tasks snap ! i in
      task_line i ''core='' (u32_text (of_nat (ts_coreId t))) @ task_line i ''last='' (renderU64 (ts_lastUs t)) @
      task_line i ''min='' (renderU64 (ts_minUs t)) @ task_line i ''max='' (renderU64 (ts_maxUs t)) @
      task_line i ''avg='' (float_text (ts_avgUs t)) @ task_line i ''samples='' (u32_text (ts_samples t)) @
      task_line i ''overruns='' (u32_text (ts_overruns t)) @ task_line i ''misses='' (u32_text (ts_misses t)) @
      task_line i ''hist='' (hist_text t))"

definition kv_text :: "PerformanceSnapshot \<Rightarrow> byte list" where
  "kv_text snap =
     kv_line ''timestamp'' (renderU64 (ps_timestamp snap)) @ kv_line ''cores'' (u32_text (of_nat (ps_coreCount snap))) @
     concat (map (core_text snap) [0..<min (ps_coreCount snap) kMaxSnapshotCores]) @
     kv_line ''queue_depth'' (nat_text (ps_queueDepth snap)) @ kv_line ''queue_max'' (nat_text (ps_queueMaxDepth snap)) @
     kv_line ''queue_avg'' (float_text (ps_queueAvgDepth snap)) @ kv_line ''heap_peak'' (nat_text (ps_peakHeapUsed snap)) @
     kv_line ''heap_free'' (nat_text (ps_freeHeap snap)) @ kv_line ''stack_hw'' (nat_text (ps_stackHighWater snap)) @
     kv_line ''gap_total'' (renderU64 (ps_totalGapUs snap)) @ kv_line ''gap_max'' (renderU64 (ps_maxGapUs snap)) @
     kv_line ''gap_avg'' (float_text (ps_avgGapUs snap)) @ kv_line ''sched_ticks'' (u32_text (ps_schedulerTickCount snap)) @
     kv_line ''overruns'' (u32_text (ps_totalOverruns snap)) @
     kv_line ''deadline_misses'' (u32_text (ps_totalDeadlineMisses snap)) @
     kv_line ''task_count'' (u32_text (of_nat (ps_taskCount snap))) @
     concat (map (task_text snap) [0..<min (ps_taskCount snap) kMaxSnapshotTasks])"

text \<open>A CSV row: the values with commas between them.\<close>

fun row_text :: "byte list list \<Rightarrow> byte list" where
  "row_text [] = [10]"
| "row_text [v] = v @ [10]"
| "row_text (v # vs) = v @ [44] @ row_text vs"

definition csv_task_text :: "TaskSnapshot \<Rightarrow> byte list" where
  "csv_task_text t = row_text ([u32_text (of_nat (ts_taskIndex t)), u32_text (of_nat (ts_coreId t)), renderU64 (ts_lastUs t),
     renderU64 (ts_minUs t), renderU64 (ts_maxUs t), float_text (ts_avgUs t), u32_text (ts_samples t),
     u32_text (ts_overruns t), u32_text (ts_misses t)] @ map (\<lambda>b. u32_text (ts_histogram t ! b)) [0..<kHistogramBuckets])"

definition csv_text :: "PerformanceSnapshot \<Rightarrow> byte list" where
  "csv_text snap = str csv_header @
     row_text [renderU64 (ps_timestamp snap), u32_text (of_nat (ps_coreCount snap)), nat_text (ps_queueDepth snap),
       nat_text (ps_queueMaxDepth snap), float_text (ps_queueAvgDepth snap), nat_text (ps_peakHeapUsed snap),
       nat_text (ps_freeHeap snap), nat_text (ps_stackHighWater snap), renderU64 (ps_totalGapUs snap),
       renderU64 (ps_maxGapUs snap), float_text (ps_avgGapUs snap), u32_text (ps_schedulerTickCount snap),
       u32_text (ps_totalOverruns snap), u32_text (ps_totalDeadlineMisses snap)] @
     row_text (str ''task_idx,core,last,min,max,avg,samples,overruns,misses'' #
       map (\<lambda>b. str ''h'' @ u32_text (of_nat b)) [0..<kHistogramBuckets]) @
     concat (map csv_task_text (map ((!) (ps_tasks snap)) [0..<min (ps_taskCount snap) kMaxSnapshotTasks]))"

lemma writes_texts [writes_intros]:
  "writes bufLen (appendU32 bufLen v) (u32_text v)" "writes bufLen (appendU64 bufLen (of_nat n)) (nat_text n)"
  "writes bufLen (KV_U32 bufLen key v) (kv_line key (u32_text v))"
  "writes bufLen (KV_U64 bufLen key (of_nat n)) (kv_line key (nat_text n))"
  unfolding u32_text_def nat_text_def by (intro writes_intros)+

lemma writes_kv_core [writes_intros]: "writes bufLen (kv_core bufLen snap c) (core_text snap c)"
  unfolding kv_core_def core_text_def by (intro writes_intros)

lemma writes_kv_task [writes_intros]: "writes bufLen (kv_task bufLen snap i) (task_text snap i)"
  unfolding kv_task_def task_text_def task_line_def hist_text_def kv_hist_def Let_def append_assoc append.simps
  by (intro writes_intros)


lemma writes_kv: "writes bufLen (seqM ([KV_U64 bufLen ''timestamp'' (ps_timestamp snap), KV_U32 bufLen ''cores'' (of_nat (ps_coreCount snap))] @
          map (kv_core bufLen snap) [0..<min (ps_coreCount snap) kMaxSnapshotCores] @
          [KV_U64 bufLen ''queue_depth'' (of_nat (ps_queueDepth snap)),
           KV_U64 bufLen ''queue_max'' (of_nat (ps_queueMaxDepth snap)),
           KV_FLOAT bufLen ''queue_avg'' (ps_queueAvgDepth snap),
           KV_U64 bufLen ''heap_peak'' (of_nat (ps_peakHeapUsed snap)),
           KV_U64 bufLen ''heap_free'' (of_nat (ps_freeHeap snap)),
           KV_U64 bufLen ''stack_hw'' (of_nat (ps_stackHighWater snap)),
           KV_U64 bufLen ''gap_total'' (ps_totalGapUs snap), KV_U64 bufLen ''gap_max'' (ps_maxGapUs snap),
           KV_FLOAT bufLen ''gap_avg'' (ps_avgGapUs snap),
           KV_U32 bufLen ''sched_ticks'' (ps_schedulerTickCount snap),
           KV_U32 bufLen ''overruns'' (ps_totalOverruns snap),
           KV_U32 bufLen ''deadline_misses'' (ps_totalDeadlineMisses snap),
           KV_U32 bufLen ''task_count'' (of_nat (ps_taskCount snap))] @
          map (kv_task bufLen snap) [0..<min (ps_taskCount snap) kMaxSnapshotTasks])) (kv_text snap)"
  unfolding kv_text_def append.simps by (intro writes_intros)

lemma writes_csv_system [writes_intros]: "writes bufLen (csv_system bufLen snap)
   (row_text [renderU64 (ps_timestamp snap), u32_text (of_nat (ps_coreCount snap)), nat_text (ps_queueDepth snap),
       nat_text (ps_queueMaxDepth snap), float_text (ps_queueAvgDepth snap), nat_text (ps_peakHeapUsed snap),
       nat_text (ps_freeHeap snap), nat_text (ps_stackHighWater snap), renderU64 (ps_totalGapUs snap),
       renderU64 (ps_maxGapUs snap), float_text (ps_avgGapUs snap), u32_text (ps_schedulerTickCount snap),
       u32_text (ps_totalOverruns snap), u32_text (ps_totalDeadlineMisses snap)])"
  unfolding csv_system_def row_text.simps Let_def append.simps by (intro writes_intros)

lemma row_text_append: "vs \<noteq> [] \<Longrightarrow> row_text (v # vs) = v @ concat (map (\<lambda>v. 44 # v) vs) @ [10]"
  by (induction vs arbitrary: v rule: induct_list012) simp_all

lemma row_text_concat: "row_text (v # vs) = v @ concat (map (\<lambda>v. 44 # v) vs) @ [10]"
  by (cases "vs = []") (simp_all add: row_text_append)

lemma writes_csv_task_header [writes_intros]: "writes bufLen (csv_task_header bufLen)
   (row_text (str ''task_idx,core,last,min,max,avg,samples,overruns,misses'' #
       map (\<lambda>b. str ''h'' @ u32_text (of_nat b)) [0..<kHistogramBuckets]))"
proof -
  have "writes bufLen (csv_task_header bufLen) (str ''task_idx,core,last,min,max,avg,samples,overruns,misses'' @
      concat (map (\<lambda>b. str '',h'' @ u32_text (of_nat b)) [0..<kHistogramBuckets]) @ [10])"
    unfolding csv_task_header_def append.simps by (intro writes_intros)
  then show ?thesis by (simp add: row_text_concat comp_def str_def)
qed

lemma writes_csv_task [writes_intros]: "writes bufLen (csv_task bufLen snap i) (csv_task_text (ps_tasks snap ! i))"
proof -
  let ?t = "ps_tasks snap ! i"
  have "writes bufLen (csv_task bufLen snap i) (u32_text (of_nat (ts_taskIndex ?t)) @ 44 # u32_text (of_nat (ts_coreId ?t)) @
      44 # renderU64 (ts_lastUs ?t) @ 44 # renderU64 (ts_minUs ?t) @ 44 # renderU64 (ts_maxUs ?t) @ 44 # float_text (ts_avgUs ?t) @
      44 # u32_text (ts_samples ?t) @ 44 # u32_text (ts_overruns ?t) @ 44 # u32_text (ts_misses ?t) @
      concat (map (\<lambda>b. 44 # u32_text (ts_histogram ?t ! b)) [0..<kHistogramBuckets]) @ [10])"
    unfolding csv_task_def append.simps Let_def by (intro writes_intros)
  then show ?thesis by (simp add: csv_task_text_def row_text_concat comp_def)
qed

lemma writes_csv: "writes bufLen (seqM ([appendStr bufLen (str csv_header), csv_system bufLen snap, csv_task_header bufLen] @
    map (csv_task bufLen snap) [0..<min (ps_taskCount snap) kMaxSnapshotTasks])) (csv_text snap)"
  unfolding csv_text_def append.simps map_map comp_def by (intro writes_intros)

section \<open>The whole output\<close>

lemma finish_put:
  assumes "2 \<le> bufLen" "bufLen \<le> length buf" and n_def: "n = min (bufLen - 1) (length bs)"
  shows "fmt_finish bufLen (put bufLen bs (0, buf)) = Some (n, take n bs @ [0] @ drop (n + 1) buf)"
proof -
  have p: "put bufLen bs (0, buf) = (n, take n bs @ drop n buf)"
    by (auto simp: put_def n_def min_def)
  have "n < bufLen" "n < length buf" "length (take n bs) = n" using assms by auto
  then show ?thesis
    by (simp add: p fmt_finish_def wr_Some list_update_append drop_update_cancel Cons_nth_drop_Suc [symmetric])
qed

text \<open>The digits a number is written with: they fit the temporary array and read back as the number.\<close>

lemma u64_digits_value: "dec_value (rev (u64_digits v)) = unat v"
proof (induction v rule: u64_digits.induct)
  case (1 v)
  show ?case
  proof (cases "v > 0")
    case True
    have "unat (48 + ucast (v mod 10) :: byte) = 48 + unat v mod 10"
      by (simp add: unat_word_ariths unsigned_ucast_eq unat_mod take_bit_eq_mod)
    then show ?thesis using 1 [OF True] True by (subst u64_digits.simps) (simp add: unat_div)
  next
    case False
    then have "v = 0" by (simp add: word_greater_zero_iff)
    then show ?thesis by (subst u64_digits.simps) (simp add: dec_value_def)
  qed
qed

lemma u64_digits_length: "unat v < 10 ^ k \<Longrightarrow> length (u64_digits v) \<le> k"
proof (induction k arbitrary: v)
  case 0
  then show ?case by (subst u64_digits.simps) (simp add: word_less_nat_alt)
next
  case (Suc k)
  then have "unat (v div 10) < 10 ^ k" by (simp add: unat_div less_mult_imp_div_less mult.commute)
  from Suc.IH [OF this] show ?case by (subst u64_digits.simps) simp
qed

lemma renderU64_value: "dec_value (renderU64 v) = unat v" "length (renderU64 v) \<le> 20"
proof -
  have "unat v < 10 ^ 20" using unsigned_less [of v, where 'a = nat] by simp
  then show "length (renderU64 v) \<le> 20" using u64_digits_length [of v 20] by (simp add: renderU64_def tmp_digits_def)
  show "dec_value (renderU64 v) = unat v"
    using u64_digits_value [of v] by (simp add: renderU64_def tmp_digits_def dec_value_def)
qed

text \<open>C33: 
  Both formatters write the text of the snapshot, cut off before the last byte of the buffer, close it with the
  terminator, leave the rest of the buffer alone and return the number of characters; the numbers in the text are
  decimal and fit the formatter's digit array. A buffer of fewer than two bytes is not touched, and a null
  buffer gives 0.
\<close>

theorem format_output:
  assumes "bufLen \<le> length buf"
  shows "formatKeyValue snap (Some buf) bufLen = Some (if bufLen < 2 then (0, Some buf)
      else let n = min (bufLen - 1) (length (kv_text snap)) in (n, Some (take n (kv_text snap) @ [0] @ drop (n + 1) buf))) \<and>
    formatCSV snap (Some buf) bufLen = Some (if bufLen < 2 then (0, Some buf)
      else let n = min (bufLen - 1) (length (csv_text snap)) in (n, Some (take n (csv_text snap) @ [0] @ drop (n + 1) buf))) \<and>
    formatKeyValue snap None bufLen = Some (0, None) \<and> formatCSV snap None bufLen = Some (0, None) \<and>
    dec_value (renderU64 v) = unat v \<and> length (tmp_digits v) \<le> 20"
proof (intro conjI)
  have ok: "fmt_ok bufLen (0, buf)" if "2 \<le> bufLen" using that assms by (simp add: fmt_ok_def)
  show "formatKeyValue snap (Some buf) bufLen = Some (if bufLen < 2 then (0, Some buf)
      else let n = min (bufLen - 1) (length (kv_text snap)) in (n, Some (take n (kv_text snap) @ [0] @ drop (n + 1) buf)))"
    using writes_kv [of bufLen snap] ok finish_put [OF _ assms refl]
    by (simp add: formatKeyValue_def writes_def Let_def del: split_paired_All)
  show "formatCSV snap (Some buf) bufLen = Some (if bufLen < 2 then (0, Some buf)
      else let n = min (bufLen - 1) (length (csv_text snap)) in (n, Some (take n (csv_text snap) @ [0] @ drop (n + 1) buf)))"
    using writes_csv [of bufLen snap] ok finish_put [OF _ assms refl]
    by (simp add: formatCSV_def writes_def Let_def del: split_paired_All)
  show "dec_value (renderU64 v) = unat v" "length (tmp_digits v) \<le> 20"
    using renderU64_value [of v] by (simp_all add: renderU64_def)
qed (simp_all add: formatKeyValue_def formatCSV_def)

text \<open>A snapshot with one core, one task and some counts; the first characters of its text, in a short buffer.\<close>

definition small_snapshot :: PerformanceSnapshot where
  "small_snapshot = \<lparr> ps_timestamp = 1500, ps_coreCount = 1, ps_coreUtilization = [0x3F000000], ps_queueDepth = 2,
     ps_queueMaxDepth = 3, ps_queueAvgDepth = 0, ps_peakHeapUsed = 0, ps_freeHeap = 0, ps_stackHighWater = 0,
     ps_totalGapUs = 0, ps_maxGapUs = 0, ps_avgGapUs = 0, ps_schedulerTickCount = 0, ps_totalOverruns = 0,
     ps_totalDeadlineMisses = 0, ps_taskCount = 0, ps_tasks = [] \<rparr>"

theorem format_output_witness:
  "formatKeyValue small_snapshot (Some (replicate 16 65)) 12 = Some (11, Some (str ''timestamp=1'' @ [0] @ replicate 4 65)) \<and>
   length (tmp_digits 18446744073709551615) \<le> 20"
proof -
  have "u64_digits 1500 = [48, 48, 53, 49]" by (simp add: u64_digits.simps)
  then have "kv_line ''timestamp'' (renderU64 1500) = str ''timestamp=1'' @ str ''500'' @ [10]"
    by (simp add: kv_line_def renderU64_def tmp_digits_def str_def)
  then have "\<exists>more. kv_text small_snapshot = str ''timestamp=1'' @ more"
    by (simp add: kv_text_def small_snapshot_def)
  moreover have "length (str ''timestamp=1'') = 11" by (simp add: str_def)
  ultimately have t: "take 11 (kv_text small_snapshot) = str ''timestamp=1''" "min 11 (length (kv_text small_snapshot)) = 11"
    by auto
  have "12 - (1 :: nat) = 11" "\<not> 12 < (2 :: nat)" "drop (11 + 1) (replicate 16 65 :: byte list) = replicate 4 65" "12 \<le> length (replicate 16 (65 :: byte))"
    by simp_all
  with format_output [of 12 "replicate 16 65" small_snapshot 18446744073709551615]
  show ?thesis by (simp only: t Let_def if_False)
qed

end
