(* ===== verification/Interlock.thy ===== *)
theory Interlock
  imports SputPrelude "HOL-Library.Sublist"
begin

text \<open>
  \<^verbatim>\<open>logic/InterlockManager.h\<close>, \<^verbatim>\<open>src/logic/InterlockManager.cpp\<close>, \<^verbatim>\<open>OpResult.h\<close> and the device registry of
  \<^verbatim>\<open>osal/tasks/ITask.h\<close>.

  An \<^verbatim>\<open>IInterlockCondition\<close> is what its \<^verbatim>\<open>isSafe()\<close> answers in a state of the machine, an \<^verbatim>\<open>IFaultResponse\<close> is what
  its \<^verbatim>\<open>execute()\<close> does to that state; both are user code, so the machine is a type variable. A null pointer is
  \<open>None\<close>, and a read of a slot that holds one is the result \<open>None\<close>. The two pointer registries of the code share the
  interface \<open>pointer_registry\<close>.
\<close>

section \<open>Result codes\<close>

datatype OpResult = OK | FULL | NULL_ARG

definition succeeded :: "OpResult \<Rightarrow> bool" where
  "succeeded r \<longleftrightarrow> r = OK"

section \<open>The device registry of a task\<close>

definition kMaxDevices :: nat where "kMaxDevices = 16"

record 'd task_devices =
  m_devices :: "'d option list"
  m_deviceCount :: nat

definition task_devices_init :: "'d task_devices" where
  "task_devices_init = \<lparr>m_devices = replicate kMaxDevices None, m_deviceCount = 0\<rparr>"

definition addDevice :: "'d option \<Rightarrow> 'd task_devices \<Rightarrow> (OpResult \<times> 'd task_devices) option" where
  "addDevice device t =
     (case device of None \<Rightarrow> Some (NULL_ARG, t)
      | Some d \<Rightarrow>
        if m_deviceCount t \<ge> kMaxDevices then Some (FULL, t)
        else do {
          ds \<leftarrow> wr (m_devices t) (m_deviceCount t) (Some d);
          Some (OK, t\<lparr>m_devices := ds, m_deviceCount := m_deviceCount t + 1\<rparr>) })"

definition device :: "nat \<Rightarrow> 'd task_devices \<Rightarrow> 'd option option" where
  "device idx t = (if idx < m_deviceCount t then rd (m_devices t) idx else Some None)"

definition deviceCount :: "'d task_devices \<Rightarrow> nat" where
  "deviceCount t = m_deviceCount t"

section \<open>The interlock manager\<close>

definition kMaxConditions :: nat where "kMaxConditions = 8"

record 'w InterlockManager =
  m_conditions :: "('w \<Rightarrow> bool) option list"
  m_conditionCount :: nat
  m_faultResponse :: "('w \<Rightarrow> 'w) option"
  m_softAbort :: bool
  m_hardFault :: bool

definition InterlockManager_init :: "'w InterlockManager" where
  "InterlockManager_init = \<lparr>m_conditions = replicate kMaxConditions None, m_conditionCount = 0,
     m_faultResponse = None, m_softAbort = False, m_hardFault = False\<rparr>"

definition registerCondition ::
    "('w \<Rightarrow> bool) option \<Rightarrow> 'w InterlockManager \<Rightarrow> (OpResult \<times> 'w InterlockManager) option" where
  "registerCondition condition im =
     (case condition of None \<Rightarrow> Some (NULL_ARG, im)
      | Some c \<Rightarrow>
        if m_conditionCount im \<ge> kMaxConditions then Some (FULL, im)
        else do {
          cs \<leftarrow> wr (m_conditions im) (m_conditionCount im) (Some c);
          Some (OK, im\<lparr>m_conditions := cs, m_conditionCount := m_conditionCount im + 1\<rparr>) })"

definition setFaultResponse :: "('w \<Rightarrow> 'w) option \<Rightarrow> 'w InterlockManager \<Rightarrow> 'w InterlockManager" where
  "setFaultResponse response im = im\<lparr>m_faultResponse := response\<rparr>"

text \<open>The loop over the registered conditions, from index \<open>i\<close>, with \<open>n\<close> of them left.\<close>

fun check_loop :: "('w \<Rightarrow> bool) option list \<Rightarrow> nat \<Rightarrow> nat \<Rightarrow> 'w \<Rightarrow> bool option" where
  "check_loop cs i 0 w = Some True"
| "check_loop cs i (Suc n) w =
     do { p \<leftarrow> rd cs i; isSafe \<leftarrow> p; if \<not> isSafe w then Some False else check_loop cs (i + 1) n w }"

definition checkAllInterlocks :: "'w InterlockManager \<Rightarrow> 'w \<Rightarrow> bool option" where
  "checkAllInterlocks im w = check_loop (m_conditions im) 0 (m_conditionCount im) w"

definition triggerSoftAbort :: "'w InterlockManager \<Rightarrow> 'w InterlockManager" where
  "triggerSoftAbort im = im\<lparr>m_softAbort := True\<rparr>"

definition triggerHardFault :: "'w InterlockManager \<Rightarrow> 'w \<Rightarrow> 'w InterlockManager \<times> 'w" where
  "triggerHardFault im w =
     (let im = im\<lparr>m_hardFault := True\<rparr> in
      (im, case m_faultResponse im of None \<Rightarrow> w | Some execute \<Rightarrow> execute w))"

definition hasSoftAbort :: "'w InterlockManager \<Rightarrow> bool" where
  "hasSoftAbort im = m_softAbort im"

definition isHardFaulted :: "'w InterlockManager \<Rightarrow> bool" where
  "isHardFaulted im = m_hardFault im"

definition clearFault :: "'w InterlockManager \<Rightarrow> 'w \<Rightarrow> (bool \<times> 'w InterlockManager) option" where
  "clearFault im w = do {
     safe \<leftarrow> checkAllInterlocks im w;
     if \<not> safe then Some (False, im)
     else Some (True, im\<lparr>m_softAbort := False, m_hardFault := False\<rparr>) }"

definition interlock_validateDependencies :: "'w InterlockManager \<Rightarrow> bool" where
  "interlock_validateDependencies im \<longleftrightarrow> m_conditionCount im > 0 \<and> m_faultResponse im \<noteq> None"

section \<open>The registry interface\<close>

text \<open>
  A registry keeps the pointers it accepted in order, refuses a null pointer and a full registry, and never stores
  outside its array.
\<close>

locale pointer_registry =
  fixes ok :: "'s \<Rightarrow> bool" and items :: "'s \<Rightarrow> 'p list" and cap :: nat
    and add :: "'p option \<Rightarrow> 's \<Rightarrow> (OpResult \<times> 's) option"
  assumes add_null: "ok s \<Longrightarrow> add None s = Some (NULL_ARG, s)"
    and add_full: "ok s \<Longrightarrow> length (items s) = cap \<Longrightarrow> add (Some p) s = Some (FULL, s)"
    and add_room: "ok s \<Longrightarrow> length (items s) < cap \<Longrightarrow>
      \<exists>s'. add (Some p) s = Some (OK, s') \<and> ok s' \<and> items s' = items s @ [p]"
    and items_bound: "ok s \<Longrightarrow> length (items s) \<le> cap"
begin

lemma add_returns:
  assumes "ok s"
  shows "\<exists>r s'. add p s = Some (r, s') \<and> ok s' \<and> prefix (items s) (items s')"
proof (cases p)
  case None
  then show ?thesis using assms add_null by auto
next
  case (Some x)
  show ?thesis
  proof (cases "length (items s) = cap")
    case True
    then show ?thesis using assms add_full Some by auto
  next
    case False
    then have "length (items s) < cap" using items_bound [OF assms] by simp
    from add_room [OF assms this, of x] show ?thesis using Some by auto
  qed
qed

lemma add_all:
  assumes "ok s"
  shows "\<exists>s'. foldM (\<lambda>p s. map_option snd (add p s)) ps s = Some s' \<and> ok s' \<and>
    items s' = take cap (items s @ List.map_filter id ps)"
  using assms
proof (induction ps arbitrary: s)
  case Nil
  then show ?case using items_bound by (simp add: List.map_filter_def)
next
  case (Cons p ps)
  show ?case
  proof (cases p)
    case None
    then show ?thesis using Cons add_null [OF Cons.prems] by (simp add: List.map_filter_def)
  next
    case (Some x)
    show ?thesis
    proof (cases "length (items s) = cap")
      case True
      then show ?thesis using Cons.IH [OF Cons.prems] Some add_full [OF Cons.prems True, of x]
        by (auto simp: List.map_filter_def)
    next
      case False
      then have "length (items s) < cap" using items_bound [OF Cons.prems] by simp
      from add_room [OF Cons.prems this, of x] obtain s' where
        s': "add (Some x) s = Some (OK, s')" "ok s'" "items s' = items s @ [x]" by blast
      show ?thesis using Cons.IH [OF s'(2)] s' Some by (simp add: List.map_filter_def)
    qed
  qed
qed

end

definition devices_ok :: "'d task_devices \<Rightarrow> bool" where
  "devices_ok t \<longleftrightarrow> length (m_devices t) = kMaxDevices \<and> m_deviceCount t \<le> kMaxDevices \<and>
     None \<notin> set (take (m_deviceCount t) (m_devices t))"

definition registered_devices :: "'d task_devices \<Rightarrow> 'd list" where
  "registered_devices t = map the (take (m_deviceCount t) (m_devices t))"

definition interlock_ok :: "'w InterlockManager \<Rightarrow> bool" where
  "interlock_ok im \<longleftrightarrow> length (m_conditions im) = kMaxConditions \<and> m_conditionCount im \<le> kMaxConditions \<and>
     None \<notin> set (take (m_conditionCount im) (m_conditions im))"

definition conditions :: "'w InterlockManager \<Rightarrow> ('w \<Rightarrow> bool) list" where
  "conditions im = map the (take (m_conditionCount im) (m_conditions im))"

interpretation devices: pointer_registry devices_ok registered_devices kMaxDevices addDevice
proof
  fix t :: "'d task_devices" and p
  assume "devices_ok t" "length (registered_devices t) < kMaxDevices"
  then have "m_deviceCount t < kMaxDevices" "m_deviceCount t < length (m_devices t)"
    by (auto simp: devices_ok_def registered_devices_def)
  then show "\<exists>t'. addDevice (Some p) t = Some (OK, t') \<and> devices_ok t' \<and> registered_devices t' = registered_devices t @ [p]"
    using \<open>devices_ok t\<close> by (simp add: addDevice_def wr_Some devices_ok_def registered_devices_def take_Suc_update)
qed (auto simp: addDevice_def devices_ok_def registered_devices_def)

interpretation interlocks: pointer_registry interlock_ok conditions kMaxConditions registerCondition
proof
  fix im :: "'w InterlockManager" and p
  assume "interlock_ok im" "length (conditions im) < kMaxConditions"
  then have "m_conditionCount im < kMaxConditions" "m_conditionCount im < length (m_conditions im)"
    by (auto simp: interlock_ok_def conditions_def)
  then show "\<exists>im'. registerCondition (Some p) im = Some (OK, im') \<and> interlock_ok im' \<and> conditions im' = conditions im @ [p]"
    using \<open>interlock_ok im\<close> by (simp add: registerCondition_def wr_Some interlock_ok_def conditions_def take_Suc_update)
qed (auto simp: registerCondition_def interlock_ok_def conditions_def)

section \<open>The manager and the machine\<close>

text \<open>The calls of the manager, and the machine changing between them.\<close>

datatype 'w interlock_op =
    Register "('w \<Rightarrow> bool) option"
  | SetResponse "('w \<Rightarrow> 'w) option"
  | SoftAbort
  | HardFault
  | ClearFault
  | Machine 'w

inductive interlock_step ::
    "'w InterlockManager \<times> 'w \<Rightarrow> 'w interlock_op \<Rightarrow> 'w InterlockManager \<times> 'w \<Rightarrow> bool" where
  Register: "registerCondition c im = Some (r, im') \<Longrightarrow> interlock_step (im, w) (Register c) (im', w)"
| SetResponse: "interlock_step (im, w) (SetResponse f) (setFaultResponse f im, w)"
| SoftAbort: "interlock_step (im, w) SoftAbort (triggerSoftAbort im, w)"
| HardFault: "interlock_step (im, w) HardFault (triggerHardFault im w)"
| ClearFault: "clearFault im w = Some (r, im') \<Longrightarrow> interlock_step (im, w) ClearFault (im', w)"
| Machine: "interlock_step (im, w) (Machine w') (im, w')"

inductive interlock_run ::
    "'w InterlockManager \<times> 'w \<Rightarrow> 'w interlock_op list \<Rightarrow> 'w InterlockManager \<times> 'w \<Rightarrow> bool" where
  Nil: "interlock_run s [] s"
| snoc: "interlock_run s ops s' \<Longrightarrow> interlock_step s' op s'' \<Longrightarrow> interlock_run s (ops @ [op]) s''"

lemma check_loop_all:
  "i + n \<le> length cs \<Longrightarrow> None \<notin> set (take n (drop i cs)) \<Longrightarrow>
   check_loop cs i n w = Some (\<forall>c\<in>set (take n (drop i cs)). the c w)"
proof (induction n arbitrary: i)
  case (Suc n)
  then have "drop i cs = cs ! i # drop (Suc i) cs" by (simp add: Cons_nth_drop_Suc)
  moreover from this Suc.prems(2) obtain c where "cs ! i = Some c" by (cases "cs ! i") simp_all
  ultimately show ?case using Suc by (simp add: rd_Some)
qed simp

lemma checkAllInterlocks_all:
  "interlock_ok im \<Longrightarrow> checkAllInterlocks im w = Some (\<forall>c\<in>set (conditions im). c w)"
  by (simp add: checkAllInterlocks_def interlock_ok_def conditions_def check_loop_all)

lemma clearFault_spec:
  "interlock_ok im \<Longrightarrow> clearFault im w =
     Some (if \<forall>c\<in>set (conditions im). c w then (True, im\<lparr>m_softAbort := False, m_hardFault := False\<rparr>) else (False, im))"
  by (simp add: clearFault_def checkAllInterlocks_all)

lemma interlock_ok_flags [simp]:
  "interlock_ok (im\<lparr>m_softAbort := a, m_hardFault := b\<rparr>) = interlock_ok im"
  "interlock_ok (im\<lparr>m_softAbort := a\<rparr>) = interlock_ok im" "interlock_ok (im\<lparr>m_hardFault := b\<rparr>) = interlock_ok im"
  "interlock_ok (im\<lparr>m_faultResponse := f\<rparr>) = interlock_ok im"
  "conditions (im\<lparr>m_softAbort := a, m_hardFault := b\<rparr>) = conditions im"
  "conditions (im\<lparr>m_softAbort := a\<rparr>) = conditions im" "conditions (im\<lparr>m_hardFault := b\<rparr>) = conditions im"
  "conditions (im\<lparr>m_faultResponse := f\<rparr>) = conditions im"
  by (simp_all add: interlock_ok_def conditions_def)

lemmas interlock_ops = setFaultResponse_def triggerSoftAbort_def triggerHardFault_def Let_def

lemma registerCondition_flags:
  "registerCondition c im = Some (r, im') \<Longrightarrow> m_hardFault im' = m_hardFault im"
  by (auto simp: registerCondition_def wr_def split: option.splits if_splits)

lemma interlock_step_ok:
  assumes "interlock_step (im, w) op (im', w')" "interlock_ok im"
  shows "interlock_ok im' \<and> prefix (conditions im) (conditions im')"
  using assms(1)
proof (cases rule: interlock_step.cases)
  case (Register c r)
  then show ?thesis using interlocks.add_returns [OF assms(2), of c] by auto
qed (use assms(2) in \<open>auto simp: interlock_ops clearFault_spec split: if_splits\<close>)

text \<open>The only step that clears a fault is \<^verbatim>\<open>clearFault()\<close> in a safe state.\<close>

lemma interlock_step_latch:
  assumes "interlock_step (im, w) op (im', w')" "interlock_ok im" "isHardFaulted im" "\<not> isHardFaulted im'"
  shows "op = ClearFault \<and> (\<forall>c\<in>set (conditions im). c w)"
  using assms(1)
  by (cases rule: interlock_step.cases)
    (use assms(2-) in \<open>auto simp: interlock_ops isHardFaulted_def clearFault_spec dest: registerCondition_flags split: if_splits\<close>)

lemma interlock_step_total:
  assumes "interlock_ok im"
  shows "\<exists>s'. interlock_step (im, w) op s'"
proof (cases op)
  case (Register c)
  then show ?thesis using interlocks.add_returns [OF assms, of c] by (blast intro: interlock_step.intros)
next
  case ClearFault
  have "\<exists>x. clearFault im w = Some x" using clearFault_spec [OF assms, of w] by blast
  then obtain r im' where "clearFault im w = Some (r, im')" by auto
  then show ?thesis using ClearFault by (blast intro: interlock_step.intros)
qed (blast intro: interlock_step.intros)+

lemma interlock_run_ok:
  "interlock_run s ops s' \<Longrightarrow> interlock_ok (fst s) \<Longrightarrow> interlock_ok (fst s') \<and> prefix (conditions (fst s)) (conditions (fst s'))"
proof (induction rule: interlock_run.induct)
  case (snoc s ops s' op s'')
  then show ?case
    using interlock_step_ok [of "fst s'" "snd s'" op "fst s''" "snd s''"] prefix_order.trans by auto
qed simp

lemma interlock_init_ok: "interlock_ok InterlockManager_init"
  by (simp add: interlock_ok_def InterlockManager_init_def)

lemma interlock_run_latch:
  "interlock_run s ops s' \<Longrightarrow> interlock_ok (fst s) \<Longrightarrow> isHardFaulted (fst s) \<Longrightarrow> \<not> isHardFaulted (fst s') \<Longrightarrow>
   \<exists>before after im w. ops = before @ ClearFault # after \<and> interlock_run s before (im, w) \<and> (\<forall>c\<in>set (conditions (fst s)). c w)"
proof (induction rule: interlock_run.induct)
  case (snoc s ops s' op s'')
  show ?case
  proof (cases "isHardFaulted (fst s')")
    case True
    note ok = interlock_run_ok [OF snoc.hyps(1) snoc.prems(1)]
    have "op = ClearFault \<and> (\<forall>c\<in>set (conditions (fst s')). c (snd s'))"
      by (rule interlock_step_latch [of _ _ _ "fst s''" "snd s''"]) (use snoc.hyps(2) ok True snoc.prems(3) in simp_all)
    then show ?thesis using snoc.hyps(1) ok set_mono_prefix by (metis append_Cons append_Nil prod.collapse subsetD)
  next
    case False
    with snoc.IH [OF snoc.prems(1,2)] obtain before after im w where
      "ops = before @ ClearFault # after" "interlock_run s before (im, w)" "\<forall>c\<in>set (conditions (fst s)). c w" by blast
    then show ?thesis by (metis append_Cons append_assoc)
  qed
qed simp

text \<open>C14: 
  The hard fault latches. From the constructor on, whatever is called and whatever the machine does in between, no
  call stores outside the registry or reads an empty slot, no registered condition is lost, and a
  latched fault stays unless \<^verbatim>\<open>clearFault()\<close> was called in a state of the machine in which every condition that was registered
  when the fault was latched held.
\<close>

theorem hard_fault_latches:
  assumes "interlock_run (InterlockManager_init, w0) ops (im, w)" "isHardFaulted im" "interlock_run (im, w) later (im', w')"
  shows "(\<forall>op. \<exists>s. interlock_step (im', w') op s) \<and> prefix (conditions im) (conditions im') \<and>
    length (conditions im') \<le> kMaxConditions \<and>
    (isHardFaulted im' \<or> (\<exists>before after im1 w1. later = before @ ClearFault # after \<and>
       interlock_run (im, w) before (im1, w1) \<and> (\<forall>c\<in>set (conditions im). c w1)))"
proof -
  have ok: "interlock_ok im" using interlock_run_ok [OF assms(1)] by (simp add: interlock_init_ok)
  have "interlock_ok im' \<and> prefix (conditions im) (conditions im')" using interlock_run_ok [OF assms(3)] ok by simp
  moreover have "length (conditions im') \<le> kMaxConditions" if "interlock_ok im'" using interlocks.items_bound that .
  ultimately show ?thesis using interlock_step_total interlock_run_latch [OF assms(3)] ok assms(2) by auto
qed

text \<open>One condition on a number, a fault, and a clear while the condition fails: the fault stays.\<close>

definition example_interlocks :: "nat InterlockManager" where
  "example_interlocks = \<lparr>m_conditions = Some (\<lambda>p. p < 10) # replicate 7 None, m_conditionCount = 1,
     m_faultResponse = None, m_softAbort = False, m_hardFault = True\<rparr>"

theorem hard_fault_latches_witness:
  "clearFault example_interlocks 12 = Some (False, example_interlocks) \<and>
   interlock_run (InterlockManager_init, 12) [Register (Some (\<lambda>p. p < 10)), HardFault] (example_interlocks, 12) \<and>
   interlock_run (example_interlocks, 12) [ClearFault] (example_interlocks, 12) \<and> isHardFaulted example_interlocks \<and>
   (\<forall>op. \<exists>s. interlock_step (example_interlocks, 12) op s)"
proof -
  let ?im = "example_interlocks\<lparr>m_hardFault := False\<rparr>"
  have r8: "replicate 8 (None :: (nat \<Rightarrow> bool) option) = None # replicate 7 None" by (simp add: eval_nat_numeral)
  have "registerCondition (Some (\<lambda>p. p < (10 :: nat))) InterlockManager_init = Some (OK, ?im)"
    by (simp add: registerCondition_def InterlockManager_init_def example_interlocks_def kMaxConditions_def wr_def r8)
  from interlock_step.Register [OF this, of 12] interlock_run.snoc [OF interlock_run.Nil]
  have "interlock_run (InterlockManager_init, 12) [Register (Some (\<lambda>p. p < 10))] (?im, 12)" by fastforce
  from interlock_run.snoc [OF this interlock_step.HardFault]
  have 1: "interlock_run (InterlockManager_init, 12) [Register (Some (\<lambda>p. p < 10)), HardFault] (example_interlocks, 12)"
    by (simp add: triggerHardFault_def example_interlocks_def)
  have 2: "clearFault example_interlocks 12 = Some (False, example_interlocks)"
    by (simp add: clearFault_def checkAllInterlocks_def example_interlocks_def rd_def)
  from interlock_run.snoc [OF interlock_run.Nil interlock_step.ClearFault [OF this]]
  have 3: "interlock_run (example_interlocks, 12) [ClearFault] (example_interlocks, 12)" by simp
  have 4: "isHardFaulted example_interlocks" by (simp add: isHardFaulted_def example_interlocks_def)
  show ?thesis using hard_fault_latches [OF 1 4 3] 1 2 3 4 by simp
qed

end
