(* ===== verification/ControlUtils.thy ===== *)
theory ControlUtils
  imports Float32
begin

text \<open>
  \<^verbatim>\<open>utils/PIDController.h\<close>, \<^verbatim>\<open>utils/NonBlockingStopwatch.h\<close> and \<^verbatim>\<open>utils/MinMax.h\<close>, with their sources under \<^verbatim>\<open>src/utils\<close>:
  the controller and the timer an application uses in its control tick. Values are binary32, each operation rounded on its own, times are 64-bit
  microseconds whose difference wraps.
\<close>

section \<open>Minimum and maximum\<close>

definition sput_min :: "f32 \<Rightarrow> f32 \<Rightarrow> f32" where
  "sput_min a b = (if f32_less b a then b else a)"

definition sput_max :: "f32 \<Rightarrow> f32 \<Rightarrow> f32" where
  "sput_max a b = (if f32_less a b then b else a)"

section \<open>The controller\<close>

record PIDController =
  m_kp :: f32
  m_ki :: f32
  m_kd :: f32
  m_outputMin :: f32
  m_outputMax :: f32
  m_integral :: f32
  m_prevError :: f32
  m_lastOutput :: f32
  m_lastTimestamp :: micros
  m_firstSample :: bool

definition PIDController_init :: "f32 \<Rightarrow> f32 \<Rightarrow> f32 \<Rightarrow> f32 \<Rightarrow> f32 \<Rightarrow> PIDController" where
  "PIDController_init kp ki kd outputMin outputMax =
     \<lparr>m_kp = kp, m_ki = ki, m_kd = kd, m_outputMin = outputMin, m_outputMax = outputMax, m_integral = 0,
      m_prevError = 0, m_lastOutput = 0, m_lastTimestamp = 0, m_firstSample = True\<rparr>"

text \<open>The literal \<^verbatim>\<open>0.000001f\<close>.\<close>

definition f32_micro :: f32 where "f32_micro = 0x358637BD"

text \<open>The weighted sum the source writes twice, once with the new integral and once with the one it keeps.\<close>

definition pid_sum :: "PIDController \<Rightarrow> f32 \<Rightarrow> f32 \<Rightarrow> f32 \<Rightarrow> f32" where
  "pid_sum p error integral derivative =
     f32_add (f32_add (f32_mul (m_kp p) error) (f32_mul (m_ki p) integral)) (f32_mul (m_kd p) derivative)"

definition compute :: "f32 \<Rightarrow> f32 \<Rightarrow> micros \<Rightarrow> PIDController \<Rightarrow> f32 \<times> PIDController" where
  "compute setpoint measured timestamp p =
     (if m_firstSample p then (0, p\<lparr>m_lastTimestamp := timestamp, m_firstSample := False\<rparr>)
      else let dtUs = timestamp - m_lastTimestamp p in
      if dtUs = 0 then (m_lastOutput p, p)
      else
        let dt = f32_mul (f32_of_u64 dtUs) f32_micro;
            error = f32_sub setpoint measured;
            derivative = f32_div (f32_sub error (m_prevError p)) dt;
            rawIntegral = f32_add (m_integral p) (f32_mul error dt);
            rawOutput = pid_sum p error rawIntegral derivative;
            saturated = f32_le (m_outputMax p) rawOutput \<or> f32_le rawOutput (m_outputMin p);
            sameSign = f32_less 0 (f32_mul error (m_integral p));
            p = (if \<not> saturated \<or> \<not> sameSign then p\<lparr>m_integral := rawIntegral\<rparr> else p);
            output = sput_max (m_outputMin p) (sput_min (m_outputMax p) (pid_sum p error (m_integral p) derivative)) in
        (output, p\<lparr>m_prevError := error, m_lastOutput := output, m_lastTimestamp := timestamp\<rparr>))"

definition setGains :: "f32 \<Rightarrow> f32 \<Rightarrow> f32 \<Rightarrow> PIDController \<Rightarrow> PIDController" where
  "setGains kp ki kd p = p\<lparr>m_kp := kp, m_ki := ki, m_kd := kd\<rparr>"

definition setOutputLimits :: "f32 \<Rightarrow> f32 \<Rightarrow> PIDController \<Rightarrow> PIDController" where
  "setOutputLimits outputMin outputMax p = p\<lparr>m_outputMin := outputMin, m_outputMax := outputMax\<rparr>"

definition getLastOutput :: "PIDController \<Rightarrow> f32" where
  "getLastOutput p = m_lastOutput p"

definition pid_reset :: "PIDController \<Rightarrow> PIDController" where
  "pid_reset p = p\<lparr>m_integral := 0, m_prevError := 0, m_lastOutput := 0, m_lastTimestamp := 0, m_firstSample := True\<rparr>"

section \<open>The stopwatch\<close>

record NonBlockingStopwatch =
  m_startTime :: micros
  m_running :: bool

definition NonBlockingStopwatch_init :: NonBlockingStopwatch where
  "NonBlockingStopwatch_init = \<lparr>m_startTime = 0, m_running = False\<rparr>"

definition stopwatch_start :: "micros \<Rightarrow> NonBlockingStopwatch \<Rightarrow> NonBlockingStopwatch" where
  "stopwatch_start currentTime s = s\<lparr>m_startTime := currentTime, m_running := True\<rparr>"

definition stopwatch_stop :: "NonBlockingStopwatch \<Rightarrow> NonBlockingStopwatch" where
  "stopwatch_stop s = s\<lparr>m_running := False\<rparr>"

definition elapsed :: "NonBlockingStopwatch \<Rightarrow> micros \<Rightarrow> micros" where
  "elapsed s currentTime = (if \<not> m_running s then 0 else currentTime - m_startTime s)"

definition hasExpired :: "NonBlockingStopwatch \<Rightarrow> micros \<Rightarrow> micros \<Rightarrow> bool" where
  "hasExpired s currentTime duration \<longleftrightarrow> m_running s \<and> elapsed s currentTime \<ge> duration"

definition isRunning :: "NonBlockingStopwatch \<Rightarrow> bool" where
  "isRunning s = m_running s"

definition stopwatch_reset :: "NonBlockingStopwatch \<Rightarrow> NonBlockingStopwatch" where
  "stopwatch_reset s = s\<lparr>m_startTime := 0, m_running := False\<rparr>"

section \<open>Limits\<close>

definition in_limits :: "f32 \<Rightarrow> f32 \<Rightarrow> f32 \<Rightarrow> bool" where
  "in_limits lo hi x \<longleftrightarrow> f32_le lo x \<and> f32_le x hi"

text \<open>The order of the two clamps turns a not-a-number sum into the upper limit.\<close>

lemma clamp_in_limits: "f32_le lo hi \<Longrightarrow> in_limits lo hi (sput_max lo (sput_min hi x))"
  by (auto simp: in_limits_def sput_max_def sput_min_def f32_le_def f32_less_def)

text \<open>The calls of an application that leave the limits as they are.\<close>

datatype pid_op = Compute f32 f32 micros | SetGains f32 f32 f32 | Reset

fun pid_op_step :: "pid_op \<Rightarrow> PIDController \<Rightarrow> f32 option \<times> PIDController" where
  "pid_op_step (Compute sp mv t) p = (let (u, p) = compute sp mv t p in (Some u, p))"
| "pid_op_step (SetGains kp ki kd) p = (None, setGains kp ki kd p)"
| "pid_op_step Reset p = (None, pid_reset p)"

fun pid_outputs :: "pid_op list \<Rightarrow> PIDController \<Rightarrow> f32 list" where
  "pid_outputs [] p = []"
| "pid_outputs (op # ops) p =
     (let (u, p) = pid_op_step op p in (case u of None \<Rightarrow> [] | Some u \<Rightarrow> [u]) @ pid_outputs ops p)"

fun pid_after :: "pid_op list \<Rightarrow> PIDController \<Rightarrow> PIDController" where
  "pid_after [] p = p"
| "pid_after (op # ops) p = pid_after ops (snd (pid_op_step op p))"

definition pid_inv :: "f32 \<Rightarrow> f32 \<Rightarrow> PIDController \<Rightarrow> bool" where
  "pid_inv lo hi p \<longleftrightarrow> m_outputMin p = lo \<and> m_outputMax p = hi \<and> in_limits lo hi (m_lastOutput p)"

lemma compute_limits:
  assumes "pid_inv lo hi p" "in_limits lo hi 0"
  shows "in_limits lo hi (fst (compute sp mv t p)) \<and> pid_inv lo hi (snd (compute sp mv t p))"
proof -
  have "f32_le lo hi" using assms(2) f32_le_trans by (auto simp: in_limits_def)
  then show ?thesis using assms clamp_in_limits by (simp add: compute_def pid_inv_def Let_def)
qed

lemma pid_op_step_limits:
  assumes "pid_inv lo hi p" "in_limits lo hi 0" "pid_op_step op p = (u, p')"
  shows "pid_inv lo hi p' \<and> (\<forall>x. u = Some x \<longrightarrow> in_limits lo hi x)"
proof (cases op)
  case (Compute sp mv t)
  then show ?thesis using assms(3) compute_limits [OF assms(1,2), of sp mv t] by (auto split: prod.splits)
qed (use assms in \<open>auto simp: setGains_def pid_reset_def pid_inv_def\<close>)

lemma pid_run_limits:
  "pid_inv lo hi p \<Longrightarrow> in_limits lo hi 0 \<Longrightarrow>
   pid_inv lo hi (pid_after ops p) \<and> list_all (in_limits lo hi) (pid_outputs ops p)"
proof (induction ops arbitrary: p)
  case (Cons op ops)
  obtain u p' where st: "pid_op_step op p = (u, p')" by fastforce
  with pid_op_step_limits [OF Cons.prems st] Cons.IH Cons.prems(2) show ?case by (auto split: option.splits)
qed simp

text \<open>The anti-windup rule: a saturated output does not push the integral further in the direction of the error.\<close>

lemma compute_integral:
  assumes "\<not> m_firstSample p" "t \<noteq> m_lastTimestamp p"
  shows "let err = f32_sub sp mv; dt = f32_mul (f32_of_u64 (t - m_lastTimestamp p)) f32_micro;
      raw = f32_add (m_integral p) (f32_mul err dt);
      out = pid_sum p err raw (f32_div (f32_sub err (m_prevError p)) dt) in
    m_integral (snd (compute sp mv t p)) =
      (if f32_less 0 (f32_mul err (m_integral p)) \<and> (f32_le (m_outputMax p) out \<or> f32_le out (m_outputMin p))
       then m_integral p else raw)"
  using assms by (simp add: compute_def Let_def)

text \<open>C34: 
  When zero lies between the limits, every output of a controller and its last output lie between them, for
  every sequence of samples, gain changes and resets, with infinite or
  not-a-number gains and measurements too.
\<close>

theorem pid_outputs_in_limits:
  assumes "in_limits lo hi 0"
  shows "list_all (in_limits lo hi) (pid_outputs ops (PIDController_init kp ki kd lo hi)) \<and>
    in_limits lo hi (getLastOutput (pid_after ops (PIDController_init kp ki kd lo hi)))"
proof -
  have "pid_inv lo hi (PIDController_init kp ki kd lo hi)"
    using assms by (simp add: pid_inv_def PIDController_init_def)
  from pid_run_limits [OF this assms] show ?thesis by (auto simp: pid_inv_def getLastOutput_def)
qed

text \<open>Gains of one and limits of minus one and one: an error of 100 saturates.\<close>

theorem pid_outputs_in_limits_witness:
  "in_limits 0xBF800000 0x3F800000 0 \<and>
   list_all (in_limits 0xBF800000 0x3F800000)
     (pid_outputs [Compute 0x42C80000 0 5, Compute 0x42C80000 0 1005, Reset, Compute f32_nan 0 7]
        (PIDController_init 0x3F800000 0x3F800000 0 0xBF800000 0x3F800000))"
proof -
  have "in_limits 0xBF800000 0x3F800000 0" by code_simp
  from this pid_outputs_in_limits [OF this] show ?thesis by blast
qed

section \<open>Stopwatch\<close>

lemma stopwatch_expiry:
  assumes "unat t0 + unat d < 2 ^ 64" "t0 \<le> t"
  shows "hasExpired (stopwatch_start t0 s) t d \<longleftrightarrow> t0 + d \<le> t"
proof -
  have "unat (t - t0) = unat t - unat t0" using assms(2) by (simp add: unat_sub word_le_nat_alt)
  moreover have "unat (t0 + d) = unat t0 + unat d" using assms(1) by (simp add: unat_word_ariths)
  ultimately show ?thesis using assms(2)
    by (auto simp: hasExpired_def elapsed_def stopwatch_start_def word_le_nat_alt)
qed

lemma stopwatch_stopped: "\<not> hasExpired (stopwatch_stop s) t d" "elapsed (stopwatch_stop s) t = 0"
  by (simp_all add: hasExpired_def elapsed_def stopwatch_stop_def)

end
