(* ===== verification/TaskStorage.thy ===== *)
theory TaskStorage
  imports KernelSystem
begin

text \<open>
  The rest of the task interface and of the kernel's storage: the blocking loop of \<^verbatim>\<open>ITask::run()\<close>, the hooks with
  their defaults (\<^verbatim>\<open>osal/tasks/ITask.h\<close>, \<^verbatim>\<open>IScheduledTask.h\<close>), and \<^verbatim>\<open>utils/InPlaceStorage.h\<close>, in which the
  kernel constructs its own tasks.

  The loop of \<^verbatim>\<open>run()\<close> is a partial function: a result \<open>None\<close> is a call that does not return. The storage keeps a
  record of the constructor and destructor calls it makes.
\<close>

section \<open>ITask::run and the hooks\<close>

partial_function (option) task_loop :: "(micros \<Rightarrow> 's \<Rightarrow> 's option) \<Rightarrow> 's clock \<Rightarrow> 's \<Rightarrow> 's option" where
  "task_loop tick getTime s =
     (case getTime s of (now, s) \<Rightarrow> (case tick now s of None \<Rightarrow> None | Some s \<Rightarrow> task_loop tick getTime s))"

definition ITask_run :: "('s \<Rightarrow> 's) \<Rightarrow> (micros \<Rightarrow> 's \<Rightarrow> 's option) \<Rightarrow> 's clock \<Rightarrow> 's \<Rightarrow> 's option" where
  "ITask_run ini tick getTime s = task_loop tick getTime (ini s)"

definition ITask_isScheduled :: bool where "ITask_isScheduled = False"
definition ITask_isBackground :: bool where "ITask_isBackground = False"
definition ITask_isCrunchTask :: bool where "ITask_isCrunchTask = False"
definition ITask_onSuspend :: "'p \<Rightarrow> 'p" where "ITask_onSuspend p = p"
definition ITask_onResume :: "'p \<Rightarrow> 'p" where "ITask_onResume p = p"
definition IScheduledTask_isIoPending :: bool where "IScheduledTask_isIoPending = False"

text \<open>\<^verbatim>\<open>run()\<close> is documented to run forever on bare-metal targets; it does, whatever the task.\<close>

lemma run_never_returns: "ITask_run ini tick getTime s = None"
proof -
  have "False" if "task_loop tick getTime s = Some y" for s y
    using that by (rule task_loop.raw_induct [rotated]) (auto split: prod.splits option.splits)
  then show ?thesis by (cases "task_loop tick getTime (ini s)") (auto simp: ITask_run_def)
qed

text \<open>Its first \<open>n\<close> iterations are the ticks at the times the clock returns.\<close>

fun task_iterations :: "(micros \<Rightarrow> 's \<Rightarrow> 's option) \<Rightarrow> 's clock \<Rightarrow> nat \<Rightarrow> 's \<Rightarrow> 's option" where
  "task_iterations tick getTime 0 s = Some s"
| "task_iterations tick getTime (Suc n) s =
     (case getTime s of (now, s) \<Rightarrow> (case tick now s of None \<Rightarrow> None | Some s \<Rightarrow> task_iterations tick getTime n s))"

lemma task_loop_iterations:
  "task_iterations tick getTime n s = Some s' \<Longrightarrow> task_loop tick getTime s = task_loop tick getTime s'"
proof (induction n arbitrary: s)
  case (Suc n)
  then show ?case by (subst task_loop.simps) (auto split: prod.splits option.splits)
qed simp

section \<open>InPlaceStorage\<close>

datatype 'a lifetime = Construct 'a | Destroy 'a

record 'a InPlaceStorage =
  ip_storage :: "'a option"
  ip_alive :: bool
  ip_calls :: "'a lifetime list"

definition InPlaceStorage_init :: "'a InPlaceStorage" where
  "InPlaceStorage_init = \<lparr>ip_storage = None, ip_alive = False, ip_calls = []\<rparr>"

definition ip_ptr :: "'a InPlaceStorage \<Rightarrow> 'a option" where
  "ip_ptr s = ip_storage s"

definition ip_reset :: "'a InPlaceStorage \<Rightarrow> 'a InPlaceStorage" where
  "ip_reset s =
     (if ip_alive s then
        s\<lparr>ip_calls := ip_calls s @ (case ip_ptr s of None \<Rightarrow> [] | Some v \<Rightarrow> [Destroy v]), ip_alive := False\<rparr>
      else s)"

definition emplace :: "'a \<Rightarrow> 'a InPlaceStorage \<Rightarrow> 'a InPlaceStorage" where
  "emplace v s =
     (let s = ip_reset s; s = s\<lparr>ip_storage := Some v, ip_calls := ip_calls s @ [Construct v]\<rparr> in s\<lparr>ip_alive := True\<rparr>)"

definition has_value :: "'a InPlaceStorage \<Rightarrow> bool" where
  "has_value s = ip_alive s"

definition InPlaceStorage_destroy :: "'a InPlaceStorage \<Rightarrow> 'a InPlaceStorage" where
  "InPlaceStorage_destroy s = ip_reset s"

text \<open>A sequence of \<^verbatim>\<open>emplace(v)\<close> (\<open>Some v\<close>) and \<^verbatim>\<open>reset()\<close> (\<open>None\<close>).\<close>

definition ip_step :: "'a option \<Rightarrow> 'a InPlaceStorage \<Rightarrow> 'a InPlaceStorage" where
  "ip_step op s = (case op of None \<Rightarrow> ip_reset s | Some v \<Rightarrow> emplace v s)"

definition lifetimes :: "'a list \<Rightarrow> 'a lifetime list" where
  "lifetimes vs = concat (map (\<lambda>v. [Construct v, Destroy v]) vs)"

definition ip_inv :: "'a list \<Rightarrow> 'a InPlaceStorage \<Rightarrow> bool" where
  "ip_inv vs s \<longleftrightarrow> (if ip_alive s then vs \<noteq> [] \<and> ip_storage s = Some (last vs) \<and>
       ip_calls s = lifetimes (butlast vs) @ [Construct (last vs)] else ip_calls s = lifetimes vs)"

lemma lifetimes_snoc: "vs \<noteq> [] \<Longrightarrow> lifetimes vs = lifetimes (butlast vs) @ [Construct (last vs), Destroy (last vs)]"
  by (induction vs rule: rev_induct) (simp_all add: lifetimes_def)

lemma ip_reset_inv: "ip_inv vs s \<Longrightarrow> ip_inv vs (ip_reset s) \<and> \<not> ip_alive (ip_reset s)"
  by (auto simp: ip_inv_def ip_reset_def ip_ptr_def lifetimes_snoc)

lemma emplace_inv: "ip_inv vs s \<Longrightarrow> ip_inv (vs @ [v]) (emplace v s) \<and> has_value (emplace v s) \<and> ip_ptr (emplace v s) = Some v"
  using ip_reset_inv [of vs s] by (simp add: ip_inv_def emplace_def Let_def has_value_def ip_ptr_def)

text \<open>Every object is destroyed exactly once, before the next one is constructed and at the latest with the
  storage, whatever the order of \<^verbatim>\<open>emplace()\<close> and \<^verbatim>\<open>reset()\<close>.\<close>

theorem storage_lifetimes:
  "ip_calls (InPlaceStorage_destroy (fold ip_step ops InPlaceStorage_init)) = lifetimes (List.map_filter (\<lambda>op. op) ops)"
proof -
  have "ip_inv (List.map_filter (\<lambda>op. op) ops) (fold ip_step ops InPlaceStorage_init)"
  proof (induction ops rule: rev_induct)
    case Nil
    show ?case by (simp add: ip_inv_def InPlaceStorage_init_def lifetimes_def map_filter_def)
  next
    case (snoc op ops)
    then show ?case
      by (cases op) (auto simp: ip_step_def map_filter_def dest: ip_reset_inv emplace_inv)
  qed
  from ip_reset_inv [OF this] show ?thesis by (simp add: InPlaceStorage_destroy_def ip_inv_def)
qed

end
