(* ===== verification/HostTasks.thy ===== *)
theory HostTasks
  imports KernelSystem
begin

text \<open>
  The task classes of the example projects \<^verbatim>\<open>heartbeat\<close>, \<^verbatim>\<open>lifecycle\<close> and \<^verbatim>\<open>multirate\<close>
  (\<^verbatim>\<open>exampleProjects/*/include\<close>): what applications put on top of the kernel.

  A task object is a record; the telemetry logger it refers to is passed along with the state of the logger's
  mutex. Four of the classes limit their own rate in the same way; the locale \<open>paced_task\<close> is that contract,
  and its lemmas say at which times such a task works and what it emits.
\<close>

section \<open>Logging from a task\<close>

type_synonym 'm mutex_fns = "(millis \<Rightarrow> 'm \<Rightarrow> bool \<times> 'm) \<times> ('m \<Rightarrow> 'm)"

type_synonym 'm telemetry = "TelemetryLogger \<times> 'm"

text \<open>\<^verbatim>\<open>m_telemetry.log(task, m_builder.c_str(), level, now)\<close>.\<close>

definition task_log ::
    "'m mutex_fns \<Rightarrow> TaskID \<Rightarrow> LightweightStringBuilder \<Rightarrow> Verbosity \<Rightarrow> micros \<Rightarrow> 'm telemetry \<Rightarrow> 'm telemetry" where
  "task_log mx task sb level now = TelemetryLogger_log (fst mx) (snd mx) task (c_string (sb_buf sb)) level now"

definition append_text :: "string \<Rightarrow> LightweightStringBuilder \<Rightarrow> LightweightStringBuilder" where
  "append_text s = append_str (Some (str s))"

section \<open>Heartbeat: PulseTask\<close>

record PulseTask =
  pu_builder :: LightweightStringBuilder
  pu_lastPulse :: micros
  pu_pulseCount :: u32

definition kPulseIntervalMs :: u32 where "kPulseIntervalMs = 500"
definition kPulseIntervalUs :: micros where "kPulseIntervalUs = ucast kPulseIntervalMs * 1000"

definition PulseTask_new :: PulseTask where
  "PulseTask_new = \<lparr>pu_builder = sb_init, pu_lastPulse = 0, pu_pulseCount = 0\<rparr>"

definition PulseTask_init :: "PulseTask \<Rightarrow> PulseTask" where
  "PulseTask_init t = t\<lparr>pu_lastPulse := 0, pu_pulseCount := 0\<rparr>"

definition PulseTask_tick :: "'m mutex_fns \<Rightarrow> micros \<Rightarrow> PulseTask \<times> 'm telemetry \<Rightarrow> PulseTask \<times> 'm telemetry" where
  "PulseTask_tick mx now tlm =
     (let (t, lm) = tlm; elapsed = now - pu_lastPulse t in
      if elapsed \<ge> kPulseIntervalUs then
        let t = t\<lparr>pu_lastPulse := now, pu_pulseCount := pu_pulseCount t + 1\<rparr>;
            sb = append_u32 (pu_pulseCount t) (append_text ''Pulse #'' (sb_clear (pu_builder t))) in
        (t\<lparr>pu_builder := sb\<rparr>, task_log mx SYSTEM sb STATUS now lm)
      else (t, lm))"

section \<open>Lifecycle: WorkerTask and MonitorTask\<close>

record WorkerTask =
  wk_builder :: LightweightStringBuilder
  wk_iterCount :: u32
  wk_lastTick :: micros

definition WorkerTask_kPeriodUs :: micros where "WorkerTask_kPeriodUs = 200000"

definition WorkerTask_new :: WorkerTask where
  "WorkerTask_new = \<lparr>wk_builder = sb_init, wk_iterCount = 0, wk_lastTick = 0\<rparr>"

definition WorkerTask_init :: "WorkerTask \<Rightarrow> WorkerTask" where
  "WorkerTask_init t = t\<lparr>wk_iterCount := 0, wk_lastTick := 0\<rparr>"

definition WorkerTask_tick :: "'m mutex_fns \<Rightarrow> micros \<Rightarrow> WorkerTask \<times> 'm telemetry \<Rightarrow> WorkerTask \<times> 'm telemetry" where
  "WorkerTask_tick mx now tlm =
     (let (t, lm) = tlm in
      if now - wk_lastTick t < WorkerTask_kPeriodUs then (t, lm)
      else
        let t = t\<lparr>wk_lastTick := now, wk_iterCount := wk_iterCount t + 1\<rparr>;
            sb = append_u32 (wk_iterCount t) (append_text ''[Core 0] Worker tick #'' (sb_clear (wk_builder t))) in
        (t\<lparr>wk_builder := sb\<rparr>, task_log mx CONTROL sb STATUS now lm))"

definition worker_report :: "string \<Rightarrow> 'm mutex_fns \<Rightarrow> WorkerTask \<times> 'm telemetry \<Rightarrow> WorkerTask \<times> 'm telemetry" where
  "worker_report text mx tlm =
     (let (t, lm) = tlm; sb = append_u32 (wk_iterCount t) (append_text text (sb_clear (wk_builder t))) in
      (t\<lparr>wk_builder := sb\<rparr>, task_log mx CONTROL sb STATUS 0 lm))"

definition WorkerTask_onSuspend :: "'m mutex_fns \<Rightarrow> WorkerTask \<times> 'm telemetry \<Rightarrow> WorkerTask \<times> 'm telemetry" where
  "WorkerTask_onSuspend = worker_report ''[Core 0] Worker SUSPENDED at tick #''"

definition WorkerTask_onResume :: "'m mutex_fns \<Rightarrow> WorkerTask \<times> 'm telemetry \<Rightarrow> WorkerTask \<times> 'm telemetry" where
  "WorkerTask_onResume = worker_report ''[Core 0] Worker RESUMED at tick #''"

record MonitorTask =
  mo_builder :: LightweightStringBuilder
  mo_reportCount :: u32
  mo_lastTick :: micros

definition MonitorTask_kPeriodUs :: micros where "MonitorTask_kPeriodUs = 500000"

definition MonitorTask_new :: MonitorTask where
  "MonitorTask_new = \<lparr>mo_builder = sb_init, mo_reportCount = 0, mo_lastTick = 0\<rparr>"

definition MonitorTask_init :: "MonitorTask \<Rightarrow> MonitorTask" where
  "MonitorTask_init t = t\<lparr>mo_reportCount := 0, mo_lastTick := 0\<rparr>"

definition stateName :: "KernelState \<Rightarrow> string" where
  "stateName state = (case state of
     UNCONFIGURED \<Rightarrow> ''UNCONFIGURED'' | CONFIGURED \<Rightarrow> ''CONFIGURED'' | INITIALIZING \<Rightarrow> ''INITIALIZING''
   | RUNNING \<Rightarrow> ''RUNNING'' | SUSPENDING \<Rightarrow> ''SUSPENDING'' | SUSPENDED \<Rightarrow> ''SUSPENDED'' | ABORTING \<Rightarrow> ''ABORTING''
   | ABORTED \<Rightarrow> ''ABORTED'' | SHUTTING_DOWN \<Rightarrow> ''SHUTTING_DOWN'' | SHUTDOWN \<Rightarrow> ''SHUTDOWN'')"

text \<open>What \<^verbatim>\<open>System::kernelState()\<close> returns during the tick is the argument \<open>state\<close>.\<close>

definition MonitorTask_tick ::
    "'m mutex_fns \<Rightarrow> KernelState \<Rightarrow> micros \<Rightarrow> MonitorTask \<times> 'm telemetry \<Rightarrow> MonitorTask \<times> 'm telemetry" where
  "MonitorTask_tick mx state now tlm =
     (let (t, lm) = tlm in
      if now - mo_lastTick t < MonitorTask_kPeriodUs then (t, lm)
      else
        let t = t\<lparr>mo_lastTick := now, mo_reportCount := mo_reportCount t + 1\<rparr>;
            sb = append_u32 (mo_reportCount t) (append_text ''[Core 1] State report #'' (sb_clear (mo_builder t)));
            sb = append_text (stateName state) (append_text '': '' sb) in
        (t\<lparr>mo_builder := sb\<rparr>, task_log mx COMMS sb STATUS now lm))"

section \<open>Multirate: FastSampleTask, SlowReportTask and IdleCounterTask\<close>

record FastSampleTask =
  fs_sampleCount :: u32
  fs_accumulator :: u64
  fs_lastTick :: micros

definition FastSampleTask_kPeriodUs :: micros where "FastSampleTask_kPeriodUs = 10000"

definition FastSampleTask_new :: FastSampleTask where
  "FastSampleTask_new = \<lparr>fs_sampleCount = 0, fs_accumulator = 0, fs_lastTick = 0\<rparr>"

definition FastSampleTask_init :: "FastSampleTask \<Rightarrow> FastSampleTask" where
  "FastSampleTask_init t = t\<lparr>fs_sampleCount := 0, fs_accumulator := 0, fs_lastTick := 0\<rparr>"

definition FastSampleTask_tick :: "micros \<Rightarrow> FastSampleTask \<Rightarrow> FastSampleTask" where
  "FastSampleTask_tick now t =
     (if now - fs_lastTick t < FastSampleTask_kPeriodUs then t
      else
        let t = t\<lparr>fs_lastTick := now\<rparr>; reading = fs_sampleCount t mod 100 in
        t\<lparr>fs_accumulator := fs_accumulator t + ucast reading, fs_sampleCount := fs_sampleCount t + 1\<rparr>)"

definition drainAccumulator :: "FastSampleTask \<Rightarrow> u64 \<times> FastSampleTask" where
  "drainAccumulator t = (let val = fs_accumulator t in (val, t\<lparr>fs_accumulator := 0\<rparr>))"

record SlowReportTask =
  sr_builder :: LightweightStringBuilder
  sr_reportCount :: u32
  sr_lastTick :: micros

definition SlowReportTask_kPeriodUs :: micros where "SlowReportTask_kPeriodUs = 500000"

definition SlowReportTask_new :: SlowReportTask where
  "SlowReportTask_new = \<lparr>sr_builder = sb_init, sr_reportCount = 0, sr_lastTick = 0\<rparr>"

definition SlowReportTask_init :: "SlowReportTask \<Rightarrow> SlowReportTask" where
  "SlowReportTask_init t = t\<lparr>sr_reportCount := 0, sr_lastTick := 0\<rparr>"

text \<open>The sampler the task refers to is passed beside the logger.\<close>

definition SlowReportTask_tick :: "'m mutex_fns \<Rightarrow> micros \<Rightarrow>
    SlowReportTask \<times> FastSampleTask \<times> 'm telemetry \<Rightarrow> SlowReportTask \<times> FastSampleTask \<times> 'm telemetry" where
  "SlowReportTask_tick mx now tfl =
     (let (t, f, lm) = tfl in
      if now - sr_lastTick t < SlowReportTask_kPeriodUs then (t, f, lm)
      else
        let t = t\<lparr>sr_lastTick := now, sr_reportCount := sr_reportCount t + 1\<rparr>;
            (accum, f) = drainAccumulator f;
            samples = fs_sampleCount f;
            sb = append_text ''Report #'' (sb_clear (sr_builder t));
            sb = append_u32 (sr_reportCount t) sb;
            sb = append_u32 samples (append_text '' | samples='' sb);
            sb = append_u32 (ucast (accum AND 0xFFFFFFFF)) (append_text '' accum='' sb) in
        (t\<lparr>sr_builder := sb\<rparr>, f, task_log mx SYSTEM sb STATUS now lm))"

record IdleCounterTask =
  ic_builder :: LightweightStringBuilder
  ic_dispatchCount :: u32
  ic_lastLogCount :: u32

definition kLogInterval :: u32 where "kLogInterval = 500"

definition IdleCounterTask_new :: IdleCounterTask where
  "IdleCounterTask_new = \<lparr>ic_builder = sb_init, ic_dispatchCount = 0, ic_lastLogCount = 0\<rparr>"

definition IdleCounterTask_init :: "IdleCounterTask \<Rightarrow> IdleCounterTask" where
  "IdleCounterTask_init t = t\<lparr>ic_dispatchCount := 0, ic_lastLogCount := 0\<rparr>"

definition IdleCounterTask_tick ::
    "'m mutex_fns \<Rightarrow> micros \<Rightarrow> IdleCounterTask \<times> 'm telemetry \<Rightarrow> IdleCounterTask \<times> 'm telemetry" where
  "IdleCounterTask_tick mx now tlm =
     (let (t, lm) = tlm; t = t\<lparr>ic_dispatchCount := ic_dispatchCount t + 1\<rparr> in
      if ic_dispatchCount t - ic_lastLogCount t \<ge> kLogInterval then
        let t = t\<lparr>ic_lastLogCount := ic_dispatchCount t\<rparr>;
            sb = append_u32 (ic_dispatchCount t) (append_text ''Background dispatches: '' (sb_clear (ic_builder t))) in
        (t\<lparr>ic_builder := sb\<rparr>, task_log mx SYSTEM sb INFO now lm)
      else (t, lm))"

section \<open>Tasks that limit their own rate\<close>

text \<open>The times at which a task that works once per \<open>period\<close> does so; \<open>l\<close> is the time of its last activation.\<close>

fun paced :: "micros \<Rightarrow> micros \<Rightarrow> micros list \<Rightarrow> micros list" where
  "paced period l [] = []"
| "paced period l (t # ts) = (if t - l < period then paced period l ts else t # paced period t ts)"

lemma paced_spaced: "successively (\<lambda>a b. period \<le> b - a) (l # paced period l ts)"
  by (induction period l ts rule: paced.induct) (auto simp: not_less successively_Cons)

text \<open>
  A paced task leaves everything as it is until a period has passed since its last activation; then it stamps the
  activation, counts it and acts on its surroundings as \<open>emit\<close> says for that number and time.
\<close>

locale paced_task =
  fixes ok :: "'t \<Rightarrow> bool" and last :: "'t \<Rightarrow> micros" and count :: "'t \<Rightarrow> u32" and period :: micros
    and tick :: "micros \<Rightarrow> 't \<times> 'e \<Rightarrow> 't \<times> 'e" and emit :: "u32 \<Rightarrow> micros \<Rightarrow> 'e \<Rightarrow> 'e"
  assumes idle: "now - last t < period \<Longrightarrow> tick now (t, e) = (t, e)"
    and busy: "ok t \<Longrightarrow> period \<le> now - last t \<Longrightarrow>
      \<exists>t'. tick now (t, e) = (t', emit (count t + 1) now e) \<and> ok t' \<and> last t' = now \<and> count t' = count t + 1"
begin

definition emits :: "u32 \<Rightarrow> micros list \<Rightarrow> 'e \<Rightarrow> 'e" where
  "emits n ts e = snd (fold (\<lambda>now (n, e). (n + 1, emit (n + 1) now e)) ts (n, e))"

lemma emits_simps: "emits n [] e = e" "emits n (t # ts) e = emits (n + 1) ts (emit (n + 1) t e)"
  by (simp_all add: emits_def)

lemma ticks_paced:
  assumes "ok t"
  shows "\<exists>t'. fold tick ts (t, e) = (t', emits (count t) (paced period (last t) ts) e) \<and> ok t' \<and>
    count t' = count t + of_nat (length (paced period (last t) ts))"
  using assms
proof (induction ts arbitrary: t e)
  case (Cons now ts)
  show ?case
  proof (cases "now - last t < period")
    case True
    then show ?thesis using Cons idle by simp
  next
    case False
    then have "period \<le> now - last t" by simp
    from busy [OF Cons.prems this, of e] obtain t' where t': "tick now (t, e) = (t', emit (count t + 1) now e)"
        "ok t'" "last t' = now" "count t' = count t + 1" by blast
    from Cons.IH [OF t'(2), of "emit (count t + 1) now e"] show ?thesis
      using t' False by (auto simp: emits_simps ac_simps)
  qed
qed (simp add: emits_simps)

end

section \<open>What the builder holds when a task logs it\<close>

lemma c_string_sb:
  assumes "sb_ok sb" "0 \<notin> set (sb_str sb)"
  shows "c_string (sb_buf sb) = sb_str sb"
proof -
  have "sb_buf sb = sb_str sb @ 0 # drop (Suc (sb_len sb)) (sb_buf sb)"
    using assms(1) id_take_nth_drop [of "sb_len sb" "sb_buf sb"] by (simp add: sb_ok_def sb_str_def)
  then have "c_string (sb_buf sb) = c_string (sb_str sb @ 0 # drop (Suc (sb_len sb)) (sb_buf sb))" by simp
  also have "\<dots> = sb_str sb" unfolding c_string_def using assms(2) by (subst takeWhile_append2) auto
  finally show ?thesis .
qed

text \<open>The builder holds exactly the text \<open>cs\<close>, of at most \<open>n\<close> characters: nothing has been cut off.\<close>

definition holds :: "nat \<Rightarrow> byte list \<Rightarrow> LightweightStringBuilder \<Rightarrow> bool" where
  "holds n cs sb \<longleftrightarrow> sb_ok sb \<and> sb_str sb = cs \<and> 0 \<notin> set cs \<and> length cs \<le> n"

lemma holds_extends:
  assumes "holds n cs sb" "extends ds sb sb'" "0 \<notin> set ds" "length ds \<le> m" "n + m < kCapacity_sb"
  shows "holds (n + m) (cs @ ds) sb'"
proof -
  have "length (cs @ ds) \<le> kCapacity_sb - 1" using assms by (simp add: holds_def kCapacity_sb_def)
  then have "take (kCapacity_sb - 1) (cs @ ds) = cs @ ds" by (rule take_all)
  then show ?thesis using assms by (simp add: holds_def extends_def del: take_append)
qed

lemma holds_clear: "sb_ok sb \<Longrightarrow> holds 0 [] (sb_clear sb)"
  by (simp add: holds_def sb_ok_clear)

lemma holds_text:
  assumes "holds n cs sb" "0 \<notin> set (str s)" "n + length s < kCapacity_sb"
  shows "holds (n + length s) (cs @ str s) (append_text s sb)"
proof (rule holds_extends [OF assms(1) _ assms(2) _ assms(3)])
  show "extends (str s) sb (append_text s sb)"
    using assms(1) by (simp add: append_text_def extends_str holds_def)
qed (simp add: str_def)

lemma digits_nonzero: "0 \<notin> set (renderU32 16 v)"
  using renderU32_digits [of v] by (auto simp: list_all_iff is_digit_def)

lemma holds_u32:
  assumes "holds n cs sb" "n + 10 < kCapacity_sb"
  shows "holds (n + 10) (cs @ renderU32 16 v) (append_u32 v sb)"
  using assms(1) by (intro holds_extends [OF assms(1) _ digits_nonzero renderU32_length assms(2)])
    (simp add: extends_u32 holds_def)

lemma holds_logged: "holds n cs sb \<Longrightarrow> sb_ok sb \<and> c_string (sb_buf sb) = cs"
  using c_string_sb [of sb] by (auto simp: holds_def)

lemmas holds_intros = holds_u32 holds_text holds_clear

text \<open>A text followed by a number, in a cleared builder.\<close>

lemma text_number:
  assumes "sb_ok sb" "length s \<le> 100" "0 \<notin> set (str s)"
  shows "sb_ok (append_u32 v (append_text s (sb_clear sb))) \<and>
    c_string (sb_buf (append_u32 v (append_text s (sb_clear sb)))) = str s @ renderU32 16 v"
proof -
  have "holds (0 + length s + 10) (([] @ str s) @ renderU32 16 v) (append_u32 v (append_text s (sb_clear sb)))"
    using assms by (intro holds_intros) (simp_all add: kCapacity_sb_def)
  then show ?thesis using holds_logged by force
qed

section \<open>The example tasks are paced tasks\<close>

definition log_line :: "'m mutex_fns \<Rightarrow> TaskID \<Rightarrow> cstr \<Rightarrow> micros \<Rightarrow> 'm telemetry \<Rightarrow> 'm telemetry" where
  "log_line mx task text now = TelemetryLogger_log (fst mx) (snd mx) task text STATUS now"

interpretation pulse: paced_task "\<lambda>t. sb_ok (pu_builder t)" pu_lastPulse pu_pulseCount kPulseIntervalUs
    "PulseTask_tick mx" "\<lambda>n. log_line mx SYSTEM (str ''Pulse #'' @ renderU32 16 n)"
  by unfold_locales
    (auto simp: PulseTask_tick_def Let_def task_log_def log_line_def text_number str_def)

interpretation worker: paced_task "\<lambda>t. sb_ok (wk_builder t)" wk_lastTick wk_iterCount WorkerTask_kPeriodUs
    "WorkerTask_tick mx" "\<lambda>n. log_line mx CONTROL (str ''[Core 0] Worker tick #'' @ renderU32 16 n)"
  by unfold_locales
    (auto simp: WorkerTask_tick_def Let_def task_log_def log_line_def text_number str_def)

lemma stateName_text: "length (stateName state) \<le> 13 \<and> 0 \<notin> set (str (stateName state))"
  by (cases state) (simp_all add: stateName_def str_def)

lemma monitor_text:
  assumes "sb_ok sb"
  shows "sb_ok (append_text (stateName state) (append_text '': '' (append_u32 v
      (append_text ''[Core 1] State report #'' (sb_clear sb))))) \<and>
    c_string (sb_buf (append_text (stateName state) (append_text '': '' (append_u32 v
      (append_text ''[Core 1] State report #'' (sb_clear sb)))))) =
    str ''[Core 1] State report #'' @ renderU32 16 v @ str '': '' @ str (stateName state)"
proof -
  have "holds (0 + length ''[Core 1] State report #'' + 10 + length '': '' + length (stateName state))
      (((([] @ str ''[Core 1] State report #'') @ renderU32 16 v) @ str '': '') @ str (stateName state))
      (append_text (stateName state) (append_text '': '' (append_u32 v
        (append_text ''[Core 1] State report #'' (sb_clear sb)))))"
    using assms stateName_text [of state] by (intro holds_intros) (simp_all add: kCapacity_sb_def str_def)
  then show ?thesis using holds_logged by force
qed

interpretation monitor: paced_task "\<lambda>t. sb_ok (mo_builder t)" mo_lastTick mo_reportCount MonitorTask_kPeriodUs
    "MonitorTask_tick mx state"
    "\<lambda>n. log_line mx COMMS (str ''[Core 1] State report #'' @ renderU32 16 n @ str '': '' @ str (stateName state))"
  by unfold_locales
    (auto simp: MonitorTask_tick_def Let_def task_log_def log_line_def monitor_text)

text \<open>The sampler has no surroundings; the slow reporter's are the sampler and the logger.\<close>

interpretation sampler: paced_task "\<lambda>t. True" fs_lastTick fs_sampleCount FastSampleTask_kPeriodUs
    "\<lambda>now (t, ()). (FastSampleTask_tick now t, ())" "\<lambda>n now e. e"
  by unfold_locales (auto simp: FastSampleTask_tick_def Let_def)

definition report_text :: "u32 \<Rightarrow> FastSampleTask \<Rightarrow> cstr" where
  "report_text n f = str ''Report #'' @ renderU32 16 n @ str '' | samples='' @ renderU32 16 (fs_sampleCount f) @
     str '' accum='' @ renderU32 16 (ucast (fs_accumulator f AND 0xFFFFFFFF))"

lemma holds_report:
  assumes "sb_ok sb"
  shows "holds 63 (str ''Report #'' @ renderU32 16 n @ str '' | samples='' @ renderU32 16 v @ str '' accum='' @ renderU32 16 w)
    (append_u32 w (append_text '' accum='' (append_u32 v (append_text '' | samples=''
      (append_u32 n (append_text ''Report #'' (sb_clear sb)))))))"
proof -
  have "holds (0 + length ''Report #'' + 10 + length '' | samples='' + 10 + length '' accum='' + 10)
      (((((([] @ str ''Report #'') @ renderU32 16 n) @ str '' | samples='') @ renderU32 16 v) @ str '' accum='') @ renderU32 16 w)
      (append_u32 w (append_text '' accum='' (append_u32 v (append_text '' | samples=''
        (append_u32 n (append_text ''Report #'' (sb_clear sb)))))))"
    using assms by (intro holds_intros) (simp_all add: kCapacity_sb_def str_def)
  then show ?thesis by (simp add: holds_def)
qed

interpretation reporter: paced_task "\<lambda>t. sb_ok (sr_builder t)" sr_lastTick sr_reportCount SlowReportTask_kPeriodUs
    "SlowReportTask_tick mx"
    "\<lambda>n now (f, lm). (f\<lparr>fs_accumulator := 0\<rparr>, log_line mx SYSTEM (report_text n f) now lm)"
  by unfold_locales
    (auto simp: SlowReportTask_tick_def Let_def task_log_def log_line_def drainAccumulator_def report_text_def
      holds_logged [OF holds_report])


text \<open>A mutex that is always free, for the witnesses.\<close>

definition example_mutex :: "unit mutex_fns" where
  "example_mutex = (\<lambda>timeout m. (True, m), \<lambda>m. m)"

section \<open>The heartbeat\<close>

text \<open>The lines a pulse task logs at its working times, numbered from the count it starts with.\<close>

fun pulse_lines :: "'m mutex_fns \<Rightarrow> u32 \<Rightarrow> micros list \<Rightarrow> 'm telemetry \<Rightarrow> 'm telemetry" where
  "pulse_lines mx n [] lm = lm"
| "pulse_lines mx n (t # ts) lm =
     pulse_lines mx (n + 1) ts (log_line mx SYSTEM (str ''Pulse #'' @ renderU32 16 (n + 1)) t lm)"

lemma pulse_emits: "pulse.emits mx n ts lm = pulse_lines mx n ts lm"
  by (induction ts arbitrary: n lm) (simp_all add: pulse.emits_simps)

text \<open>From its initialisation, whatever the times it is dispatched at, a pulse task writes to the telemetry log exactly
  one line \<^verbatim>\<open>Pulse #n\<close> per working time, with consecutive numbers from 1 on and stamped with that time;
  consecutive working times are at least the interval apart, the clock's wrap-around included, and a dispatch that
  is not a working time leaves the log and its mutex alone.\<close>

theorem pulse_log:
  assumes "sb_ok (pu_builder t)"
  shows "snd (fold (PulseTask_tick mx) nows (PulseTask_init t, lm)) =
      pulse_lines mx 0 (paced kPulseIntervalUs 0 nows) lm \<and>
    pu_pulseCount (fst (fold (PulseTask_tick mx) nows (PulseTask_init t, lm))) =
      of_nat (length (paced kPulseIntervalUs 0 nows)) \<and>
    successively (\<lambda>a b. kPulseIntervalUs \<le> b - a) (0 # paced kPulseIntervalUs 0 nows)"
  using pulse.ticks_paced [of "PulseTask_init t" mx nows lm] assms paced_spaced [of kPulseIntervalUs 0 nows]
  by (auto simp: PulseTask_init_def pulse_emits)

theorem pulse_log_witness:
  "snd (fold (PulseTask_tick example_mutex) [10, 500000, 600000, 1000000] (PulseTask_init PulseTask_new, (TelemetryLogger_init True, ()))) =
     pulse_lines example_mutex 0 [500000, 1000000] (TelemetryLogger_init True, ())"
proof -
  have "paced kPulseIntervalUs 0 [10, 500000, 600000, 1000000] = [500000, 1000000]" by code_simp
  moreover have "sb_ok (pu_builder PulseTask_new)" by (simp add: PulseTask_new_def sb_ok_init)
  ultimately show ?thesis
    using pulse_log [of PulseTask_new example_mutex "[10, 500000, 600000, 1000000]" "(TelemetryLogger_init True, ())"] by simp
qed

section \<open>No sample is lost between the sampler and the reports\<close>

text \<open>One dispatch of either of the two tasks that share the sampler, on the single core of the project.\<close>

datatype multirate_dispatch = Fast micros | Slow micros

definition multirate_step :: "'m mutex_fns \<Rightarrow> multirate_dispatch \<Rightarrow>
    SlowReportTask \<times> FastSampleTask \<times> 'm telemetry \<Rightarrow> SlowReportTask \<times> FastSampleTask \<times> 'm telemetry" where
  "multirate_step mx d s = (case d of
     Fast now \<Rightarrow> (case s of (t, f, lm) \<Rightarrow> (t, FastSampleTask_tick now f, lm))
   | Slow now \<Rightarrow> SlowReportTask_tick mx now s)"

text \<open>What a dispatch takes out of the accumulator.\<close>

definition drained :: "multirate_dispatch \<Rightarrow> SlowReportTask \<times> FastSampleTask \<times> 'm telemetry \<Rightarrow> u64" where
  "drained d s = (case (d, s) of
     (Slow now, t, f, lm) \<Rightarrow> (if now - sr_lastTick t < SlowReportTask_kPeriodUs then 0 else fs_accumulator f)
   | _ \<Rightarrow> 0)"

fun multirate_run :: "'m mutex_fns \<Rightarrow> multirate_dispatch list \<Rightarrow> u64 \<times> SlowReportTask \<times> FastSampleTask \<times> 'm telemetry \<Rightarrow>
    u64 \<times> SlowReportTask \<times> FastSampleTask \<times> 'm telemetry" where
  "multirate_run mx [] us = us"
| "multirate_run mx (d # ds) (u, s) = multirate_run mx ds (u + drained d s, multirate_step mx d s)"

text \<open>The sum of the first \<open>n\<close> simulated readings.\<close>

definition readings :: "nat \<Rightarrow> u64" where
  "readings n = of_nat (\<Sum>i<n. i mod 100)"

definition conserved :: "u64 \<times> SlowReportTask \<times> FastSampleTask \<times> 'm telemetry \<Rightarrow> bool" where
  "conserved us = (case us of (u, t, f, lm) \<Rightarrow> u + fs_accumulator f = readings (unat (fs_sampleCount f)))"

lemma readings_Suc: "readings (Suc n) = readings n + of_nat (n mod 100)"
  by (simp add: readings_def)

lemma unat_succ: "Suc (unat v) < 2 ^ 32 \<Longrightarrow> unat (v + 1 :: u32) = Suc (unat v)"
  by (simp add: unat_word_ariths)

lemma conserved_step:
  assumes "conserved (u, s)" "Suc (unat (fs_sampleCount (fst (snd s)))) < 2 ^ 32"
  shows "conserved (u + drained d s, multirate_step mx d s)"
proof (cases d)
  case (Fast now)
  obtain t f lm where s: "s = (t, f, lm)" by (cases s)
  have "unat (fs_sampleCount f + 1) = Suc (unat (fs_sampleCount f))"
    using assms(2) s by (intro unat_succ) simp
  moreover have "(ucast (fs_sampleCount f mod 100) :: u64) = of_nat (unat (fs_sampleCount f) mod 100)"
    using of_nat_unat [of "fs_sampleCount f mod 100", where 'a = "64 word"] by (simp add: unat_mod del: of_nat_unat)
  ultimately show ?thesis
    using assms(1) s Fast
    by (simp add: multirate_step_def drained_def conserved_def FastSampleTask_tick_def Let_def readings_Suc ac_simps)
next
  case (Slow now)
  then show ?thesis using assms(1)
    by (cases s) (auto simp: multirate_step_def drained_def conserved_def SlowReportTask_tick_def Let_def drainAccumulator_def)
qed

lemma sampleCount_step:
  assumes "unat (fs_sampleCount (fst (snd s))) + Suc n < 2 ^ 32"
  shows "unat (fs_sampleCount (fst (snd (multirate_step mx d s)))) + n < 2 ^ 32"
proof (cases d)
  case (Fast now)
  then show ?thesis using assms unat_succ [of "fs_sampleCount (fst (snd s))"]
    by (cases s) (simp add: multirate_step_def FastSampleTask_tick_def Let_def)
next
  case (Slow now)
  then show ?thesis using assms
    by (cases s) (simp add: multirate_step_def SlowReportTask_tick_def Let_def drainAccumulator_def)
qed

text \<open>Whatever the order and the times in which the scheduler dispatches the two tasks of the multirate project, no
  sample is lost or counted twice: what the reports have taken out of the accumulator and what is still in it add
  up to the sum of all readings taken.\<close>

theorem multirate_conserved:
  assumes "length ds < 2 ^ 32"
  shows "conserved (multirate_run mx ds (0, SlowReportTask_init t, FastSampleTask_init f, lm))"
proof -
  have "conserved (multirate_run mx ds us)"
    if "conserved us" "unat (fs_sampleCount (fst (snd (snd us)))) + length ds < 2 ^ 32" for us
    using that
  proof (induction mx ds us rule: multirate_run.induct)
    case (2 mx d ds u s)
    show ?case using 2(1) [OF conserved_step [OF 2(2)] ] sampleCount_step [of s "length ds" mx d] 2(3)
      by (simp add: numeral_2_eq_2)
  qed simp
  then show ?thesis using assms by (simp add: conserved_def FastSampleTask_init_def readings_def)
qed

theorem multirate_conserved_witness:
  "conserved (multirate_run example_mutex [Fast 10000, Fast 20000, Slow 500000, Fast 500000]
     (0, SlowReportTask_init SlowReportTask_new, FastSampleTask_init FastSampleTask_new, (TelemetryLogger_init False, ())))"
  by (rule multirate_conserved) simp

section \<open>The other two tasks\<close>

text \<open>The idle counter reports every 500th dispatch.\<close>

lemma idle_counter:
  assumes "ic_dispatchCount t - ic_lastLogCount t < kLogInterval" "IdleCounterTask_tick mx now (t, lm) = (t', lm')"
  shows "ic_dispatchCount t' = ic_dispatchCount t + 1 \<and> ic_dispatchCount t' - ic_lastLogCount t' < kLogInterval \<and>
    (ic_dispatchCount t - ic_lastLogCount t \<noteq> 499 \<longrightarrow> lm' = lm \<and> ic_lastLogCount t' = ic_lastLogCount t) \<and>
    (ic_dispatchCount t - ic_lastLogCount t = 499 \<longrightarrow> ic_lastLogCount t' = ic_dispatchCount t')"
proof -
  let ?x = "ic_dispatchCount t - ic_lastLogCount t"
  have eq: "ic_dispatchCount t + 1 - ic_lastLogCount t = ?x + 1" by simp
  have "unat ?x < 500" using assms(1) by (simp add: kLogInterval_def word_less_nat_alt)
  then have "unat (?x + 1) = Suc (unat ?x)" by (intro unat_succ) simp
  then have "?x + 1 \<ge> kLogInterval \<longleftrightarrow> ?x = 499"
    using \<open>unat ?x < 500\<close> by (auto simp: kLogInterval_def word_le_nat_alt word_unat_eq_iff)
  then show ?thesis using assms(2)
    by (auto simp: IdleCounterTask_tick_def Let_def eq not_le kLogInterval_def split: if_splits)
qed

text \<open>Suspending and resuming report the iteration the worker is at and change neither count nor pace.\<close>

lemma worker_report_text:
  assumes "sb_ok (wk_builder t)" "length text \<le> 100" "0 \<notin> set (str text)"
  shows "\<exists>sb. sb_ok sb \<and> worker_report text mx (t, lm) =
      (t\<lparr>wk_builder := sb\<rparr>, log_line mx CONTROL (str text @ renderU32 16 (wk_iterCount t)) 0 lm)"
  using text_number [OF assms, of "wk_iterCount t"]
  by (intro exI [of _ "append_u32 (wk_iterCount t) (append_text text (sb_clear (wk_builder t)))"])
    (simp add: worker_report_def task_log_def log_line_def)

lemma worker_reports:
  assumes "sb_ok (wk_builder t)"
  shows "\<exists>sb. sb_ok sb \<and> WorkerTask_onSuspend mx (t, lm) =
      (t\<lparr>wk_builder := sb\<rparr>, log_line mx CONTROL (str ''[Core 0] Worker SUSPENDED at tick #'' @ renderU32 16 (wk_iterCount t)) 0 lm)"
    and "\<exists>sb. sb_ok sb \<and> WorkerTask_onResume mx (t, lm) =
      (t\<lparr>wk_builder := sb\<rparr>, log_line mx CONTROL (str ''[Core 0] Worker RESUMED at tick #'' @ renderU32 16 (wk_iterCount t)) 0 lm)"
  unfolding WorkerTask_onSuspend_def WorkerTask_onResume_def
  by (rule worker_report_text [OF assms]; simp add: str_def)+

end
