(* ===== verification/SensorPoll.thy ===== *)
theory SensorPoll
  imports HostTasks CommsTask
begin

text \<open>
  The example project \<^verbatim>\<open>sensorpoll\<close>: the simulated converter of \<^verbatim>\<open>hal_impl/SensorPollHAL.h\<close>, the
  scheduled task that polls it without blocking (\<^verbatim>\<open>AdcPollTask\<close>) and the background task that reports its
  progress (\<^verbatim>\<open>SensorLogTask\<close>).

  The platform's clock is the parameter \<open>getTime\<close>, as in the kernel: it takes the world and returns a reading. The
  converter reads the clock itself; the time a task logs is the scheduler's argument of \<^verbatim>\<open>tick\<close>.

  The lemmas give the poll protocol as an invariant: a conversion is polled at most eleven times, the readings are
  the converter's sawtooth in order, and once started the task converts without a break until a poll times out.
\<close>

section \<open>SimulatedADC\<close>

record SimulatedADC =
  ad_conversionDelayUs :: micros
  ad_conversionStartTime :: micros
  ad_conversionInFlight :: bool
  ad_nextValue :: u32

definition SimulatedADC_new :: "micros \<Rightarrow> SimulatedADC" where
  "SimulatedADC_new conversionDelayUs = \<lparr>ad_conversionDelayUs = conversionDelayUs, ad_conversionStartTime = 0,
     ad_conversionInFlight = False, ad_nextValue = 0\<rparr>"

definition startConversion :: "'w clock \<Rightarrow> SimulatedADC \<times> 'w \<Rightarrow> SimulatedADC \<times> 'w" where
  "startConversion getTime aw =
     (let (a, w) = aw; (now, w) = getTime w in (a\<lparr>ad_conversionStartTime := now, ad_conversionInFlight := True\<rparr>, w))"

definition isConversionReady :: "'w clock \<Rightarrow> SimulatedADC \<times> 'w \<Rightarrow> bool \<times> 'w" where
  "isConversionReady getTime aw =
     (let (a, w) = aw in
      if \<not> ad_conversionInFlight a then (False, w)
      else let (now, w) = getTime w in (now - ad_conversionStartTime a \<ge> ad_conversionDelayUs a, w))"

definition readResult :: "SimulatedADC \<Rightarrow> f32 \<times> SimulatedADC" where
  "readResult a =
     (let a = a\<lparr>ad_conversionInFlight := False\<rparr>; val = f32_of_u32 (ad_nextValue a) in
      (val, a\<lparr>ad_nextValue := (ad_nextValue a + 37) mod 1000\<rparr>))"

section \<open>AdcPollTask\<close>

record AdcPollTask =
  ap_builder :: LightweightStringBuilder
  ap_waitingForAdc :: bool
  ap_ioWaitCount :: u32
  ap_readingCount :: u32
  ap_lastReading :: f32
  ap_lastTick :: micros

definition AdcPollTask_kPeriodUs :: micros where "AdcPollTask_kPeriodUs = 50000"
definition kMaxIoRetries :: u32 where "kMaxIoRetries = 10"

definition AdcPollTask_new :: AdcPollTask where
  "AdcPollTask_new = \<lparr>ap_builder = sb_init, ap_waitingForAdc = False, ap_ioWaitCount = 0, ap_readingCount = 0,
     ap_lastReading = f32_zero False, ap_lastTick = 0\<rparr>"

definition AdcPollTask_init :: "AdcPollTask \<Rightarrow> AdcPollTask" where
  "AdcPollTask_init t = t\<lparr>ap_waitingForAdc := False, ap_ioWaitCount := 0, ap_readingCount := 0,
     ap_lastReading := f32_zero False, ap_lastTick := 0\<rparr>"

definition isIoPending :: "AdcPollTask \<Rightarrow> bool" where
  "isIoPending t = ap_waitingForAdc t"

text \<open>The task with the converter and the logger it refers to; the clock and the logger's mutex act on the same world.\<close>

type_synonym 'w adc_state = "AdcPollTask \<times> SimulatedADC \<times> 'w telemetry"

definition adc_read :: "'w mutex_fns \<Rightarrow> micros \<Rightarrow> 'w adc_state \<Rightarrow> 'w adc_state" where
  "adc_read mx now s =
     (let (t, a, lm) = s; (val, a) = readResult a;
          t = t\<lparr>ap_lastReading := val, ap_readingCount := ap_readingCount t + 1, ap_waitingForAdc := False,
                ap_ioWaitCount := 0\<rparr>;
          sb = append_u32 (ap_readingCount t) (append_text ''ADC #'' (sb_clear (ap_builder t)));
          sb = append_text '' mV'' (append_f32 (ap_lastReading t) 3 (append_text '' = '' sb)) in
      (t\<lparr>ap_builder := sb\<rparr>, a, task_log mx CONTROL sb STATUS now lm))"

definition adc_not_ready :: "'w mutex_fns \<Rightarrow> micros \<Rightarrow> 'w adc_state \<Rightarrow> 'w adc_state" where
  "adc_not_ready mx now s =
     (let (t, a, lm) = s; t = t\<lparr>ap_ioWaitCount := ap_ioWaitCount t + 1\<rparr> in
      if ap_ioWaitCount t > kMaxIoRetries then
        let sb = append_u32 (ap_ioWaitCount t) (append_text ''ADC TIMEOUT after '' (sb_clear (ap_builder t)));
            sb = append_text '' polls'' sb in
        (t\<lparr>ap_builder := sb, ap_waitingForAdc := False, ap_ioWaitCount := 0\<rparr>, a,
         task_log mx CONTROL sb CRITICAL now lm)
      else (t, a, lm))"

definition adc_start :: "'w clock \<Rightarrow> 'w adc_state \<Rightarrow> 'w adc_state" where
  "adc_start getTime s =
     (let (t, a, l, w) = s; (a, w) = startConversion getTime (a, w) in (t\<lparr>ap_waitingForAdc := True\<rparr>, a, l, w))"

definition AdcPollTask_tick :: "'w mutex_fns \<Rightarrow> 'w clock \<Rightarrow> micros \<Rightarrow> 'w adc_state \<Rightarrow> 'w adc_state" where
  "AdcPollTask_tick mx getTime now s =
     (let (t, a, l, w) = s in
      if \<not> ap_waitingForAdc t then
        if now - ap_lastTick t < AdcPollTask_kPeriodUs then (t, a, l, w)
        else adc_start getTime (t\<lparr>ap_lastTick := now\<rparr>, a, l, w)
      else
        let (ready, w) = isConversionReady getTime (a, w) in
        if ready then adc_start getTime (adc_read mx now (t, a, l, w))
        else adc_not_ready mx now (t, a, l, w))"

section \<open>SensorLogTask\<close>

record SensorLogTask =
  sl_builder :: LightweightStringBuilder
  sl_lastReported :: u32

definition kLogThreshold :: u32 where "kLogThreshold = 5"

definition SensorLogTask_new :: SensorLogTask where
  "SensorLogTask_new = \<lparr>sl_builder = sb_init, sl_lastReported = 0\<rparr>"

definition SensorLogTask_init :: "SensorLogTask \<Rightarrow> SensorLogTask" where
  "SensorLogTask_init t = t\<lparr>sl_lastReported := 0\<rparr>"

definition SensorLogTask_tick ::
    "'m mutex_fns \<Rightarrow> AdcPollTask \<Rightarrow> micros \<Rightarrow> SensorLogTask \<times> 'm telemetry \<Rightarrow> SensorLogTask \<times> 'm telemetry" where
  "SensorLogTask_tick mx poller now tlm =
     (let (t, lm) = tlm; current = ap_readingCount poller in
      if current > sl_lastReported t \<and> current - sl_lastReported t \<ge> kLogThreshold then
        let t = t\<lparr>sl_lastReported := current\<rparr>;
            sb = append_u32 current (append_text ''Sensor log: '' (sb_clear (sl_builder t)));
            sb = append_f32 (ap_lastReading poller) 3 (append_text '' readings, last='' sb);
            sb = append_text '' mV'' sb in
        (t\<lparr>sl_builder := sb\<rparr>, task_log mx SYSTEM sb STATUS now lm)
      else (t, lm))"

section \<open>The poll protocol\<close>

text \<open>The value the converter returns at its \<open>n\<close>-th reading.\<close>

definition sawtooth :: "nat \<Rightarrow> u32" where
  "sawtooth n = of_nat (37 * n mod 1000)"

lemma sawtooth_Suc: "(sawtooth n + 37) mod 1000 = sawtooth (Suc n)"
proof -
  have "unat (sawtooth n) = 37 * n mod 1000" by (simp add: sawtooth_def unat_of_nat)
  then have "unat ((sawtooth n + 37) mod 1000) = 37 * Suc n mod 1000"
    using mod_add_left_eq [of "37 * n" 1000 37] by (simp add: unat_mod unat_word_ariths add.commute [of 37])
  then show ?thesis by (metis of_nat_unat sawtooth_def ucast_id)
qed

text \<open>
  The messages of a reading and of a timeout, and what the clock decides: a tick that reads, one that gives up.
\<close>

definition adc_text :: "u32 \<Rightarrow> f32 \<Rightarrow> cstr" where
  "adc_text n v = str ''ADC #'' @ renderU32 16 n @ str '' = '' @ f32_text v 3 @ str '' mV''"

definition timeout_text :: "u32 \<Rightarrow> cstr" where
  "timeout_text n = str ''ADC TIMEOUT after '' @ renderU32 16 n @ str '' polls''"

definition adc_inv :: "'w adc_state \<Rightarrow> bool" where
  "adc_inv s = (case s of (t, a, lm) \<Rightarrow>
     sb_ok (ap_builder t) \<and> ap_ioWaitCount t \<le> kMaxIoRetries \<and>
     (ap_waitingForAdc t \<longrightarrow> ad_conversionInFlight a) \<and> (\<not> ap_waitingForAdc t \<longrightarrow> ap_ioWaitCount t = 0))"

lemma f32_text_nonzero: "0 \<notin> set (f32_text v d)"
  using digits_nonzero by (auto simp: f32_text_def Let_def)

lemma holds_f32:
  assumes "holds n cs sb" "n + 24 < kCapacity_sb"
  shows "holds (n + 24) (cs @ f32_text v 3) (append_f32 v 3 sb)"
  using assms(1) by (intro holds_extends [OF assms(1) _ f32_text_nonzero length_f32_text_3 assms(2)])
    (simp add: extends_f32 holds_def)

lemma holds_reading:
  assumes "sb_ok sb"
  shows "holds 45 (adc_text n v) (append_text '' mV'' (append_f32 v 3 (append_text '' = ''
    (append_u32 n (append_text ''ADC #'' (sb_clear sb))))))"
proof -
  have "holds (0 + length ''ADC #'' + 10 + length '' = '' + 24 + length '' mV'')
      ((((([] @ str ''ADC #'') @ renderU32 16 n) @ str '' = '') @ f32_text v 3) @ str '' mV'')
      (append_text '' mV'' (append_f32 v 3 (append_text '' = '' (append_u32 n (append_text ''ADC #'' (sb_clear sb))))))"
    using assms by (intro holds_intros holds_f32) (simp_all add: kCapacity_sb_def str_def)
  then show ?thesis by (simp add: holds_def adc_text_def)
qed

lemma holds_timeout:
  assumes "sb_ok sb"
  shows "holds 34 (timeout_text n) (append_text '' polls'' (append_u32 n (append_text ''ADC TIMEOUT after '' (sb_clear sb))))"
proof -
  have "holds (0 + length ''ADC TIMEOUT after '' + 10 + length '' polls'')
      ((([] @ str ''ADC TIMEOUT after '') @ renderU32 16 n) @ str '' polls'')
      (append_text '' polls'' (append_u32 n (append_text ''ADC TIMEOUT after '' (sb_clear sb))))"
    using assms by (intro holds_intros) (simp_all add: kCapacity_sb_def str_def)
  then show ?thesis by (simp add: holds_def timeout_text_def)
qed

text \<open>The three outcomes of a tick that finds a conversion in flight.\<close>

lemma log_put: "fst (TelemetryLogger_log lock unlock task text level now lm) = TelemetryLogger_put task text level now (fst lm)"
  by (simp add: TelemetryLogger_log_def Let_def split: prod.split)

lemma tick_read:
  assumes "sb_ok (ap_builder t)" "ap_waitingForAdc t" "ad_conversionInFlight a"
    and "ad_conversionDelayUs a \<le> fst (getTime w) - ad_conversionStartTime a"
  shows "\<exists>t' a' w'. AdcPollTask_tick mx getTime now (t, a, l, w) = (t', a',
      TelemetryLogger_put CONTROL (adc_text (ap_readingCount t + 1) (f32_of_u32 (ad_nextValue a))) STATUS now l, w') \<and>
    sb_ok (ap_builder t') \<and> ap_waitingForAdc t' \<and> ap_ioWaitCount t' = 0 \<and> ap_readingCount t' = ap_readingCount t + 1 \<and>
    ap_lastReading t' = f32_of_u32 (ad_nextValue a) \<and> ad_conversionInFlight a' \<and>
    ad_nextValue a' = (ad_nextValue a + 37) mod 1000"
  using assms by (simp add: AdcPollTask_tick_def isConversionReady_def adc_read_def adc_start_def readResult_def
      startConversion_def task_log_def log_put Let_def holds_logged [OF holds_reading] case_prod_unfold)

lemma tick_waits:
  assumes "ap_waitingForAdc t" "ad_conversionInFlight a"
    and "fst (getTime w) - ad_conversionStartTime a < ad_conversionDelayUs a" "ap_ioWaitCount t + 1 \<le> kMaxIoRetries"
  shows "AdcPollTask_tick mx getTime now (t, a, l, w) =
    (t\<lparr>ap_ioWaitCount := ap_ioWaitCount t + 1\<rparr>, a, l, snd (getTime w))"
  using assms by (simp add: AdcPollTask_tick_def isConversionReady_def adc_not_ready_def Let_def leD case_prod_unfold
      not_le [symmetric])

lemma tick_gives_up:
  assumes "sb_ok (ap_builder t)" "ap_waitingForAdc t" "ad_conversionInFlight a"
    and "fst (getTime w) - ad_conversionStartTime a < ad_conversionDelayUs a" "kMaxIoRetries < ap_ioWaitCount t + 1"
  shows "\<exists>t' w'. AdcPollTask_tick mx getTime now (t, a, l, w) = (t', a,
      TelemetryLogger_put CONTROL (timeout_text (ap_ioWaitCount t + 1)) CRITICAL now l, w') \<and>
    sb_ok (ap_builder t') \<and> \<not> ap_waitingForAdc t' \<and> ap_ioWaitCount t' = 0 \<and> ap_readingCount t' = ap_readingCount t \<and>
    ap_lastReading t' = ap_lastReading t"
proof -
  let ?sb = "append_text '' polls'' (append_u32 (ap_ioWaitCount t + 1) (append_text ''ADC TIMEOUT after '' (sb_clear (ap_builder t))))"
  note sb = holds_logged [OF holds_timeout [OF assms(1), of "ap_ioWaitCount t + 1"]]
  have "fst (task_log mx CONTROL ?sb CRITICAL now (l, snd (getTime w))) =
      TelemetryLogger_put CONTROL (timeout_text (ap_ioWaitCount t + 1)) CRITICAL now l"
    using sb by (simp add: task_log_def log_put)
  then obtain w' where "task_log mx CONTROL ?sb CRITICAL now (l, snd (getTime w)) =
      (TelemetryLogger_put CONTROL (timeout_text (ap_ioWaitCount t + 1)) CRITICAL now l, w')"
    by (metis prod.collapse)
  then show ?thesis
    using assms sb by (simp add: AdcPollTask_tick_def isConversionReady_def adc_not_ready_def Let_def case_prod_unfold
      not_le [symmetric])
qed

lemma io_step: "v \<le> kMaxIoRetries \<Longrightarrow> unat (v + 1) = Suc (unat v)"
  unfolding kMaxIoRetries_def by (intro unat_succ) (simp add: word_le_nat_alt)

lemma tick_idle:
  assumes "\<not> ap_waitingForAdc t"
  shows "AdcPollTask_tick mx getTime now (t, a, l, w) =
    (if now - ap_lastTick t < AdcPollTask_kPeriodUs then (t, a, l, w)
     else (t\<lparr>ap_lastTick := now, ap_waitingForAdc := True\<rparr>,
       a\<lparr>ad_conversionStartTime := fst (getTime w), ad_conversionInFlight := True\<rparr>, l, snd (getTime w)))"
  using assms by (simp add: AdcPollTask_tick_def adc_start_def startConversion_def Let_def split: prod.split)

text \<open>Every tick keeps the protocol and the order of the readings.\<close>

definition adc_values :: "nat \<Rightarrow> 'w adc_state \<Rightarrow> bool" where
  "adc_values n s = (case s of (t, a, lm) \<Rightarrow>
     ap_readingCount t = of_nat n \<and> ad_nextValue a = sawtooth n \<and>
     (n > 0 \<longrightarrow> ap_lastReading t = f32_of_u32 (sawtooth (n - 1))))"

lemma poll_cases:
  obtains (ready) "ad_conversionDelayUs a \<le> c - ad_conversionStartTime a"
    | (waits) "c - ad_conversionStartTime a < ad_conversionDelayUs a" "ap_ioWaitCount t + 1 \<le> kMaxIoRetries"
    | (gives_up) "c - ad_conversionStartTime a < ad_conversionDelayUs a" "kMaxIoRetries < ap_ioWaitCount t + 1"
  by fastforce

lemma adc_tick_inv:
  assumes "adc_inv s" "adc_values n s"
  shows "adc_inv (AdcPollTask_tick mx getTime now s) \<and> (\<exists>m. adc_values m (AdcPollTask_tick mx getTime now s))"
proof -
  obtain t a l w where s: "s = (t, a, l, w)" by (cases s)
  note inv = assms [unfolded s adc_inv_def adc_values_def, simplified]
  show ?thesis
  proof (cases "ap_waitingForAdc t")
    case False
    then show ?thesis using inv unfolding s by (auto simp: tick_idle adc_inv_def adc_values_def intro!: exI [of _ n])
  next
    case True
    show ?thesis
    proof (cases rule: poll_cases [where a = a and c = "fst (getTime w)" and t = t])
      case ready
      then show ?thesis
        using tick_read [where getTime = getTime and w = w, OF inv(1) [THEN conjunct1] True _ ready, of mx now l] inv True
        by (force simp: s adc_inv_def adc_values_def sawtooth_Suc kMaxIoRetries_def intro!: exI [of _ "Suc n"])
    next
      case waits
      then show ?thesis using tick_waits [where getTime = getTime and w = w, OF True _ waits, of mx now l] inv True
        by (auto simp: s adc_inv_def adc_values_def intro!: exI [of _ n])
    next
      case gives_up
      then show ?thesis
        using tick_gives_up [where getTime = getTime and w = w, OF inv(1) [THEN conjunct1] True _ gives_up, of mx now l] inv True
        by (force simp: s adc_inv_def adc_values_def kMaxIoRetries_def intro!: exI [of _ n])
    qed
  qed
qed

lemma adc_ticks_inv:
  "adc_inv s \<Longrightarrow> adc_values n s \<Longrightarrow>
   adc_inv (fold (AdcPollTask_tick mx getTime) nows s) \<and> (\<exists>m. adc_values m (fold (AdcPollTask_tick mx getTime) nows s))"
proof (induction nows arbitrary: s n)
  case (Cons now nows)
  obtain m where "adc_inv (AdcPollTask_tick mx getTime now s)" "adc_values m (AdcPollTask_tick mx getTime now s)"
    using adc_tick_inv [OF Cons.prems] by blast
  with Cons.IH [of "AdcPollTask_tick mx getTime now s" m] show ?case by simp
qed auto

text \<open>How the conversion that \<open>t\<close> waits for ends, at time \<open>now\<close>: with its reading logged and the next conversion
  started, or, if \<open>final\<close>, given up with a critical message.\<close>

definition adc_outcome :: "AdcPollTask \<Rightarrow> SimulatedADC \<Rightarrow> TelemetryLogger \<Rightarrow> micros \<Rightarrow> bool \<Rightarrow> 'w adc_state \<Rightarrow> bool" where
  "adc_outcome t a l now final s' = (case s' of (t', a', l', w') \<Rightarrow>
     ap_waitingForAdc t' \<and> ap_ioWaitCount t' = 0 \<and> ap_readingCount t' = ap_readingCount t + 1 \<and>
     ap_lastReading t' = f32_of_u32 (ad_nextValue a) \<and>
     l' = TelemetryLogger_put CONTROL (adc_text (ap_readingCount t + 1) (f32_of_u32 (ad_nextValue a))) STATUS now l \<or>
     final \<and> \<not> ap_waitingForAdc t' \<and> ap_ioWaitCount t' = 0 \<and> ap_readingCount t' = ap_readingCount t \<and>
     l' = TelemetryLogger_put CONTROL (timeout_text 11) CRITICAL now l)"

lemma adc_decides:
  assumes "sb_ok (ap_builder t)" "ap_waitingForAdc t" "ad_conversionInFlight a" "ap_ioWaitCount t \<le> kMaxIoRetries"
    and "length nows + unat (ap_ioWaitCount t) = 11"
  shows "\<exists>k < length nows. adc_outcome t a l (nows ! k) (Suc k = length nows)
     (fold (AdcPollTask_tick mx getTime) (take (Suc k) nows) (t, a, l, w))"
  using assms
proof (induction nows arbitrary: t w)
  case Nil
  then show ?case by (simp add: kMaxIoRetries_def word_le_nat_alt)
next
  case (Cons now nows)
  show ?case
  proof (cases rule: poll_cases [where a = a and c = "fst (getTime w)" and t = t])
    case ready
    have "adc_outcome t a l now final (AdcPollTask_tick mx getTime now (t, a, l, w))" for final
      using tick_read [where getTime = getTime and w = w, OF Cons.prems(1-3) ready, of mx now l]
      by (auto simp: adc_outcome_def)
    then show ?thesis by (intro exI [of _ 0]) simp
  next
    case waits
    let ?t = "t\<lparr>ap_ioWaitCount := ap_ioWaitCount t + 1\<rparr>"
    have "length nows + unat (ap_ioWaitCount ?t) = 11" using Cons.prems(4,5) io_step [of "ap_ioWaitCount t"] by simp
    then obtain k where "k < length nows" "adc_outcome ?t a l (nows ! k) (Suc k = length nows)
        (fold (AdcPollTask_tick mx getTime) (take (Suc k) nows) (?t, a, l, snd (getTime w)))"
      using Cons.IH [of ?t "snd (getTime w)"] Cons.prems(1-3) waits(2) by auto
    then show ?thesis using tick_waits [where getTime = getTime and w = w, OF Cons.prems(2,3) waits, of mx now l]
      by (intro exI [of _ "Suc k"]) (simp add: adc_outcome_def)
  next
    case gives_up
    have "unat (ap_ioWaitCount t) \<le> 10" "10 < unat (ap_ioWaitCount t + 1)"
      using Cons.prems(4) gives_up(2) by (simp_all add: kMaxIoRetries_def word_le_nat_alt word_less_nat_alt)
    then have io: "unat (ap_ioWaitCount t) = 10" using io_step [OF Cons.prems(4)] by simp
    then have "ap_ioWaitCount t = 10" by (simp add: word_unat_eq_iff)
    then have "adc_outcome t a l now True (AdcPollTask_tick mx getTime now (t, a, l, w))"
      using tick_gives_up [where getTime = getTime and w = w, OF Cons.prems(1-3) gives_up, of mx now l]
      by (auto simp: adc_outcome_def)
    then show ?thesis using Cons.prems(5) io by (intro exI [of _ 0]) simp
  qed
qed

text \<open>C39: The initialised task with a new converter, ticked at any times under any clock: the number of unanswered polls
  stays within the limit, a conversion is in flight whenever the task waits for one, and the \<open>n\<close>-th reading is the
  converter's \<open>n\<close>-th value. Whenever it waits, at most eleven more ticks end the conversion, with its reading or
  with the critical message and the task idle again: a converter that hangs never blocks the task.\<close>

theorem adc_never_hangs:
  assumes "sb_ok (ap_builder t0)"
    and "fold (AdcPollTask_tick mx getTime) before (AdcPollTask_init t0, SimulatedADC_new delay, l0, w0) = (t, a, l, w)"
  shows "ap_ioWaitCount t \<le> kMaxIoRetries \<and> (ap_waitingForAdc t \<longrightarrow> ad_conversionInFlight a) \<and>
    (\<exists>n. ap_readingCount t = of_nat n \<and> ad_nextValue a = sawtooth n \<and>
       (n > 0 \<longrightarrow> ap_lastReading t = f32_of_u32 (sawtooth (n - 1)))) \<and>
    (ap_waitingForAdc t \<longrightarrow> length nows + unat (ap_ioWaitCount t) = 11 \<longrightarrow>
     (\<exists>k < length nows. adc_outcome t a l (nows ! k) (Suc k = length nows)
        (fold (AdcPollTask_tick mx getTime) (take (Suc k) nows) (t, a, l, w))))"
proof -
  have "adc_inv (AdcPollTask_init t0, SimulatedADC_new delay, l0, w0)"
    "adc_values 0 (AdcPollTask_init t0, SimulatedADC_new delay, l0, w0)"
    using assms(1) by (simp_all add: adc_inv_def adc_values_def AdcPollTask_init_def SimulatedADC_new_def sawtooth_def)
  from adc_ticks_inv [OF this, of mx getTime before] show ?thesis
    using adc_decides [of t a nows l mx getTime w] by (auto simp: assms(2) adc_inv_def adc_values_def)
qed

text \<open>A converter that never answers: the clock stands still.\<close>

definition hung_adc :: "unit adc_state" where
  "hung_adc = (AdcPollTask_new\<lparr>ap_waitingForAdc := True, ap_lastTick := 50000\<rparr>,
     (SimulatedADC_new 100)\<lparr>ad_conversionInFlight := True\<rparr>, TelemetryLogger_init False, ())"

theorem adc_never_hangs_witness:
  "\<exists>k < 11. adc_outcome (fst hung_adc) (fst (snd hung_adc)) (TelemetryLogger_init False) (replicate 11 60000 ! k) (Suc k = 11)
     (fold (AdcPollTask_tick example_mutex (\<lambda>w. (0, w))) (take (Suc k) (replicate 11 60000)) hung_adc)"
proof -
  have "fold (AdcPollTask_tick example_mutex (\<lambda>w. (0, w))) [50000]
      (AdcPollTask_init AdcPollTask_new, SimulatedADC_new 100, TelemetryLogger_init False, ()) = hung_adc"
    by (simp add: tick_idle hung_adc_def AdcPollTask_init_def AdcPollTask_new_def SimulatedADC_new_def AdcPollTask_kPeriodUs_def)
  from adc_never_hangs [OF _ this [unfolded hung_adc_def], of "replicate 11 60000"] show ?thesis
    by (simp add: hung_adc_def AdcPollTask_new_def sb_ok_init)
qed

end
