(* ===== verification/PingPong.thy ===== *)
theory PingPong
  imports HostTasks
begin

text \<open>
  The example project \<^verbatim>\<open>pingpong\<close>: two tasks on two cores that pass a counter back and forth through the
  atomic variables of \<^verbatim>\<open>SharedCounter.h\<close>, with \<^verbatim>\<open>g_pingTurn\<close> as the token.

  The cores run in parallel. A tick is therefore cut at its accesses to shared state: the program counters \<open>ping_pc\<close>
  and \<open>pong_pc\<close> say where each core stands, one step executes up to and including the next shared access, and
  \<open>pp_reach\<close> is every interleaving of the two cores' steps, with arbitrary tick times. The atomics are sequentially
  consistent in the model; the code's release/acquire pairs on the token order every access to the relaxed
  counter, which is only accessed by the holder of the token. \<open>pp_sent\<close> records the
  lines passed to the shared telemetry logger, whose own mutex makes each call one step.
\<close>

section \<open>SharedCounter\<close>

definition kMaxRounds :: u32 where "kMaxRounds = 5"

datatype task_pc = Idle | Add micros | Log micros u32 | Release

record PingTask =
  pi_builder :: LightweightStringBuilder
  pi_lastPing :: micros
  pi_pingCount :: u32

record PongTask =
  po_builder :: LightweightStringBuilder
  po_pongCount :: u32

record 'm pingpong =
  g_counter :: u32
  g_pingTurn :: bool
  g_running :: bool
  pp_ping :: PingTask
  pp_pong :: PongTask
  ping_pc :: task_pc
  pong_pc :: task_pc
  pp_telemetry :: "'m telemetry"
  pp_sent :: "(TaskID \<times> cstr) list"

definition kPingIntervalUs :: micros where "kPingIntervalUs = 300000"

definition PingTask_new :: PingTask where
  "PingTask_new = \<lparr>pi_builder = sb_init, pi_lastPing = 0, pi_pingCount = 0\<rparr>"

definition PingTask_init :: "PingTask \<Rightarrow> PingTask" where
  "PingTask_init t = t\<lparr>pi_lastPing := 0, pi_pingCount := 0\<rparr>"

definition PongTask_new :: PongTask where
  "PongTask_new = \<lparr>po_builder = sb_init, po_pongCount = 0\<rparr>"

definition PongTask_init :: "PongTask \<Rightarrow> PongTask" where
  "PongTask_init t = t\<lparr>po_pongCount := 0\<rparr>"

definition pingpong_start :: "'m telemetry \<Rightarrow> 'm pingpong" where
  "pingpong_start lm = \<lparr>g_counter = 0, g_pingTurn = True, g_running = True, pp_ping = PingTask_init PingTask_new,
     pp_pong = PongTask_init PongTask_new, ping_pc = Idle, pong_pc = Idle, pp_telemetry = lm, pp_sent = []\<rparr>"

text \<open>Both tasks send through the shared logger.\<close>

definition send :: "'m mutex_fns \<Rightarrow> TaskID \<Rightarrow> LightweightStringBuilder \<Rightarrow> micros \<Rightarrow> 'm pingpong \<Rightarrow> 'm pingpong" where
  "send mx task sb now s = s\<lparr>pp_telemetry := task_log mx task sb STATUS now (pp_telemetry s),
     pp_sent := pp_sent s @ [(task, c_string (sb_buf sb))]\<rparr>"

section \<open>PingTask\<close>

definition ping_check :: "micros \<Rightarrow> 'm pingpong \<Rightarrow> 'm pingpong" where
  "ping_check now s =
     (if \<not> g_pingTurn s then s
      else
        let elapsed = now - pi_lastPing (pp_ping s) in
        if elapsed < kPingIntervalUs then s
        else s\<lparr>pp_ping := (pp_ping s)\<lparr>pi_lastPing := now\<rparr>, ping_pc := Add now\<rparr>)"

definition ping_add :: "micros \<Rightarrow> 'm pingpong \<Rightarrow> 'm pingpong" where
  "ping_add now s =
     (let count = g_counter s + 1 in
      s\<lparr>g_counter := count, pp_ping := (pp_ping s)\<lparr>pi_pingCount := pi_pingCount (pp_ping s) + 1\<rparr>, ping_pc := Log now count\<rparr>)"

definition ping_log :: "'m mutex_fns \<Rightarrow> micros \<Rightarrow> u32 \<Rightarrow> 'm pingpong \<Rightarrow> 'm pingpong" where
  "ping_log mx now count s =
     (let sb = append_text ''[Core 0] Ping #'' (sb_clear (pi_builder (pp_ping s)));
          sb = append_u32 (pi_pingCount (pp_ping s)) sb;
          sb = append_u32 count (append_text '' -> counter = '' sb) in
      (send mx CONTROL sb now s)\<lparr>pp_ping := (pp_ping s)\<lparr>pi_builder := sb\<rparr>, ping_pc := Release\<rparr>)"

definition ping_release :: "'m pingpong \<Rightarrow> 'm pingpong" where
  "ping_release s =
     (if pi_pingCount (pp_ping s) \<ge> kMaxRounds then s\<lparr>g_running := False, ping_pc := Idle\<rparr>
      else s\<lparr>g_pingTurn := False, ping_pc := Idle\<rparr>)"

text \<open>A step of core 0; in an idle task it is the beginning of a tick at time \<open>now\<close>.\<close>

definition ping_step :: "'m mutex_fns \<Rightarrow> micros \<Rightarrow> 'm pingpong \<Rightarrow> 'm pingpong" where
  "ping_step mx now s = (case ping_pc s of
     Idle \<Rightarrow> ping_check now s | Add t \<Rightarrow> ping_add t s | Log t count \<Rightarrow> ping_log mx t count s | Release \<Rightarrow> ping_release s)"

text \<open>The whole tick, when nothing interferes.\<close>

definition PingTask_tick :: "'m mutex_fns \<Rightarrow> micros \<Rightarrow> 'm pingpong \<Rightarrow> 'm pingpong" where
  "PingTask_tick mx now s =
     (let s = ping_check now s in
      if ping_pc s = Idle then s
      else let s = ping_add now s in ping_release (ping_log mx now (g_counter s) s))"

section \<open>PongTask\<close>

definition pong_check :: "micros \<Rightarrow> 'm pingpong \<Rightarrow> 'm pingpong" where
  "pong_check now s = (if g_pingTurn s then s else s\<lparr>pong_pc := Add now\<rparr>)"

definition pong_add :: "micros \<Rightarrow> 'm pingpong \<Rightarrow> 'm pingpong" where
  "pong_add now s =
     (let count = g_counter s + 1 in
      s\<lparr>g_counter := count, pp_pong := (pp_pong s)\<lparr>po_pongCount := po_pongCount (pp_pong s) + 1\<rparr>, pong_pc := Log now count\<rparr>)"

definition pong_log :: "'m mutex_fns \<Rightarrow> micros \<Rightarrow> u32 \<Rightarrow> 'm pingpong \<Rightarrow> 'm pingpong" where
  "pong_log mx now count s =
     (let sb = append_text ''[Core 1] Pong #'' (sb_clear (po_builder (pp_pong s)));
          sb = append_u32 (po_pongCount (pp_pong s)) sb;
          sb = append_u32 count (append_text '' -> counter = '' sb) in
      (send mx COMMS sb now s)\<lparr>pp_pong := (pp_pong s)\<lparr>po_builder := sb\<rparr>, pong_pc := Release\<rparr>)"

definition pong_release :: "'m pingpong \<Rightarrow> 'm pingpong" where
  "pong_release s = s\<lparr>g_pingTurn := True, pong_pc := Idle\<rparr>"

definition pong_step :: "'m mutex_fns \<Rightarrow> micros \<Rightarrow> 'm pingpong \<Rightarrow> 'm pingpong" where
  "pong_step mx now s = (case pong_pc s of
     Idle \<Rightarrow> pong_check now s | Add t \<Rightarrow> pong_add t s | Log t count \<Rightarrow> pong_log mx t count s | Release \<Rightarrow> pong_release s)"

definition PongTask_tick :: "'m mutex_fns \<Rightarrow> micros \<Rightarrow> 'm pingpong \<Rightarrow> 'm pingpong" where
  "PongTask_tick mx now s =
     (let s = pong_check now s in
      if pong_pc s = Idle then s
      else let s = pong_add now s in pong_release (pong_log mx now (g_counter s) s))"

section \<open>All interleavings\<close>

inductive pp_reach :: "'m mutex_fns \<Rightarrow> 'm telemetry \<Rightarrow> 'm pingpong \<Rightarrow> bool" for mx lm where
  start: "pp_reach mx lm (pingpong_start lm)"
| core0: "pp_reach mx lm s \<Longrightarrow> pp_reach mx lm (ping_step mx now s)"
| core1: "pp_reach mx lm s \<Longrightarrow> pp_reach mx lm (pong_step mx now s)"

text \<open>The lines of the documented exchange: five pings with four pongs between them, and nothing but pings after.\<close>

definition ping_line :: "nat \<Rightarrow> nat \<Rightarrow> TaskID \<times> cstr" where
  "ping_line n c = (CONTROL, str ''[Core 0] Ping #'' @ renderU32 16 (of_nat n) @ str '' -> counter = '' @ renderU32 16 (of_nat c))"

definition pong_line :: "nat \<Rightarrow> nat \<Rightarrow> TaskID \<times> cstr" where
  "pong_line n c = (COMMS, str ''[Core 1] Pong #'' @ renderU32 16 (of_nat n) @ str '' -> counter = '' @ renderU32 16 (of_nat c))"

definition exchange_line :: "nat \<Rightarrow> TaskID \<times> cstr" where
  "exchange_line i =
     (if i < 9 then if even i then ping_line (i div 2 + 1) (i + 1) else pong_line (i div 2 + 1) (i + 1)
      else ping_line (i - 3) (i + 1))"

definition exchange :: "nat \<Rightarrow> (TaskID \<times> cstr) list" where
  "exchange n = map exchange_line [0..<n]"

lemma exchange_Suc: "exchange (Suc n) = exchange n @ [exchange_line n]"
  by (simp add: exchange_def)

lemma length_exchange: "length (exchange n) = n"
  by (simp add: exchange_def)

text \<open>The position in the exchange after \<open>P\<close> increments by the ping and \<open>Q\<close> by the pong task.\<close>

definition ping_phase :: "nat \<Rightarrow> nat \<Rightarrow> 'm pingpong \<Rightarrow> bool" where
  "ping_phase P Q s \<longleftrightarrow> pong_pc s = Idle \<and> (case ping_pc s of
     Idle \<Rightarrow> Q = min P 4 \<and> pp_sent s = exchange (P + Q) \<and> g_running s = (P < 5)
   | Add t \<Rightarrow> Q = min P 4 \<and> pp_sent s = exchange (P + Q) \<and> g_running s = (P < 5)
   | Log t c \<Rightarrow> P > 0 \<and> Q = min (P - 1) 4 \<and> c = of_nat (P + Q) \<and> pp_sent s = exchange (P + Q - 1) \<and> g_running s = (P \<le> 5)
   | Release \<Rightarrow> P > 0 \<and> Q = min (P - 1) 4 \<and> pp_sent s = exchange (P + Q) \<and> g_running s = (P \<le> 5))"

definition pong_phase :: "nat \<Rightarrow> nat \<Rightarrow> 'm pingpong \<Rightarrow> bool" where
  "pong_phase P Q s \<longleftrightarrow> ping_pc s = Idle \<and> P \<le> 4 \<and> P > 0 \<and> g_running s \<and> (case pong_pc s of
     Idle \<Rightarrow> P = Q + 1 \<and> pp_sent s = exchange (P + Q)
   | Add t \<Rightarrow> P = Q + 1 \<and> pp_sent s = exchange (P + Q)
   | Log t c \<Rightarrow> P = Q \<and> c = of_nat (P + Q) \<and> pp_sent s = exchange (P + Q - 1)
   | Release \<Rightarrow> P = Q \<and> pp_sent s = exchange (P + Q))"

definition pp_inv :: "nat \<Rightarrow> nat \<Rightarrow> 'm pingpong \<Rightarrow> bool" where
  "pp_inv P Q s \<longleftrightarrow> sb_ok (pi_builder (pp_ping s)) \<and> sb_ok (po_builder (pp_pong s)) \<and>
     pi_pingCount (pp_ping s) = of_nat P \<and> po_pongCount (pp_pong s) = of_nat Q \<and> g_counter s = of_nat (P + Q) \<and>
     (if g_pingTurn s then ping_phase P Q s else pong_phase P Q s)"

lemma holds_exchange:
  assumes "sb_ok sb" "length s \<le> 20" "0 \<notin> set (str s)"
  shows "sb_ok (append_u32 w (append_text '' -> counter = '' (append_u32 v (append_text s (sb_clear sb))))) \<and>
    c_string (sb_buf (append_u32 w (append_text '' -> counter = '' (append_u32 v (append_text s (sb_clear sb)))))) =
      str s @ renderU32 16 v @ str '' -> counter = '' @ renderU32 16 w"
proof -
  have "holds (0 + length s + 10 + length '' -> counter = '' + 10)
      (((([] @ str s) @ renderU32 16 v) @ str '' -> counter = '') @ renderU32 16 w)
      (append_u32 w (append_text '' -> counter = '' (append_u32 v (append_text s (sb_clear sb)))))"
    using assms by (intro holds_intros) (simp_all add: kCapacity_sb_def str_def)
  then show ?thesis using holds_logged by force
qed

text \<open>The lines as the tasks compose them.\<close>

lemma ping_exchange_line:
  assumes "P > 0" "Q = min (P - 1) 4"
  shows "exchange_line (P + Q - 1) = ping_line P (P + Q)"
proof (cases "P \<le> 5")
  case True
  then have "P + Q - 1 = 2 * (P - 1)" "P + Q - 1 < 9" "P + Q = 2 * (P - 1) + 1" using assms by auto
  then show ?thesis using assms(1) by (simp add: exchange_line_def)
next
  case False
  then have "Q = 4" using assms by simp
  then show ?thesis using False by (simp add: exchange_line_def add.commute)
qed

lemma pong_exchange_line: "0 < Q \<Longrightarrow> Q \<le> 4 \<Longrightarrow> exchange_line (Q + Q - 1) = pong_line Q (Q + Q)"
proof -
  assume "0 < Q" "Q \<le> 4"
  then have "odd (Q + Q - 1)" "(Q + Q - 1) div 2 + 1 = Q" "Q + Q - 1 < 9" "Q + Q - 1 + 1 = Q + Q" by presburger+
  then show ?thesis by (simp add: exchange_line_def)
qed

lemma rounds_reached: "P < 2 ^ 32 \<Longrightarrow> kMaxRounds \<le> of_nat P \<longleftrightarrow> 5 \<le> P"
  by (simp add: kMaxRounds_def word_le_nat_alt unat_of_nat)

lemmas pp_phase_defs = pp_inv_def ping_phase_def pong_phase_def

lemma ping_steps_inv:
  assumes "pp_inv P Q s" "P < 2 ^ 32"
  shows "ping_pc s = Idle \<Longrightarrow> pp_inv P Q (ping_check now s)"
    and "ping_pc s = Add t \<Longrightarrow> pp_inv (Suc P) Q (ping_add t s)"
    and "ping_pc s = Log t c \<Longrightarrow> pp_inv P Q (ping_log mx t c s)"
    and "ping_pc s = Release \<Longrightarrow> pp_inv P Q (ping_release s)"
proof -
  show "ping_pc s = Idle \<Longrightarrow> pp_inv P Q (ping_check now s)"
    using assms(1) by (auto simp: ping_check_def Let_def pp_phase_defs)
  show "ping_pc s = Add t \<Longrightarrow> pp_inv (Suc P) Q (ping_add t s)"
    using assms(1) by (auto simp: ping_add_def Let_def pp_phase_defs split: if_splits)
  show "ping_pc s = Release \<Longrightarrow> pp_inv P Q (ping_release s)"
    using assms(1) rounds_reached [OF assms(2)] by (auto simp: ping_release_def Let_def pp_phase_defs split: if_splits)
  assume pc: "ping_pc s = Log t c"
  then have "P > 0" "Q = min (P - 1) 4" "pp_sent s = exchange (P + Q - 1)" "c = of_nat (P + Q)" "sb_ok (pi_builder (pp_ping s))"
    "pi_pingCount (pp_ping s) = of_nat P"
    using assms(1) by (auto simp: pp_phase_defs split: if_splits)
  moreover have "exchange (P + Q) = exchange (P + Q - 1) @ [ping_line P (P + Q)]"
    using exchange_Suc [of "P + Q - 1"] ping_exchange_line [of P Q] calculation by simp
  ultimately have "pp_sent (ping_log mx t c s) = exchange (P + Q)" "sb_ok (pi_builder (pp_ping (ping_log mx t c s)))"
    using holds_exchange [of "pi_builder (pp_ping s)" "''[Core 0] Ping #''"]
    by (simp_all add: ping_log_def Let_def send_def ping_line_def str_def)
  moreover have "g_pingTurn (ping_log mx t c s) = g_pingTurn s" "pong_pc (ping_log mx t c s) = pong_pc s"
    "ping_pc (ping_log mx t c s) = Release" "g_running (ping_log mx t c s) = g_running s" "g_counter (ping_log mx t c s) = g_counter s"
    "pi_pingCount (pp_ping (ping_log mx t c s)) = pi_pingCount (pp_ping s)" "pp_pong (ping_log mx t c s) = pp_pong s"
    by (simp_all add: ping_log_def Let_def send_def)
  ultimately show "pp_inv P Q (ping_log mx t c s)"
    using assms(1) pc unfolding pp_phase_defs by (simp split: if_splits)
qed

lemma pong_steps_inv:
  assumes "pp_inv P Q s"
  shows "pong_pc s = Idle \<Longrightarrow> pp_inv P Q (pong_check now s)"
    and "pong_pc s = Add t \<Longrightarrow> pp_inv P (Suc Q) (pong_add t s)"
    and "pong_pc s = Log t c \<Longrightarrow> pp_inv P Q (pong_log mx t c s)"
    and "pong_pc s = Release \<Longrightarrow> pp_inv P Q (pong_release s)"
proof -
  show "pong_pc s = Idle \<Longrightarrow> pp_inv P Q (pong_check now s)"
    using assms(1) by (auto simp: pong_check_def Let_def pp_phase_defs)
  show "pong_pc s = Add t \<Longrightarrow> pp_inv P (Suc Q) (pong_add t s)"
    using assms(1) by (auto simp: pong_add_def Let_def pp_phase_defs split: if_splits)
  show "pong_pc s = Release \<Longrightarrow> pp_inv P Q (pong_release s)"
    using assms(1) by (auto simp: pong_release_def Let_def pp_phase_defs split: if_splits)
  assume pc: "pong_pc s = Log t c"
  then have "P = Q" "0 < Q" "Q \<le> 4" "pp_sent s = exchange (Q + Q - 1)" "c = of_nat (Q + Q)" "sb_ok (po_builder (pp_pong s))"
    "po_pongCount (pp_pong s) = of_nat Q"
    using assms(1) by (auto simp: pp_phase_defs split: if_splits)
  moreover have "exchange (Q + Q) = exchange (Q + Q - 1) @ [pong_line Q (Q + Q)]"
    using exchange_Suc [of "Q + Q - 1"] pong_exchange_line [of Q] calculation by simp
  ultimately have "pp_sent (pong_log mx t c s) = exchange (Q + Q)" "sb_ok (po_builder (pp_pong (pong_log mx t c s)))"
    using holds_exchange [of "po_builder (pp_pong s)" "''[Core 1] Pong #''"]
    by (simp_all add: pong_log_def Let_def send_def pong_line_def str_def)
  moreover have "g_pingTurn (pong_log mx t c s) = g_pingTurn s" "ping_pc (pong_log mx t c s) = ping_pc s"
    "pong_pc (pong_log mx t c s) = Release" "g_running (pong_log mx t c s) = g_running s" "g_counter (pong_log mx t c s) = g_counter s"
    "po_pongCount (pp_pong (pong_log mx t c s)) = po_pongCount (pp_pong s)" "pp_ping (pong_log mx t c s) = pp_ping s"
    by (simp_all add: pong_log_def Let_def send_def)
  ultimately show "pp_inv P Q (pong_log mx t c s)"
    using assms(1) pc \<open>P = Q\<close> unfolding pp_phase_defs by (simp split: if_splits)
qed

lemma sent_grows:
  "length (pp_sent s) \<le> length (pp_sent (ping_step mx now s))" "length (pp_sent s) \<le> length (pp_sent (pong_step mx now s))"
  by (auto simp: ping_step_def ping_check_def ping_add_def ping_log_def ping_release_def send_def Let_def
      pong_step_def pong_check_def pong_add_def pong_log_def pong_release_def split: task_pc.split)

lemma pp_inv_sent: "pp_inv P Q s \<Longrightarrow> P + Q \<le> Suc (length (pp_sent s))"
  by (auto simp: pp_phase_defs length_exchange split: if_splits task_pc.splits)

lemma pp_reach_inv: "pp_reach mx lm s \<Longrightarrow> length (pp_sent s) < 2 ^ 31 \<Longrightarrow> \<exists>P Q. pp_inv P Q s"
proof (induction rule: pp_reach.induct)
  case start
  show ?case
    by (intro exI [of _ 0])
      (simp add: pp_phase_defs pingpong_start_def PingTask_init_def PongTask_init_def PingTask_new_def PongTask_new_def
        exchange_def sb_ok_init)
next
  case (core0 s now)
  then obtain P Q where "pp_inv P Q s" "length (pp_sent s) < 2 ^ 31"
    using sent_grows(1) [of s mx now] by (meson le_less_trans)
  moreover from this have "P < 2 ^ 32" using pp_inv_sent [of P Q s] by simp
  ultimately show ?case
    using ping_steps_inv(1,2,4) [of P Q s] ping_steps_inv(3) [of P Q s _ _ mx] by (cases "ping_pc s") (auto simp: ping_step_def)
next
  case (core1 s now)
  then obtain P Q where "pp_inv P Q s"
    using sent_grows(2) [of s mx now] by (meson le_less_trans)
  then show ?case
    using pong_steps_inv(1,2,4) [of P Q s] pong_steps_inv(3) [of P Q s _ _ mx] by (cases "pong_pc s") (auto simp: pong_step_def)
qed

text \<open>A whole tick of an idle task is a sequence of its steps, so the reachable states include every order of whole ticks.\<close>

lemma PingTask_tick_steps:
  assumes "pp_reach mx lm s" "ping_pc s = Idle"
  shows "pp_reach mx lm (PingTask_tick mx now s)"
proof (cases "ping_pc (ping_check now s) = Idle")
  case True
  then show ?thesis using core0 [OF assms(1), of now] assms(2) by (simp add: PingTask_tick_def ping_step_def)
next
  case False
  then have pc: "ping_pc (ping_check now s) = Add now" using assms(2) by (auto simp: ping_check_def Let_def split: if_splits)
  let ?s1 = "ping_check now s" and ?s2 = "ping_add now (ping_check now s)"
  have "pp_reach mx lm ?s1" using core0 [OF assms(1), of now] assms(2) by (simp add: ping_step_def)
  then have "pp_reach mx lm ?s2" using core0 [of mx lm ?s1 now] pc by (simp add: ping_step_def)
  then have "pp_reach mx lm (ping_log mx now (g_counter ?s2) ?s2)"
    using core0 [of mx lm ?s2 now] by (simp add: ping_step_def ping_add_def Let_def)
  then show ?thesis
    using core0 [of mx lm "ping_log mx now (g_counter ?s2) ?s2" now] False
    by (simp add: PingTask_tick_def ping_step_def ping_log_def send_def Let_def)
qed

lemma PongTask_tick_steps:
  assumes "pp_reach mx lm s" "pong_pc s = Idle"
  shows "pp_reach mx lm (PongTask_tick mx now s)"
proof (cases "g_pingTurn s")
  case True
  then show ?thesis using assms by (simp add: PongTask_tick_def pong_check_def)
next
  case False
  let ?s1 = "pong_check now s" and ?s2 = "pong_add now (pong_check now s)"
  have "pp_reach mx lm ?s1" using core1 [OF assms(1), of now] assms(2) by (simp add: pong_step_def)
  then have "pp_reach mx lm ?s2" using core1 [of mx lm ?s1 now] False by (simp add: pong_step_def pong_check_def)
  then have "pp_reach mx lm (pong_log mx now (g_counter ?s2) ?s2)"
    using core1 [of mx lm ?s2 now] by (simp add: pong_step_def pong_add_def Let_def)
  then show ?thesis
    using core1 [of mx lm "pong_log mx now (g_counter ?s2) ?s2" now] False
    by (simp add: PongTask_tick_def pong_step_def pong_log_def pong_check_def send_def Let_def)
qed

text \<open>C15: In every interleaving of the two cores at most one of them is between taking and passing the token, and only the
  one whose turn it is; the lines sent are, in order, those of the documented exchange; and the shutdown flag is
  cleared exactly by the fifth ping, after which the token stays with the ping task.\<close>

theorem pingpong_exchange:
  assumes "pp_reach mx lm s" "length (pp_sent s) < 2 ^ 31"
  shows "(ping_pc s \<noteq> Idle \<longrightarrow> g_pingTurn s) \<and> (pong_pc s \<noteq> Idle \<longrightarrow> \<not> g_pingTurn s) \<and>
    pp_sent s = map exchange_line [0..<length (pp_sent s)] \<and>
    (g_running s \<longrightarrow> length (pp_sent s) \<le> 9) \<and> (\<not> g_running s \<longrightarrow> 9 \<le> length (pp_sent s) \<and> g_pingTurn s)"
proof -
  obtain P Q where "pp_inv P Q s" using pp_reach_inv [OF assms] by blast
  moreover have "exchange n = map exchange_line [0..<length (exchange n)]" for n by (simp add: exchange_def)
  ultimately show ?thesis
    by (auto simp: pp_phase_defs length_exchange split: if_splits task_pc.splits)
qed

text \<open>The exchange as the project's documentation prints it.\<close>

definition first_round :: "unit pingpong" where
  "first_round = PongTask_tick example_mutex 310000 (PingTask_tick example_mutex 300000
     (pingpong_start (TelemetryLogger_init True, ())))"

theorem pingpong_exchange_witness:
  "pp_sent first_round = [(CONTROL, str ''[Core 0] Ping #1 -> counter = 1''), (COMMS, str ''[Core 1] Pong #1 -> counter = 2'')] \<and>
   g_pingTurn first_round \<and> g_running first_round"
proof -
  have 1: "pong_pc (PingTask_tick example_mutex 300000 (pingpong_start (TelemetryLogger_init True, ()))) = Idle"
    "length (pp_sent first_round) = 2" "g_pingTurn first_round" "g_running first_round" by code_simp+
  have "pp_reach example_mutex (TelemetryLogger_init True, ()) first_round"
    unfolding first_round_def
    by (intro PongTask_tick_steps PingTask_tick_steps start 1) (simp add: pingpong_start_def)
  from pingpong_exchange [OF this] have "pp_sent first_round = map exchange_line [0..<2]" using 1 by simp
  moreover have "map exchange_line [0..<2] = [(CONTROL, str ''[Core 0] Ping #1 -> counter = 1''), (COMMS, str ''[Core 1] Pong #1 -> counter = 2'')]"
    by code_simp
  ultimately show ?thesis using 1 by simp
qed

end
