(* ===== verification/TcpStream.thy ===== *)
theory TcpStream
  imports Cli
begin

text \<open>
  \<^verbatim>\<open>exampleProjects/common/hal/TcpStreamServer.h\<close>: the byte stream of the example projects over a TCP connection. A
  receive thread puts what arrives into a ring of 4096 bytes under a mutex; the kernel's communications task reads
  from it.

  The socket calls of the operating system are the parameter \<open>os\<close>; a descriptor is \<open>None\<close> when it is invalid, and
  \<^verbatim>\<open>recv\<close> returns no bytes for a result that is not positive. The lock guards make each access to the ring one
  operation, so the two threads are a sequence of operations.

  The lemmas show that the ring refines a bounded list: bytes leave in the order in which they arrived, and only the
  newest bytes of a chunk that does not fit are lost.
\<close>

section \<open>The server\<close>

definition kRxBufSize :: nat where "kRxBufSize = 4096"

record TcpStreamServer =
  tc_port :: u16
  tc_serverFd :: "int option"
  tc_clientFd :: "int option"
  tc_connected :: bool
  tc_rxBuf :: "byte list"
  tc_rxHead :: nat
  tc_rxTail :: nat
  tc_rxLen :: nat
  tc_rxThread :: bool

record 'o sockets =
  so_socket :: "'o \<Rightarrow> int option \<times> 'o"
  so_bind :: "int \<Rightarrow> u16 \<Rightarrow> 'o \<Rightarrow> bool \<times> 'o"
  so_listen :: "int \<Rightarrow> 'o \<Rightarrow> 'o"
  so_accept :: "int \<Rightarrow> 'o \<Rightarrow> int option \<times> 'o"
  so_close :: "int \<Rightarrow> 'o \<Rightarrow> 'o"
  so_send :: "int \<Rightarrow> byte list \<Rightarrow> 'o \<Rightarrow> int \<times> 'o"
  so_recv :: "int \<Rightarrow> nat \<Rightarrow> 'o \<Rightarrow> byte list \<times> 'o"

definition TcpStreamServer_new :: "u16 \<Rightarrow> TcpStreamServer" where
  "TcpStreamServer_new port = \<lparr>tc_port = port, tc_serverFd = None, tc_clientFd = None, tc_connected = False,
     tc_rxBuf = replicate kRxBufSize 0, tc_rxHead = 0, tc_rxTail = 0, tc_rxLen = 0, tc_rxThread = False\<rparr>"

definition closeSocket :: "'o sockets \<Rightarrow> int option \<Rightarrow> 'o \<Rightarrow> int option \<times> 'o" where
  "closeSocket os fd w = (case fd of None \<Rightarrow> (None, w) | Some f \<Rightarrow> (None, so_close os f w))"

definition tcp_startAccept :: "'o sockets \<Rightarrow> TcpStreamServer \<times> 'o \<Rightarrow> bool \<times> TcpStreamServer \<times> 'o" where
  "tcp_startAccept os sw =
     (let (s, w) = sw; (fd, w) = so_socket os w; s = s\<lparr>tc_serverFd := fd\<rparr> in
      case fd of
        None \<Rightarrow> (False, s, w)
      | Some f \<Rightarrow>
          let (bound, w) = so_bind os f (tc_port s) w in
          if \<not> bound then let (fd, w) = closeSocket os (tc_serverFd s) w in (False, s\<lparr>tc_serverFd := fd\<rparr>, w)
          else
            let w = so_listen os f w; (cfd, w) = so_accept os f w; s = s\<lparr>tc_clientFd := cfd\<rparr> in
            if cfd = None then let (fd, w) = closeSocket os (tc_serverFd s) w in (False, s\<lparr>tc_serverFd := fd\<rparr>, w)
            else (True, s\<lparr>tc_connected := True, tc_rxThread := True\<rparr>, w))"

text \<open>Joining the receive thread ends it.\<close>

definition tcp_stop :: "'o sockets \<Rightarrow> TcpStreamServer \<times> 'o \<Rightarrow> TcpStreamServer \<times> 'o" where
  "tcp_stop os sw =
     (let (s, w) = sw; s = s\<lparr>tc_connected := False\<rparr>;
          (cfd, w) = closeSocket os (tc_clientFd s) w; s = s\<lparr>tc_clientFd := cfd\<rparr>;
          (fd, w) = closeSocket os (tc_serverFd s) w; s = s\<lparr>tc_serverFd := fd\<rparr> in
      (s\<lparr>tc_rxThread := False\<rparr>, w))"

section \<open>The stream interface\<close>

definition tcp_available :: "TcpStreamServer \<Rightarrow> nat" where
  "tcp_available s = tc_rxLen s"

text \<open>The copy loop of \<^verbatim>\<open>read()\<close>: \<open>n\<close> bytes are left to copy, \<open>out\<close> is what the buffer holds so far.\<close>

fun tcp_copy :: "nat \<Rightarrow> byte list \<Rightarrow> TcpStreamServer \<Rightarrow> byte list \<times> TcpStreamServer" where
  "tcp_copy 0 out s = (out, s)"
| "tcp_copy (Suc n) out s =
     tcp_copy n (out @ [tc_rxBuf s ! tc_rxHead s]) (s\<lparr>tc_rxHead := (tc_rxHead s + 1) mod kRxBufSize\<rparr>)"

definition tcp_read :: "nat \<Rightarrow> TcpStreamServer \<Rightarrow> byte list \<times> TcpStreamServer" where
  "tcp_read max_len s =
     (let n = (if max_len < tc_rxLen s then max_len else tc_rxLen s); (out, s) = tcp_copy n [] s in
      (out, s\<lparr>tc_rxLen := tc_rxLen s - n\<rparr>))"

definition tcp_write :: "'o sockets \<Rightarrow> byte list \<Rightarrow> TcpStreamServer \<times> 'o \<Rightarrow> nat \<times> TcpStreamServer \<times> 'o" where
  "tcp_write os data sw =
     (let (s, w) = sw in
      case tc_clientFd s of
        None \<Rightarrow> (0, s, w)
      | Some f \<Rightarrow>
          if \<not> tc_connected s then (0, s, w)
          else let (sent, w) = so_send os f data w in (if sent < 0 then 0 else nat sent, s, w))"

definition TcpStreamServer_stream :: "'o sockets \<Rightarrow> (TcpStreamServer \<times> 'o) IStream" where
  "TcpStreamServer_stream os = \<lparr>available = (\<lambda>(s, w). tcp_available s),
     read_stream = (\<lambda>n (s, w). let (bs, s) = tcp_read n s in (bs, s, w)),
     write_stream = tcp_write os, isConnected = (\<lambda>(s, w). tc_connected s)\<rparr>"

section \<open>The receive thread\<close>

definition rx_put :: "byte \<Rightarrow> TcpStreamServer \<Rightarrow> TcpStreamServer" where
  "rx_put b s =
     (if tc_rxLen s < kRxBufSize
      then s\<lparr>tc_rxBuf := (tc_rxBuf s)[tc_rxTail s := b], tc_rxTail := (tc_rxTail s + 1) mod kRxBufSize, tc_rxLen := tc_rxLen s + 1\<rparr>
      else s)"

text \<open>The locked part of an iteration, with the bytes received.\<close>

definition rx_chunk :: "byte list \<Rightarrow> TcpStreamServer \<Rightarrow> TcpStreamServer" where
  "rx_chunk tmp s = fold rx_put tmp s"

text \<open>One iteration of \<^verbatim>\<open>rxLoop()\<close>, and whether the loop goes on.\<close>

definition rxLoop_iteration :: "'o sockets \<Rightarrow> TcpStreamServer \<times> 'o \<Rightarrow> bool \<times> TcpStreamServer \<times> 'o" where
  "rxLoop_iteration os sw =
     (let (s, w) = sw in
      if \<not> tc_connected s then (False, s, w)
      else
        let (tmp, w) = (case tc_clientFd s of None \<Rightarrow> ([], w) | Some f \<Rightarrow> so_recv os f 256 w) in
        if tmp = [] then (False, s\<lparr>tc_connected := False\<rparr>, w) else (True, rx_chunk tmp s, w))"

section \<open>The ring refines a bounded list\<close>

definition tcp_ok :: "TcpStreamServer \<Rightarrow> bool" where
  "tcp_ok s \<longleftrightarrow> length (tc_rxBuf s) = kRxBufSize \<and> tc_rxHead s < kRxBufSize \<and> tc_rxLen s \<le> kRxBufSize \<and>
     tc_rxTail s = (tc_rxHead s + tc_rxLen s) mod kRxBufSize"

definition tcp_pending :: "TcpStreamServer \<Rightarrow> byte list" where
  "tcp_pending s = map (\<lambda>i. tc_rxBuf s ! ((tc_rxHead s + i) mod kRxBufSize)) [0..<tc_rxLen s]"

lemma kRxBufSize_pos [simp]: "0 < kRxBufSize" by (simp add: kRxBufSize_def)

lemma length_pending [simp]: "length (tcp_pending s) = tc_rxLen s"
  by (simp add: tcp_pending_def)

lemma tcp_ok_new: "tcp_ok (TcpStreamServer_new port)" "tcp_pending (TcpStreamServer_new port) = []"
  by (simp_all add: tcp_ok_def tcp_pending_def TcpStreamServer_new_def)

lemma ring_distinct:
  assumes "i < l" "l < (n::nat)"
  shows "(h + l) mod n \<noteq> (h + i) mod n"
proof
  assume "(h + l) mod n = (h + i) mod n"
  then have "n dvd (h + l) - (h + i)" using assms mod_eq_dvd_iff_nat [of "h + i" "h + l" n] by simp
  then have "n dvd l - i" by simp
  then show False using assms by (auto dest: dvd_imp_le)
qed

lemma rx_put_list:
  assumes "tcp_ok s"
  shows "tcp_ok (rx_put b s) \<and> tcp_pending (rx_put b s) = take kRxBufSize (tcp_pending s @ [b])"
proof (cases "tc_rxLen s < kRxBufSize")
  case True
  have "tc_rxBuf (rx_put b s) ! ((tc_rxHead s + i) mod kRxBufSize) = tc_rxBuf s ! ((tc_rxHead s + i) mod kRxBufSize)"
    if "i < tc_rxLen s" for i
    using ring_distinct [OF that True, of "tc_rxHead s"] assms True by (simp add: rx_put_def tcp_ok_def)
  then show ?thesis using assms True
    by (auto simp: tcp_ok_def tcp_pending_def rx_put_def mod_Suc_eq)
next
  case False
  then show ?thesis using assms by (simp add: rx_put_def tcp_ok_def)
qed

lemma take_take_append: "take n (take n xs @ ys) = take n (xs @ ys)"
  by (simp add: min_def)

lemma rx_chunk_list:
  "tcp_ok s \<Longrightarrow> tcp_ok (rx_chunk tmp s) \<and> tcp_pending (rx_chunk tmp s) = take kRxBufSize (tcp_pending s @ tmp)"
proof (induction tmp arbitrary: s)
  case Nil
  then show ?case by (simp add: rx_chunk_def tcp_ok_def)
next
  case (Cons b tmp)
  note put = rx_put_list [OF Cons.prems, of b]
  have "rx_chunk (b # tmp) s = rx_chunk tmp (rx_put b s)" by (simp add: rx_chunk_def)
  then show ?case
    using put Cons.IH [of "rx_put b s"] take_take_append [of kRxBufSize "tcp_pending s @ [b]" tmp] by simp
qed

lemma tcp_copy_list:
  "tcp_copy n out s = (out @ map (\<lambda>i. tc_rxBuf s ! ((tc_rxHead s + i) mod kRxBufSize)) [0..<n],
     s\<lparr>tc_rxHead := (tc_rxHead s + n) mod kRxBufSize\<rparr>)" if "tc_rxHead s < kRxBufSize"
  using that
proof (induction n arbitrary: out s)
  case (Suc n)
  have "map (\<lambda>i. tc_rxBuf s ! ((tc_rxHead s + i) mod kRxBufSize)) [0..<Suc n] =
      tc_rxBuf s ! tc_rxHead s # map (\<lambda>i. tc_rxBuf s ! ((tc_rxHead s + 1 + i) mod kRxBufSize)) [0..<n]"
    using Suc.prems by (simp add: upt_conv_Cons map_Suc_upt [symmetric] del: upt_Suc)
  then show ?case
    using Suc.IH [of "s\<lparr>tc_rxHead := (tc_rxHead s + 1) mod kRxBufSize\<rparr>"] by (simp add: mod_simps)
qed simp

lemma tcp_read_list:
  assumes "tcp_ok s"
  shows "\<exists>s'. tcp_read n s = (take n (tcp_pending s), s') \<and> tcp_ok s' \<and> tcp_pending s' = drop n (tcp_pending s)"
proof -
  let ?n = "min n (tc_rxLen s)"
  have "tc_rxHead s < kRxBufSize" using assms by (simp add: tcp_ok_def)
  note copy = tcp_copy_list [OF this, of ?n "[]"]
  have "(if n < tc_rxLen s then n else tc_rxLen s) = ?n" by simp
  then have read: "tcp_read n s = (map (\<lambda>i. tc_rxBuf s ! ((tc_rxHead s + i) mod kRxBufSize)) [0..<?n],
      s\<lparr>tc_rxHead := (tc_rxHead s + ?n) mod kRxBufSize, tc_rxLen := tc_rxLen s - ?n\<rparr>)"
    unfolding tcp_read_def by (simp only: copy Let_def split_beta) simp
  let ?s = "s\<lparr>tc_rxHead := (tc_rxHead s + ?n) mod kRxBufSize, tc_rxLen := tc_rxLen s - ?n\<rparr>"
  have "map (\<lambda>i. tc_rxBuf s ! ((tc_rxHead s + i) mod kRxBufSize)) [0..<?n] = take n (tcp_pending s)"
    by (rule nth_equalityI) (auto simp: tcp_pending_def)
  moreover have "tcp_pending ?s = drop n (tcp_pending s)"
    by (rule nth_equalityI) (auto simp: tcp_pending_def mod_simps min_def add.assoc)
  moreover have "((tc_rxHead s + ?n) mod kRxBufSize + (tc_rxLen s - ?n)) mod kRxBufSize = (tc_rxHead s + tc_rxLen s) mod kRxBufSize"
    using mod_add_left_eq [of "tc_rxHead s + ?n" kRxBufSize "tc_rxLen s - ?n"] by simp
  moreover have "tc_rxLen s - ?n \<le> kRxBufSize" using assms le_trans [OF diff_le_self] by (auto simp: tcp_ok_def)
  ultimately have "tcp_ok ?s" "tcp_pending ?s = drop n (tcp_pending s)"
      "map (\<lambda>i. tc_rxBuf s ! ((tc_rxHead s + i) mod kRxBufSize)) [0..<?n] = take n (tcp_pending s)"
    using assms by (simp_all add: tcp_ok_def)
  then show ?thesis using read by simp
qed

text \<open>The two threads' operations on the ring, and the same operations on a list that holds at most 4096 bytes.\<close>

datatype tcp_op = Receive "byte list" | Read nat | Available

fun tcp_run :: "tcp_op list \<Rightarrow> TcpStreamServer \<Rightarrow> byte list \<times> nat list \<times> TcpStreamServer" where
  "tcp_run [] s = ([], [], s)"
| "tcp_run (Receive bs # ops) s = tcp_run ops (rx_chunk bs s)"
| "tcp_run (Read n # ops) s =
     (let (out, s) = tcp_read n s; (outs, ns, s) = tcp_run ops s in (out @ outs, ns, s))"
| "tcp_run (Available # ops) s = (let (outs, ns, s') = tcp_run ops s in (outs, tcp_available s # ns, s'))"

fun list_run :: "tcp_op list \<Rightarrow> byte list \<Rightarrow> byte list \<times> nat list \<times> byte list" where
  "list_run [] p = ([], [], p)"
| "list_run (Receive bs # ops) p = list_run ops (take kRxBufSize (p @ bs))"
| "list_run (Read n # ops) p = (let (outs, ns, p') = list_run ops (drop n p) in (take n p @ outs, ns, p'))"
| "list_run (Available # ops) p = (let (outs, ns, p') = list_run ops p in (outs, length p # ns, p'))"

lemma tcp_run_list:
  "tcp_ok s \<Longrightarrow> \<exists>s'. tcp_run ops s = (fst (list_run ops (tcp_pending s)), fst (snd (list_run ops (tcp_pending s))), s') \<and>
     tcp_ok s' \<and> tcp_pending s' = snd (snd (list_run ops (tcp_pending s)))"
proof (induction ops s rule: tcp_run.induct)
  case (2 bs ops s)
  then show ?case using rx_chunk_list [of s bs] by auto
next
  case (3 n ops s)
  obtain s1 where "tcp_read n s = (take n (tcp_pending s), s1)" "tcp_ok s1" "tcp_pending s1 = drop n (tcp_pending s)"
    using tcp_read_list [OF 3(2)] by blast
  then show ?case using 3(1) [of "(take n (tcp_pending s), s1)" "take n (tcp_pending s)" s1]
    by (auto simp: Let_def split: prod.splits)
next
  case (4 ops s)
  then show ?case by (auto simp: tcp_available_def Let_def split: prod.splits)
qed auto

text \<open>A run of receptions that fit and reads loses nothing and keeps the order.\<close>

lemma list_run_bounded: "length p \<le> kRxBufSize \<Longrightarrow> length (snd (snd (list_run ops p))) \<le> kRxBufSize"
  by (induction ops p rule: list_run.induct) (auto simp: Let_def split: prod.splits)

text \<open>C40: The receive ring is a bounded list. For every interleaving of receptions, reads and queries from a new server, the
  bytes handed to the reader, the counts reported and the bytes still pending are those of a list of at most 4096
  bytes: first in, first out, and of a chunk that does not fit exactly the newest bytes are lost; no index leaves
  the ring.\<close>

theorem tcp_ring_refines_list:
  "\<exists>s'. tcp_run ops (TcpStreamServer_new port) = (fst (list_run ops []), fst (snd (list_run ops [])), s') \<and>
     tcp_pending s' = snd (snd (list_run ops [])) \<and> length (tcp_pending s') \<le> kRxBufSize \<and>
     length (tc_rxBuf s') = kRxBufSize \<and> tc_rxHead s' < kRxBufSize \<and> tc_rxTail s' < kRxBufSize"
proof -
  obtain s' where "tcp_run ops (TcpStreamServer_new port) = (fst (list_run ops []), fst (snd (list_run ops [])), s')"
      "tcp_ok s'" "tcp_pending s' = snd (snd (list_run ops []))"
    using tcp_run_list [OF tcp_ok_new(1), of ops port] by (auto simp: tcp_ok_new(2))
  moreover from this have "tc_rxTail s' < kRxBufSize" by (simp add: tcp_ok_def)
  ultimately show ?thesis using list_run_bounded [of "[]" ops] by (auto simp: tcp_ok_def)
qed

section \<open>Starting and stopping\<close>

text \<open>A start that fails leaves no socket open and no thread running; one that succeeds is connected. After
  \<^verbatim>\<open>stop()\<close> nothing is sent, and the receive loop ends at its next test.\<close>

lemma startAccept_outcome:
  assumes "tc_clientFd s = None" "\<not> tc_connected s" "\<not> tc_rxThread s" "tcp_startAccept os (s, w) = (ok, s', w')"
  shows "if ok then tc_connected s' \<and> tc_serverFd s' \<noteq> None \<and> tc_clientFd s' \<noteq> None \<and> tc_rxThread s'
    else tc_serverFd s' = None \<and> tc_clientFd s' = None \<and> \<not> tc_connected s' \<and> \<not> tc_rxThread s'"
  using assms by (auto simp: tcp_startAccept_def closeSocket_def Let_def split: prod.splits option.splits if_splits)

lemma stopped_stream:
  assumes "tcp_stop os (s, w) = (s', w')"
  shows "tcp_write os data (s', v) = (0, s', v)" "rxLoop_iteration os (s', v) = (False, s', v)"
  using assms by (auto simp: tcp_stop_def closeSocket_def tcp_write_def rxLoop_iteration_def Let_def split: prod.splits option.splits)

end
