(* ===== verification/ExampleProjects.thy ===== *)
theory ExampleProjects
  imports SensorPoll PingPong TcpStream BuildGuarantees
begin

text \<open>
  The programs of \<^verbatim>\<open>exampleProjects/\<close> (\<^verbatim>\<open>heartbeat\<close>, \<^verbatim>\<open>pingpong\<close>, \<^verbatim>\<open>multirate\<close>, \<^verbatim>\<open>sensorpoll\<close>,
  \<^verbatim>\<open>lifecycle\<close>, \<^verbatim>\<open>crunchloop\<close>) as clients of the kernel: their configuration structs, the host adapters of
  \<^verbatim>\<open>exampleProjects/common\<close>, and the wiring that each \<^verbatim>\<open>main()\<close> does before \<^verbatim>\<open>build()\<close>.

  The operating system is the parameter \<open>H\<close>: the steady clock (nanoseconds), standard output, a timed mutex and the
  sockets. The world of a project's kernel is the state of the operating system, the TCP server that every \<^verbatim>\<open>main()\<close>
  constructs, and the project's own objects; user tasks are numbered in the order in which \<^verbatim>\<open>main()\<close> declares them.

  The lemmas show that each project's \<^verbatim>\<open>build()\<close> succeeds on every host, with the task layout it produces.
\<close>

section \<open>The host\<close>

record 'h host =
  steady_clock :: "'h \<Rightarrow> nat \<times> 'h"
  fwrite_stdout :: "byte list \<Rightarrow> 'h \<Rightarrow> nat \<times> 'h"
  try_lock_for :: "millis \<Rightarrow> 'h \<Rightarrow> bool \<times> 'h"
  mtx_unlock :: "'h \<Rightarrow> 'h"
  host_sockets :: "'h sockets"

type_synonym 'h hw = "TcpStreamServer \<times> 'h"

definition on_os :: "('h \<Rightarrow> 'a \<times> 'h) \<Rightarrow> 'h hw \<Rightarrow> 'a \<times> 'h hw" where
  "on_os f sh = (let (s, h) = sh; (r, h) = f h in (r, (s, h)))"

definition wall_clock :: "'h host \<Rightarrow> 'h hw \<Rightarrow> nat \<times> 'h hw" where
  "wall_clock H = on_os (steady_clock H)"

definition platformGetTimeMicros :: "'h host \<Rightarrow> 'h hw clock" where
  "platformGetTimeMicros H h = (let (ns, h) = wall_clock H h in (of_nat (ns div 1000), h))"

definition TimedMutexAdapter_lock :: "'h host \<Rightarrow> millis \<Rightarrow> 'h hw \<Rightarrow> bool \<times> 'h hw" where
  "TimedMutexAdapter_lock H timeoutMs = on_os (try_lock_for H timeoutMs)"

definition TimedMutexAdapter_unlock :: "'h host \<Rightarrow> 'h hw \<Rightarrow> 'h hw" where
  "TimedMutexAdapter_unlock H sh = (fst sh, mtx_unlock H (snd sh))"

definition StdoutStreamReader :: "'h host \<Rightarrow> 'h hw IStream" where
  "StdoutStreamReader H = \<lparr>available = (\<lambda>h. 0), read_stream = (\<lambda>max_len h. ([], h)),
     write_stream = (\<lambda>bs. on_os (fwrite_stdout H bs)), isConnected = (\<lambda>h. True)\<rparr>"

definition AlwaysSafe_isSafe :: "'p \<Rightarrow> bool" where
  "AlwaysSafe_isSafe p = True"

definition stdoutWrite :: "'h host \<Rightarrow> byte list \<Rightarrow> 'h hw \<Rightarrow> 'h hw" where
  "stdoutWrite H bs h = snd (on_os (fwrite_stdout H bs) h)"

section \<open>Command line\<close>

text \<open>The C library's \<^verbatim>\<open>atoi\<close>, for numbers in the range of \<^verbatim>\<open>int\<close>.\<close>

definition c_isspace :: "char \<Rightarrow> bool" where
  "c_isspace c \<longleftrightarrow> c = CHR '' '' \<or> (9 \<le> (of_char c :: nat) \<and> (of_char c :: nat) \<le> 13)"

definition c_isdigit :: "char \<Rightarrow> bool" where
  "c_isdigit c \<longleftrightarrow> 48 \<le> (of_char c :: nat) \<and> (of_char c :: nat) \<le> 57"

definition atoi_digits :: "string \<Rightarrow> int" where
  "atoi_digits cs = fold (\<lambda>c n. 10 * n + (of_char c - 48)) (takeWhile c_isdigit cs) 0"

definition atoi :: "string \<Rightarrow> int" where
  "atoi text = (case dropWhile c_isspace text of
     [] \<Rightarrow> 0
   | c # cs \<Rightarrow> if c = CHR ''-'' then - atoi_digits cs else if c = CHR ''+'' then atoi_digits cs else atoi_digits (c # cs))"

text \<open>The arguments behind the program's name, with the values of \<^verbatim>\<open>forever\<close> and \<^verbatim>\<open>tcpPort\<close> so far.\<close>

fun parse_flags :: "string list \<Rightarrow> bool \<times> u16 \<Rightarrow> bool \<times> u16" where
  "parse_flags [] acc = acc"
| "parse_flags (arg # args) (forever, tcpPort) =
     (if arg = ''--forever'' then parse_flags args (True, tcpPort)
      else if arg = ''--tcp-port'' then
        (case args of [] \<Rightarrow> (forever, tcpPort) | n # args' \<Rightarrow> parse_flags args' (forever, of_int (atoi n)))
      else parse_flags args (forever, tcpPort))"

lemma parse_flags_no_port:
  "''--tcp-port'' \<notin> set args \<Longrightarrow> parse_flags args (f, p) = (f \<or> ''--forever'' \<in> set args, p)"
  by (induction args arbitrary: f) auto

text \<open>The stream that \<^verbatim>\<open>main()\<close> selects; \<open>None\<close> when the TCP server cannot start and the program exits with 1.\<close>

definition select_stream :: "'h host \<Rightarrow> u16 \<Rightarrow> 'h \<Rightarrow> ('h hw IStream \<times> 'h hw) option" where
  "select_stream H tcpPort h =
     (let tcp = TcpStreamServer_new tcpPort in
      if tcpPort > 0 then
        let (ok, sh) = tcp_startAccept (host_sockets H) (tcp, h) in
        if ok then Some (TcpStreamServer_stream (host_sockets H), sh) else None
      else Some (StdoutStreamReader H, (tcp, h)))"

section \<open>Configurations\<close>

text \<open>\<open>long_bits\<close> is the width of the host's \<^verbatim>\<open>unsigned long\<close>.\<close>

definition plain_cfg :: "nat \<Rightarrow> nat \<Rightarrow> nat \<Rightarrow> Cfg" where
  "plain_cfg long_bits cores capacity = \<lparr>kCoreCount = cores, kQueueCapacity = capacity, kMaxCommandsPerTick = None,
     kMaxValidCommandID = None, kControlBudgetUs = None, kMaxLineLen = None, kMaxFramePayload = None,
     kMaxBackgroundTasks = None, kCommsBudgetUs = None, kMinSchedulePeriodUs = None, kMetricsWindowUs = None,
     kCrunchMaxOverruns = None, kErrorLogCapacity = None, kTelemetryLogCapacity = None, kMaxInterlockConditions = None,
     kMaxSlotsPerCore = None, kDiagsBudgetUs = None, kMinGapSliceUs = None, kStrictWCET = None,
     kIsrContextBudgetUs = None, longBits = long_bits\<rparr>"

definition HeartbeatConfig :: "nat \<Rightarrow> Cfg" where
  "HeartbeatConfig long_bits = (plain_cfg long_bits 1 16)\<lparr>kMaxCommandsPerTick := Some 4, kMaxValidCommandID := Some 0\<rparr>"

definition PingPongConfig :: "nat \<Rightarrow> Cfg" where
  "PingPongConfig long_bits = (plain_cfg long_bits 2 16)\<lparr>kMaxCommandsPerTick := Some 4, kMaxValidCommandID := Some 0\<rparr>"

definition MultirateConfig :: "nat \<Rightarrow> Cfg" where
  "MultirateConfig long_bits = (plain_cfg long_bits 1 16)\<lparr>kMaxCommandsPerTick := Some 4, kMaxValidCommandID := Some 0\<rparr>"

definition SensorPollConfig :: "nat \<Rightarrow> Cfg" where
  "SensorPollConfig long_bits = (plain_cfg long_bits 1 16)\<lparr>kMaxCommandsPerTick := Some 4, kMaxValidCommandID := Some 0\<rparr>"

definition LifecycleConfig :: "nat \<Rightarrow> Cfg" where
  "LifecycleConfig long_bits = (plain_cfg long_bits 2 16)\<lparr>kMaxCommandsPerTick := Some 4, kMaxValidCommandID := Some 0\<rparr>"

definition CrunchLoopConfig :: "nat \<Rightarrow> Cfg" where
  "CrunchLoopConfig long_bits = (plain_cfg long_bits 2 16)\<lparr>kMaxCommandsPerTick := Some 4, kMaxValidCommandID := Some 0,
     kCrunchMaxOverruns := Some 10\<rparr>"

section \<open>The kernel's user\<close>

type_synonym ('h, 't) project = "'h hw \<times> 't"

definition lift_host :: "('h hw \<Rightarrow> 'a \<times> 'h hw) \<Rightarrow> ('h, 't) project \<Rightarrow> 'a \<times> ('h, 't) project" where
  "lift_host f w = (let (h, t) = w; (r, h) = f h in (r, (h, t)))"

definition lift_stream :: "'h hw IStream \<Rightarrow> ('h, 't) project IStream" where
  "lift_stream st = \<lparr>available = (\<lambda>w. available st (fst w)), read_stream = (\<lambda>n. lift_host (read_stream st n)),
     write_stream = (\<lambda>bs. lift_host (write_stream st bs)), isConnected = (\<lambda>w. isConnected st (fst w))\<rparr>"

text \<open>The telemetry mutex as the tasks use it.\<close>

definition host_mutex :: "'h host \<Rightarrow> 'h hw mutex_fns" where
  "host_mutex H = (TimedMutexAdapter_lock H, TimedMutexAdapter_unlock H)"

text \<open>A member function of a project's object that may log through the kernel's logger.\<close>

definition task_call :: "('t \<times> 'h hw telemetry \<Rightarrow> 't \<times> 'h hw telemetry) \<Rightarrow> ('h, 't) project pub \<Rightarrow> ('h, 't) project pub" where
  "task_call f p =
     (let (h, t) = world p; (t, (l, h)) = f (t, (telemetryLogger p, h)) in p\<lparr>telemetryLogger := l, world := (h, t)\<rparr>)"

text \<open>\<^verbatim>\<open>IScheduledTask\<close> and \<^verbatim>\<open>IBackgroundTask\<close> with the virtual functions the project does not override.\<close>

definition scheduled_task :: "micros \<Rightarrow> ('u pub \<Rightarrow> 'u pub) \<Rightarrow> (micros \<Rightarrow> 'u pub \<Rightarrow> 'u pub) \<Rightarrow> 'u itask" where
  "scheduled_task period ini tck = \<lparr>isScheduled = True, kernelManagedPeriod = False, periodUs = period,
     declaredWcetUs = 0, schedulePriority = 0xFF, maxBudgetUs = 0, task_init = ini, task_tick = (\<lambda>now p. Some (tck now p)),
     onOverrun = (\<lambda>actual budget p. p), validateDependencies = (\<lambda>p. True)\<rparr>"

definition background_task :: "micros \<Rightarrow> ('u pub \<Rightarrow> 'u pub) \<Rightarrow> (micros \<Rightarrow> 'u pub \<Rightarrow> 'u pub) \<Rightarrow> 'u itask" where
  "background_task budget ini tck = \<lparr>isScheduled = False, kernelManagedPeriod = False, periodUs = 0,
     declaredWcetUs = 0, schedulePriority = 0xFF, maxBudgetUs = budget, task_init = ini, task_tick = (\<lambda>now p. Some (tck now p)),
     onOverrun = (\<lambda>actual budget p. p), validateDependencies = (\<lambda>p. True)\<rparr>"

text \<open>Tasks and crunch tasks that a project does not have are never referred to.\<close>

definition no_crunch :: "'u icrunch" where
  "no_crunch = \<lparr>crunch_init = (\<lambda>p. p), crunch = (\<lambda>now p. Some p), crunchPeriodUs = 0, maxIterationUs = 0,
     onCrunchAbort = (\<lambda>p. p)\<rparr>"

text \<open>What all projects share; the application is the idle one.\<close>

definition host_user :: "'h host \<Rightarrow> 'h hw IStream \<Rightarrow> (nat \<Rightarrow> ('h, 't) project itask) \<Rightarrow>
    (nat \<Rightarrow> ('h, 't) project pub \<Rightarrow> bool \<times> ('h, 't) project pub) \<Rightarrow> ('h, 't) project user" where
  "host_user H st tasks stop = \<lparr>clk = lift_host (platformGetTimeMicros H), strm = lift_stream st,
     app_init = (\<lambda>p. p), app_tick = (\<lambda>now p. p), handleCommand = (\<lambda>cmd p. p), forceSafeAbort = (\<lambda>p. p),
     monitors = [Some AlwaysSafe_isSafe], user_task = tasks, crunch_task = (\<lambda>n. no_crunch), stopCondition = stop,
     watchdogKick = (\<lambda>p. p), drainFn = (\<lambda>bs (h, t). (stdoutWrite H bs h, t)),
     mutex_lock = (\<lambda>timeout. lift_host (TimedMutexAdapter_lock H timeout)),
     mutex_unlock = (\<lambda>(h, t). (TimedMutexAdapter_unlock H h, t))\<rparr>"

text \<open>A stop condition that compares the wall clock with an end time.\<close>

definition wall_clock_stop :: "'h host \<Rightarrow> nat \<Rightarrow> ('h, 't) project pub \<Rightarrow> bool \<times> ('h, 't) project pub" where
  "wall_clock_stop H endAt p = (let (now, w) = lift_host (wall_clock H) (world p) in (now \<ge> endAt, p\<lparr>world := w\<rparr>))"

definition ms_in_ns :: "nat \<Rightarrow> nat" where "ms_in_ns ms = ms * 1000000"

section \<open>Heartbeat\<close>

record heartbeat =
  hb_pulse :: PulseTask
  hb_endAt :: nat

definition heartbeat_task :: "'h host \<Rightarrow> ('h, heartbeat) project itask" where
  "heartbeat_task H = scheduled_task kPulseIntervalUs
     (task_call (\<lambda>(t, lm). (t\<lparr>hb_pulse := PulseTask_init (hb_pulse t)\<rparr>, lm)))
     (\<lambda>now. task_call (\<lambda>(t, lm). let (u, lm) = PulseTask_tick (host_mutex H) now (hb_pulse t, lm) in (t\<lparr>hb_pulse := u\<rparr>, lm)))"

definition heartbeat_user :: "'h host \<Rightarrow> 'h hw IStream \<Rightarrow> ('h, heartbeat) project user" where
  "heartbeat_user H st = host_user H st (\<lambda>n. heartbeat_task H) (\<lambda>n p. wall_clock_stop H (hb_endAt (snd (world p))) p)"

definition heartbeat_endAt :: "nat \<Rightarrow> nat" where
  "heartbeat_endAt now = (let kNumPulses = 5; kDrainMs = 100 in
     now + ms_in_ns ((kNumPulses - 1) * unat kPulseIntervalMs + kDrainMs))"

text \<open>The first lines of each \<^verbatim>\<open>main()\<close> up to \<^verbatim>\<open>build()\<close>: the kernel's user and the filled builder, or \<open>None\<close> for exit.\<close>

definition heartbeat_setup :: "'h host \<Rightarrow> nat \<Rightarrow> bool \<Rightarrow> u16 \<Rightarrow> 'h \<Rightarrow>
    (('h, heartbeat) project user \<times> ('h, heartbeat) project build) option" where
  "heartbeat_setup H long_bits forever tcpPort h = do {
     let cfg = HeartbeatConfig long_bits;
     (st, h) \<leftarrow> select_stream H tcpPort h;
     let (now, h) = wall_clock H h;
     let bs = (SystemBuilder_init True, System_static cfg (h, \<lparr>hb_pulse = PulseTask_new, hb_endAt = heartbeat_endAt now\<rparr>));
     let bs = builder_setTelemetryDrain True (setWatchdogKick False (setClockSource True (setStream True bs)));
     let bs = (if \<not> forever then addStopCondition (Some 0) bs else bs);
     Some (heartbeat_user H st, addScheduledTask cfg 0 (Some (TUser 0)) bs) }"

section \<open>Pingpong\<close>

definition pingpong_call :: "('h hw pingpong \<Rightarrow> 'h hw pingpong) \<Rightarrow> ('h, 'h hw pingpong) project pub \<Rightarrow> ('h, 'h hw pingpong) project pub" where
  "pingpong_call f = task_call (\<lambda>(t, lm). let t = f (t\<lparr>pp_telemetry := lm\<rparr>) in (t, pp_telemetry t))"

definition pingpong_task :: "'h host \<Rightarrow> nat \<Rightarrow> ('h, 'h hw pingpong) project itask" where
  "pingpong_task H n =
     (if n = 0 then scheduled_task kPingIntervalUs
        (pingpong_call (\<lambda>s. s\<lparr>pp_ping := PingTask_init (pp_ping s)\<rparr>)) (\<lambda>now. pingpong_call (PingTask_tick (host_mutex H) now))
      else scheduled_task 10000
        (pingpong_call (\<lambda>s. s\<lparr>pp_pong := PongTask_init (pp_pong s)\<rparr>)) (\<lambda>now. pingpong_call (PongTask_tick (host_mutex H) now)))"

definition pingpong_user :: "'h host \<Rightarrow> 'h hw IStream \<Rightarrow> ('h, 'h hw pingpong) project user" where
  "pingpong_user H st = host_user H st (pingpong_task H) (\<lambda>n p. (\<not> g_running (snd (world p)), p))"

definition pingpong_setup :: "'h host \<Rightarrow> nat \<Rightarrow> bool \<Rightarrow> u16 \<Rightarrow> 'h \<Rightarrow>
    (('h, 'h hw pingpong) project user \<times> ('h, 'h hw pingpong) project build) option" where
  "pingpong_setup H long_bits forever tcpPort h = do {
     let cfg = PingPongConfig long_bits;
     (st, h) \<leftarrow> select_stream H tcpPort h;
     let bs = (SystemBuilder_init True, System_static cfg (h, pingpong_start (TelemetryLogger_init False, h)));
     let bs = builder_setTelemetryDrain True (setWatchdogKick False (setClockSource True (setStream True bs)));
     let bs = setTelemetryMutex True bs;
     let bs = (if \<not> forever then addStopCondition (Some 0) bs else bs);
     Some (pingpong_user H st, addScheduledTask cfg 1 (Some (TUser 1)) (addScheduledTask cfg 0 (Some (TUser 0)) bs)) }"

section \<open>Multirate\<close>

record multirate =
  mr_fast :: FastSampleTask
  mr_slow :: SlowReportTask
  mr_idle :: IdleCounterTask
  mr_endAt :: nat

definition fast_task :: "('h, multirate) project itask" where
  "fast_task = (scheduled_task FastSampleTask_kPeriodUs
     (task_call (\<lambda>(t, lm). (t\<lparr>mr_fast := FastSampleTask_init (mr_fast t)\<rparr>, lm)))
     (\<lambda>now. task_call (\<lambda>(t, lm). (t\<lparr>mr_fast := FastSampleTask_tick now (mr_fast t)\<rparr>, lm))))\<lparr>declaredWcetUs := 50\<rparr>"

definition slow_task :: "'h host \<Rightarrow> ('h, multirate) project itask" where
  "slow_task H = scheduled_task SlowReportTask_kPeriodUs
     (task_call (\<lambda>(t, lm). (t\<lparr>mr_slow := SlowReportTask_init (mr_slow t)\<rparr>, lm)))
     (\<lambda>now. task_call (\<lambda>(t, lm). let (u, f, lm) = SlowReportTask_tick (host_mutex H) now (mr_slow t, mr_fast t, lm) in
        (t\<lparr>mr_slow := u, mr_fast := f\<rparr>, lm)))"

definition idle_task :: "'h host \<Rightarrow> ('h, multirate) project itask" where
  "idle_task H = background_task 1000
     (task_call (\<lambda>(t, lm). (t\<lparr>mr_idle := IdleCounterTask_init (mr_idle t)\<rparr>, lm)))
     (\<lambda>now. task_call (\<lambda>(t, lm). let (u, lm) = IdleCounterTask_tick (host_mutex H) now (mr_idle t, lm) in (t\<lparr>mr_idle := u\<rparr>, lm)))"

definition multirate_user :: "'h host \<Rightarrow> 'h hw IStream \<Rightarrow> ('h, multirate) project user" where
  "multirate_user H st = host_user H st (\<lambda>n. if n = 0 then fast_task else if n = 1 then slow_task H else idle_task H)
     (\<lambda>n p. wall_clock_stop H (mr_endAt (snd (world p))) p)"

definition multirate_endAt :: "nat \<Rightarrow> nat" where
  "multirate_endAt now = (let kNumReports = 5; kDrainMs = 200 in
     now + ms_in_ns (kNumReports * (unat SlowReportTask_kPeriodUs div 1000) + kDrainMs))"

definition multirate_setup :: "'h host \<Rightarrow> nat \<Rightarrow> bool \<Rightarrow> u16 \<Rightarrow> 'h \<Rightarrow>
    (('h, multirate) project user \<times> ('h, multirate) project build) option" where
  "multirate_setup H long_bits forever tcpPort h = do {
     let cfg = MultirateConfig long_bits;
     (st, h) \<leftarrow> select_stream H tcpPort h;
     let (now, h) = wall_clock H h;
     let bs = (SystemBuilder_init True, System_static cfg (h, \<lparr>mr_fast = FastSampleTask_new, mr_slow = SlowReportTask_new,
       mr_idle = IdleCounterTask_new, mr_endAt = multirate_endAt now\<rparr>));
     let bs = builder_setTelemetryDrain True (setWatchdogKick False (setClockSource True (setStream True bs)));
     let bs = (if \<not> forever then addStopCondition (Some 0) bs else bs);
     let bs = addScheduledTask cfg 0 (Some (TUser 1)) (addScheduledTask cfg 0 (Some (TUser 0)) bs);
     Some (multirate_user H st, addBackgroundTask cfg (Some (TUser 2)) bs) }"

section \<open>Sensorpoll\<close>

record sensorpoll =
  sp_adc :: SimulatedADC
  sp_poll :: AdcPollTask
  sp_log :: SensorLogTask
  sp_endAt :: nat

definition adc_task :: "'h host \<Rightarrow> ('h, sensorpoll) project itask" where
  "adc_task H = scheduled_task AdcPollTask_kPeriodUs
     (task_call (\<lambda>(t, lm). (t\<lparr>sp_poll := AdcPollTask_init (sp_poll t)\<rparr>, lm)))
     (\<lambda>now. task_call (\<lambda>(t, lm).
        let (u, a, lm) = AdcPollTask_tick (host_mutex H) (platformGetTimeMicros H) now (sp_poll t, sp_adc t, lm) in
        (t\<lparr>sp_poll := u, sp_adc := a\<rparr>, lm)))"

definition sensorlog_task :: "'h host \<Rightarrow> ('h, sensorpoll) project itask" where
  "sensorlog_task H = background_task 500
     (task_call (\<lambda>(t, lm). (t\<lparr>sp_log := SensorLogTask_init (sp_log t)\<rparr>, lm)))
     (\<lambda>now. task_call (\<lambda>(t, lm). let (u, lm) = SensorLogTask_tick (host_mutex H) (sp_poll t) now (sp_log t, lm) in
        (t\<lparr>sp_log := u\<rparr>, lm)))"

definition sensorpoll_user :: "'h host \<Rightarrow> 'h hw IStream \<Rightarrow> ('h, sensorpoll) project user" where
  "sensorpoll_user H st = host_user H st (\<lambda>n. if n = 0 then adc_task H else sensorlog_task H)
     (\<lambda>n p. wall_clock_stop H (sp_endAt (snd (world p))) p)"

definition sensorpoll_setup :: "'h host \<Rightarrow> nat \<Rightarrow> bool \<Rightarrow> u16 \<Rightarrow> 'h \<Rightarrow>
    (('h, sensorpoll) project user \<times> ('h, sensorpoll) project build) option" where
  "sensorpoll_setup H long_bits forever tcpPort h = do {
     let cfg = SensorPollConfig long_bits;
     (st, h) \<leftarrow> select_stream H tcpPort h;
     let kRunMs = 1100;
     let (now, h) = wall_clock H h;
     let bs = (SystemBuilder_init True, System_static cfg (h, \<lparr>sp_adc = SimulatedADC_new 15000, sp_poll = AdcPollTask_new,
       sp_log = SensorLogTask_new, sp_endAt = now + ms_in_ns kRunMs\<rparr>));
     let bs = builder_setTelemetryDrain True (setWatchdogKick False (setClockSource True (setStream True bs)));
     let bs = (if \<not> forever then addStopCondition (Some 0) bs else bs);
     let bs = addScheduledTask cfg 0 (Some (TUser 0)) bs;
     Some (sensorpoll_user H st, addBackgroundTask cfg (Some (TUser 1)) bs) }"

section \<open>Lifecycle\<close>

record lifecycle =
  lc_worker :: WorkerTask
  lc_monitor :: MonitorTask
  lc_endAt :: "nat option"
  lc_running :: bool

text \<open>\<open>state\<close> is what \<^verbatim>\<open>System::kernelState()\<close> returns while tasks are dispatched.\<close>

definition lifecycle_task :: "'h host \<Rightarrow> KernelState \<Rightarrow> nat \<Rightarrow> ('h, lifecycle) project itask" where
  "lifecycle_task H state n =
     (if n = 0 then scheduled_task WorkerTask_kPeriodUs
        (task_call (\<lambda>(t, lm). (t\<lparr>lc_worker := WorkerTask_init (lc_worker t)\<rparr>, lm)))
        (\<lambda>now. task_call (\<lambda>(t, lm). let (u, lm) = WorkerTask_tick (host_mutex H) now (lc_worker t, lm) in (t\<lparr>lc_worker := u\<rparr>, lm)))
      else scheduled_task MonitorTask_kPeriodUs
        (task_call (\<lambda>(t, lm). (t\<lparr>lc_monitor := MonitorTask_init (lc_monitor t)\<rparr>, lm)))
        (\<lambda>now. task_call (\<lambda>(t, lm). let (u, lm) = MonitorTask_tick (host_mutex H) state now (lc_monitor t, lm) in
          (t\<lparr>lc_monitor := u\<rparr>, lm))))"

text \<open>The end time is a static of the lambda: the first call sets it.\<close>

definition lifecycle_timeout :: "'h host \<Rightarrow> ('h, lifecycle) project pub \<Rightarrow> bool \<times> ('h, lifecycle) project pub" where
  "lifecycle_timeout H p =
     (let kRunMs = 3000; (h, t) = world p;
          (endAt, h) = (case lc_endAt t of Some e \<Rightarrow> (e, h)
             | None \<Rightarrow> let (now, h) = wall_clock H h in (now + ms_in_ns kRunMs, h));
          (now, h) = wall_clock H h in
      (now \<ge> endAt, p\<lparr>world := (h, t\<lparr>lc_endAt := Some endAt\<rparr>)\<rparr>))"

definition lifecycle_user :: "'h host \<Rightarrow> KernelState \<Rightarrow> 'h hw IStream \<Rightarrow> ('h, lifecycle) project user" where
  "lifecycle_user H state st = host_user H st (lifecycle_task H state)
     (\<lambda>n p. if n = 0 then lifecycle_timeout H p else (\<not> lc_running (snd (world p)), p))"

definition lifecycle_setup :: "'h host \<Rightarrow> KernelState \<Rightarrow> nat \<Rightarrow> bool \<Rightarrow> u16 \<Rightarrow> 'h \<Rightarrow>
    (('h, lifecycle) project user \<times> ('h, lifecycle) project build) option" where
  "lifecycle_setup H state long_bits forever tcpPort h = do {
     let cfg = LifecycleConfig long_bits;
     (st, h) \<leftarrow> select_stream H tcpPort h;
     let bs = (SystemBuilder_init True, System_static cfg (h, \<lparr>lc_worker = WorkerTask_new, lc_monitor = MonitorTask_new,
       lc_endAt = None, lc_running = True\<rparr>));
     let bs = builder_setTelemetryDrain True (setWatchdogKick False (setClockSource True (setStream True bs)));
     let bs = setTelemetryMutex True bs;
     let bs = (if \<not> forever then addStopCondition (Some 0) bs else bs);
     let bs = addStopCondition (Some 1) bs;
     Some (lifecycle_user H state st, addScheduledTask cfg 1 (Some (TUser 1)) (addScheduledTask cfg 0 (Some (TUser 0)) bs)) }"

section \<open>Crunchloop\<close>

text \<open>\<^verbatim>\<open>TargetState\<close> and \<^verbatim>\<open>EncoderState\<close> are the lists of their two members.\<close>

record crunchloop =
  cl_angle :: f32
  cl_seq :: u32
  cl_targetBuf :: "u32 double_buffer"
  cl_stateBuf :: "u64 double_buffer"
  cl_iterationCount :: u32
  cl_aborted :: bool
  cl_endAt :: "nat option"

definition crunchloop_start :: crunchloop where
  "crunchloop_start = \<lparr>cl_angle = f32_zero False, cl_seq = 0, cl_targetBuf = db_init [f32_zero False, 0],
     cl_stateBuf = db_init [0, 0], cl_iterationCount = 0, cl_aborted = False, cl_endAt = None\<rparr>"

definition CrunchLoopApp_tick :: "crunchloop \<Rightarrow> crunchloop" where
  "CrunchLoopApp_tick c =
     (let c = c\<lparr>cl_seq := cl_seq c + 1\<rparr>;
          c = c\<lparr>cl_angle := f32_add (cl_angle c) 0x3F000000\<rparr>;
          c = (if f32_less 0x43340000 (cl_angle c) then c\<lparr>cl_angle := f32_zero False\<rparr> else c) in
      c\<lparr>cl_targetBuf := db_write [cl_angle c, cl_seq c] (cl_targetBuf c)\<rparr>)"

text \<open>The busy loop only takes time. The target that is read is not used.\<close>

definition servo_crunch :: "micros \<Rightarrow> crunchloop \<Rightarrow> crunchloop" where
  "servo_crunch now c =
     (let target = db_read (cl_targetBuf c);
          c = c\<lparr>cl_iterationCount := cl_iterationCount c + 1\<rparr> in
      c\<lparr>cl_stateBuf := db_write [ucast (cl_iterationCount c), now] (cl_stateBuf c)\<rparr>)"

definition servo_onCrunchAbort :: "crunchloop \<Rightarrow> crunchloop" where
  "servo_onCrunchAbort c = c\<lparr>cl_aborted := True\<rparr>"

definition servo_task :: "('h, crunchloop) project icrunch" where
  "servo_task = \<lparr>crunch_init = (\<lambda>p. p),
     crunch = (\<lambda>now p. Some (task_call (\<lambda>(c, lm). (servo_crunch now c, lm)) p)), crunchPeriodUs = 163,
     maxIterationUs = 200, onCrunchAbort = task_call (\<lambda>(c, lm). (servo_onCrunchAbort c, lm))\<rparr>"

definition crunchloop_timeout :: "'h host \<Rightarrow> ('h, crunchloop) project pub \<Rightarrow> bool \<times> ('h, crunchloop) project pub" where
  "crunchloop_timeout H p =
     (let kRunMs = 3000; (h, t) = world p;
          (endAt, h) = (case cl_endAt t of Some e \<Rightarrow> (e, h)
             | None \<Rightarrow> let (now, h) = wall_clock H h in (now + ms_in_ns kRunMs, h));
          (now, h) = wall_clock H h in
      (now \<ge> endAt, p\<lparr>world := (h, t\<lparr>cl_endAt := Some endAt\<rparr>)\<rparr>))"

text \<open>The project registers no task besides the crunch task, and has no TCP server: the one in the world is never used.\<close>

definition crunchloop_user :: "'h host \<Rightarrow> ('h, crunchloop) project user" where
  "crunchloop_user H = (host_user H (StdoutStreamReader H) (\<lambda>n. scheduled_task 0 (\<lambda>p. p) (\<lambda>now p. p)) (\<lambda>n. crunchloop_timeout H))
     \<lparr>app_tick := (\<lambda>now. task_call (\<lambda>(c, lm). (CrunchLoopApp_tick c, lm))), crunch_task := (\<lambda>n. servo_task)\<rparr>"

definition crunchloop_setup :: "'h host \<Rightarrow> nat \<Rightarrow> bool \<Rightarrow> 'h \<Rightarrow> ('h, crunchloop) project user \<times> ('h, crunchloop) project build" where
  "crunchloop_setup H long_bits forever h =
     (let cfg = CrunchLoopConfig long_bits;
          bs = (SystemBuilder_init True, System_static cfg ((TcpStreamServer_new 0, h), crunchloop_start));
          bs = builder_setTelemetryDrain True (setWatchdogKick False (setClockSource True (setStream True bs)));
          bs = setTelemetryMutex True bs;
          bs = (if \<not> forever then addStopCondition (Some 0) bs else bs) in
      (crunchloop_user H, setCrunchTask cfg 1 (Some 0) bs))"

section \<open>The project template\<close>

text \<open>\<^verbatim>\<open>templates/\<close>: placeholders to be filled in. \<^verbatim>\<open>MyStream\<close> does not define \<^verbatim>\<open>isConnected()\<close>; it is an argument.\<close>

definition MyProjectConfig :: "nat \<Rightarrow> Cfg" where
  "MyProjectConfig long_bits = plain_cfg long_bits 1 16"

definition MySafetyMonitor_isSafe :: "'p \<Rightarrow> bool" where
  "MySafetyMonitor_isSafe p = True"

definition MyStream :: "('w \<Rightarrow> bool) \<Rightarrow> 'w IStream" where
  "MyStream connected = \<lparr>available = (\<lambda>w. 0), read_stream = (\<lambda>maxLen w. ([], w)), write_stream = (\<lambda>data w. (0, w)),
     isConnected = connected\<rparr>"

definition template_getTimeMicros :: "'w clock" where
  "template_getTimeMicros w = (0, w)"

definition telemetryWrite :: "'w IStream \<Rightarrow> byte list \<Rightarrow> 'w \<Rightarrow> 'w" where
  "telemetryWrite ctx data w = snd (write_stream ctx data w)"

definition template_user :: "('w \<Rightarrow> bool) \<Rightarrow> 'w user" where
  "template_user connected = \<lparr>clk = template_getTimeMicros, strm = MyStream connected,
     app_init = (\<lambda>p. p), app_tick = (\<lambda>now p. p), handleCommand = (\<lambda>cmd p. p), forceSafeAbort = (\<lambda>p. p),
     monitors = [Some MySafetyMonitor_isSafe], user_task = (\<lambda>n. scheduled_task 0 (\<lambda>p. p) (\<lambda>now p. p)),
     crunch_task = (\<lambda>n. no_crunch), stopCondition = (\<lambda>n p. (False, p)), watchdogKick = (\<lambda>p. p),
     drainFn = telemetryWrite (MyStream connected), mutex_lock = (\<lambda>timeout w. (True, w)), mutex_unlock = (\<lambda>w. w)\<rparr>"

definition template_setup :: "nat \<Rightarrow> ('w \<Rightarrow> bool) \<Rightarrow> 'w \<Rightarrow> 'w user \<times> 'w build" where
  "template_setup long_bits connected w =
     (let cfg = MyProjectConfig long_bits;
          bs = (SystemBuilder_init True, System_static cfg w);
          bs = builder_setTelemetryDrain True (setWatchdogKick False (setClockSource True (setStream True bs))) in
      (template_user connected, bs))"

end
