(* ===== verification/ExampleBuilds.thy ===== *)
theory ExampleBuilds
  imports ExampleProjects
begin

text \<open>
  The example projects of \<open>ExampleProjects\<close> build and run: sufficient conditions for \<^verbatim>\<open>build()\<close> to succeed, the task
  layout each project gets, and the data that the two cores of the crunch project exchange.
\<close>

lemma place_background: "sy_backgroundTasks (place_kernel_tasks cfg (emplace_kernel_tasks cfg b s)) = sy_backgroundTasks s"
  by (auto simp: place_kernel_tasks_def emplace_kernel_tasks_def on_core_def Let_def)

text \<open>When a build succeeds: the conditions under which every check passes, and the layout it leaves.\<close>

lemma build_succeeds:
  assumes "\<not> sy_built s" "m_app b" "m_stream b" "sy_kernelState s = UNCONFIGURED"
    and room: "length (sy_backgroundTasks s) < CfgMaxBackgroundTasks cfg"
    and cores: "map (\<lambda>c. c\<lparr>cd_tasks := sort_key (effectivePriority U cfg) (cd_tasks c)\<rparr>) (sy_cores (place_kernel_tasks cfg s)) = cores"
    and active: "list_ex isActive cores"
    and periods: "\<not> list_ex (\<lambda>c. list_ex (period_too_short U cfg) (cd_tasks c)) cores"
    and dist: "distinct (concat (map cd_tasks cores))"
    and crunch: "validateCrunch_loop U cfg 0 cores = BuildOk"
    and deps: "\<And>n p. validateDependencies (user_task U n) p"
  shows "\<exists>s'. build U cfg (b, s) = Some (BuildOk, (b, s')) \<and> sy_kernelState s' = CONFIGURED \<and> sy_built s' \<and>
    sy_cores s' = cores \<and> sy_backgroundTasks s' = sy_backgroundTasks s @ [TDiags] \<and>
    sy_backgroundCoreId s' = (if kMultiCore cfg then last_active (sy_cores (place_kernel_tasks cfg s)) (kCoreCount cfg) else 0)"
proof -
  obtain s0 where s0: "install_kernel cfg b s = Some s0"
    using room by (simp add: install_kernel_def register_diags_def place_background)
  note i = install_kernel_fields [OF s0]
  let ?s1 = "sortTasksByPriority U cfg s0"
  have c1: "sy_cores ?s1 = cores" by (simp add: sortTasksByPriority_sort_key i cores)
  obtain g where g: "fold (utilization_warning U cfg) (sy_cores ?s1) ?s1 = on_pub g ?s1" using utilization_warnings_frame by blast
  let ?s2 = "on_pub g ?s1"
  have dep: "tref_validateDependencies U r ?s2" for r
    using assms(3) deps by (cases r) (simp_all add: tref_validateDependencies_def sortTasksByPriority_def i
        control_validateDependencies_def comms_validateDependencies_def setMetricsSnapshotFn_def CommsTask_init_def CLI_init_def hasStream_def)
  then have "validateTaskDependencies U ?s2 = BuildOk" by (simp add: validateTaskDependencies_def list_ex_iff)
  moreover have "validateSchedulingConstraints U cfg ?s1 = (BuildOk, ?s2)"
    using periods dist by (simp add: validateSchedulingConstraints_def c1 g [unfolded c1] duplicate_scan_iff [symmetric])
  ultimately have "build_checks U cfg ?s1 = (BuildOk, ?s2)"
    using active crunch by (simp add: build_checks_def c1 validateCrunchConstraints_def)
  then have "build U cfg (b, s) = Some (BuildOk, (b, build_finish U cfg b ?s2))"
    using assms(1,2) s0 by (simp add: build_def)
  moreover have "sy_kernelState ?s2 = UNCONFIGURED" using assms(4) by (simp add: sortTasksByPriority_def i)
  ultimately show ?thesis
    by (simp add: build_finish_fields c1) (simp add: sortTasksByPriority_def i)
qed


text \<open>What a build leaves: the tasks of every core in dispatch order, the ring, the core that serves it.\<close>

definition layout :: "'u System \<Rightarrow> (tref list \<times> CoreDispatchMode) list \<times> tref list \<times> nat" where
  "layout s = (map (\<lambda>c. (cd_tasks c, cd_mode c)) (sy_cores s), sy_backgroundTasks s, sy_backgroundCoreId s)"

lemma two_cores: "replicate 2 c = [c, c]" "last_active cores 2 = (if isActive (cores ! 1) then 1 else 0)"
  by (simp_all add: numeral_2_eq_2)

lemmas project_cfgs = HeartbeatConfig_def PingPongConfig_def MultirateConfig_def SensorPollConfig_def LifecycleConfig_def
  CrunchLoopConfig_def MyProjectConfig_def plain_cfg_def

lemmas builder_defs = addScheduledTask_def addBackgroundTask_def addStopCondition_def builder_setTelemetryDrain_def
  setWatchdogKick_def setClockSource_def setStream_def setTelemetryMutex_def setCrunchTask_def builder_core_def
  addTask_def SystemBuilder_init_def on_core_def System_static_def CoreData_init_def on_pub_def kMaxTasksPerCore_def
  kMaxStopConditions_def cfg_or_def CfgMaxBackgroundTasks_def two_cores

lemmas period_defs = kPulseIntervalUs_def kPulseIntervalMs_def kPingIntervalUs_def FastSampleTask_kPeriodUs_def
  SlowReportTask_kPeriodUs_def AdcPollTask_kPeriodUs_def WorkerTask_kPeriodUs_def MonitorTask_kPeriodUs_def

lemmas task_defs = effectivePriority_def tref_isScheduled_def tref_schedulePriority_def tref_periodUs_def scheduled_task_def
  background_task_def host_user_def period_defs control_schedulePriority_def comms_schedulePriority_def

lemmas check_defs = period_too_short_def isActive_def CfgMinSchedulePeriodUs_def control_periodUs_def comms_periodUs_def
  CfgControlBudgetUs_def CfgCommsBudgetUs_def CfgMaxLineLen_def

text \<open>Where the kernel's own tasks go, before the sort.\<close>

lemma place_single:
  "sy_cores s = [c] \<Longrightarrow> kCoreCount cfg < 2 \<Longrightarrow> length (cd_tasks c) < 255 \<Longrightarrow>
   sy_cores (place_kernel_tasks cfg s) = [c\<lparr>cd_tasks := TControl # TComms # cd_tasks c\<rparr>]"
  by (simp add: place_kernel_tasks_def prependTask_def on_core_def kMultiCore_def kMaxTasksPerCore_def Let_def)

lemma place_dual:
  "sy_cores s = [c0, c1] \<Longrightarrow> 2 \<le> kCoreCount cfg \<Longrightarrow> length (cd_tasks c0) < 255 \<Longrightarrow> length (cd_tasks c1) < 255 \<Longrightarrow>
   sy_cores (place_kernel_tasks cfg s) =
     (if cd_mode c1 = CRUNCH then [c0\<lparr>cd_tasks := TComms # TControl # cd_tasks c0\<rparr>, c1]
      else [c0\<lparr>cd_tasks := TControl # cd_tasks c0\<rparr>, c1\<lparr>cd_tasks := TComms # cd_tasks c1\<rparr>])"
  by (simp add: place_kernel_tasks_def prependTask_def on_core_def kMultiCore_def kMaxTasksPerCore_def Let_def)

text \<open>A build that succeeds with the given layout, and what is built can run: each core can be initialised and then
  ticked at any times.\<close>

definition builds :: "'u user \<Rightarrow> Cfg \<Rightarrow> 'u build \<Rightarrow> (tref list \<times> CoreDispatchMode) list \<times> tref list \<times> nat \<Rightarrow> bool" where
  "builds U cfg bs l \<longleftrightarrow> (\<exists>b' s'. build U cfg bs = Some (BuildOk, (b', s')) \<and> sy_kernelState s' = CONFIGURED \<and> layout s' = l \<and>
     (\<forall>c < kCoreCount cfg. \<exists>s1. System_init U cfg c s' = Some s1 \<and> (\<forall>nows. \<exists>s2. System_ticks U cfg c nows s1 = Some s2)))"

text \<open>The form in which a project uses it: the cores that \<^verbatim>\<open>main()\<close> has filled are given.\<close>

lemma build_layout:
  assumes s: "\<not> sy_built s" "m_app b" "m_stream b" "sy_kernelState s = UNCONFIGURED"
    and "sy_bgRoundRobin s = 0" "sy_cores s = filled" "length filled = kCoreCount cfg" "0 < CfgMaxLineLen cfg"
    and "\<forall>c \<in> set filled. length (cd_tasks c) + 2 \<le> kMaxTasksPerCore"
    and "\<forall>r \<in> set (concat (map cd_tasks filled) @ ring). \<exists>n. r = TUser n \<and> (\<forall>now p. task_tick (user_task U n) now p \<noteq> None)"
    and "sy_backgroundTasks s = ring" "length ring < CfgMaxBackgroundTasks cfg"
    and placed: "sy_cores (place_kernel_tasks cfg s) = placed"
    and "map (\<lambda>c. c\<lparr>cd_tasks := sort_key (effectivePriority U cfg) (cd_tasks c)\<rparr>) placed = cores"
    and "list_ex isActive cores" "\<not> list_ex (\<lambda>c. list_ex (period_too_short U cfg) (cd_tasks c)) cores"
    and "distinct (concat (map cd_tasks cores))" "validateCrunch_loop U cfg 0 cores = BuildOk"
    and "\<And>n p. validateDependencies (user_task U n) p"
    and l: "l = (map (\<lambda>c. (cd_tasks c, cd_mode c)) cores, ring @ [TDiags],
      if kMultiCore cfg then last_active placed (kCoreCount cfg) else 0)"
  shows "builds U cfg (b, s) l"
proof -
  have "length (sy_backgroundTasks s) < CfgMaxBackgroundTasks cfg" using assms(11,12) by simp
  from build_succeeds [OF s this, of U cores] obtain s' where b:
      "build U cfg (b, s) = Some (BuildOk, (b, s'))" "sy_kernelState s' = CONFIGURED" "sy_cores s' = cores"
      "sy_backgroundTasks s' = ring @ [TDiags]"
      "sy_backgroundCoreId s' = (if kMultiCore cfg then last_active placed (kCoreCount cfg) else 0)"
    using assms(11,14-19) placed by auto
  have "\<exists>s1. System_init U cfg c s' = Some s1 \<and> (\<forall>nows. \<exists>s2. System_ticks U cfg c nows s1 = Some s2)"
    if c: "c < kCoreCount cfg" for c
  proof -
    have "tickable U cfg c s'" using build_Ok_tickable [OF b(1) s(2) c] assms(5-11) by simp
    then obtain s1 where "System_init U cfg c s' = Some s1" "tickable U cfg c s1"
      using System_init_tickable [OF _ c] by blast
    then show ?thesis using System_ticks_tickable [OF _ c] by blast
  qed
  then show ?thesis using b by (auto simp: builds_def layout_def l)
qed

abbreviation flat_core :: "tref list \<Rightarrow> CoreData" where
  "flat_core ts \<equiv> \<lparr>cd_tasks = ts, cd_mode = FLAT_LOOP, cd_crunchTask = None\<rparr>"

lemmas project_simps = task_defs check_defs kMultiCore_def builder_defs project_cfgs

lemma heartbeat_build:
  assumes "heartbeat_setup H long_bits forever tcpPort h = Some (U, bs)"
  shows "builds U (HeartbeatConfig long_bits) bs ([([TControl, TComms, TUser 0], FLAT_LOOP)], [TDiags], 0)"
proof -
  obtain st b s where bs: "bs = (b, s)" "U = heartbeat_user H st"
    "\<not> sy_built s" "m_app b" "m_stream b" "sy_kernelState s = UNCONFIGURED" "sy_bgRoundRobin s = 0"
    "sy_cores s = [flat_core [TUser 0]]" "sy_backgroundTasks s = []"
    using assms by (cases "select_stream H tcpPort h")
      (auto simp: heartbeat_setup_def Let_def builder_defs project_cfgs split: if_splits prod.splits)
  show ?thesis
    unfolding bs(1)
    by (rule build_layout [OF bs(3-8) _ _ _ _ bs(9) _ place_single [OF bs(8)] refl])
      (simp_all add: bs(2) heartbeat_user_def heartbeat_task_def project_simps)
qed

lemma multirate_build:
  assumes "multirate_setup H long_bits forever tcpPort h = Some (U, bs)"
  shows "builds U (MultirateConfig long_bits) bs ([([TControl, TComms, TUser 0, TUser 1], FLAT_LOOP)], [TUser 2, TDiags], 0)"
proof -
  obtain st b s where bs: "bs = (b, s)" "U = multirate_user H st"
    "\<not> sy_built s" "m_app b" "m_stream b" "sy_kernelState s = UNCONFIGURED" "sy_bgRoundRobin s = 0"
    "sy_cores s = [flat_core [TUser 0, TUser 1]]" "sy_backgroundTasks s = [TUser 2]"
    using assms by (cases "select_stream H tcpPort h")
      (auto simp: multirate_setup_def Let_def builder_defs project_cfgs split: if_splits prod.splits)
  show ?thesis
    unfolding bs(1)
    by (rule build_layout [OF bs(3-8) _ _ _ _ bs(9) _ place_single [OF bs(8)] refl])
      (simp_all add: bs(2) multirate_user_def fast_task_def slow_task_def idle_task_def project_simps)
qed

lemma sensorpoll_build:
  assumes "sensorpoll_setup H long_bits forever tcpPort h = Some (U, bs)"
  shows "builds U (SensorPollConfig long_bits) bs ([([TControl, TComms, TUser 0], FLAT_LOOP)], [TUser 1, TDiags], 0)"
proof -
  obtain st b s where bs: "bs = (b, s)" "U = sensorpoll_user H st"
    "\<not> sy_built s" "m_app b" "m_stream b" "sy_kernelState s = UNCONFIGURED" "sy_bgRoundRobin s = 0"
    "sy_cores s = [flat_core [TUser 0]]" "sy_backgroundTasks s = [TUser 1]"
    using assms by (cases "select_stream H tcpPort h")
      (auto simp: sensorpoll_setup_def Let_def builder_defs project_cfgs split: if_splits prod.splits)
  show ?thesis
    unfolding bs(1)
    by (rule build_layout [OF bs(3-8) _ _ _ _ bs(9) _ place_single [OF bs(8)] refl])
      (simp_all add: bs(2) sensorpoll_user_def adc_task_def sensorlog_task_def project_simps)
qed

lemma pingpong_build:
  assumes "pingpong_setup H long_bits forever tcpPort h = Some (U, bs)"
  shows "builds U (PingPongConfig long_bits) bs ([([TControl, TUser 0], FLAT_LOOP), ([TComms, TUser 1], FLAT_LOOP)], [TDiags], 1)"
proof -
  obtain st b s where bs: "bs = (b, s)" "U = pingpong_user H st"
    "\<not> sy_built s" "m_app b" "m_stream b" "sy_kernelState s = UNCONFIGURED" "sy_bgRoundRobin s = 0"
    "sy_cores s = [flat_core [TUser 0], flat_core [TUser 1]]" "sy_backgroundTasks s = []"
    using assms by (cases "select_stream H tcpPort h")
      (auto simp: pingpong_setup_def Let_def builder_defs project_cfgs split: if_splits prod.splits)
  show ?thesis
    unfolding bs(1)
    by (rule build_layout [OF bs(3-8) _ _ _ _ bs(9) _ place_dual [OF bs(8)] refl])
      (simp_all add: bs(2) pingpong_user_def pingpong_task_def project_simps)
qed

lemma lifecycle_build:
  assumes "lifecycle_setup H state long_bits forever tcpPort h = Some (U, bs)"
  shows "builds U (LifecycleConfig long_bits) bs ([([TControl, TUser 0], FLAT_LOOP), ([TComms, TUser 1], FLAT_LOOP)], [TDiags], 1)"
proof -
  obtain st b s where bs: "bs = (b, s)" "U = lifecycle_user H state st"
    "\<not> sy_built s" "m_app b" "m_stream b" "sy_kernelState s = UNCONFIGURED" "sy_bgRoundRobin s = 0"
    "sy_cores s = [flat_core [TUser 0], flat_core [TUser 1]]" "sy_backgroundTasks s = []"
    using assms by (cases "select_stream H tcpPort h")
      (auto simp: lifecycle_setup_def Let_def builder_defs project_cfgs split: if_splits prod.splits)
  show ?thesis
    unfolding bs(1)
    by (rule build_layout [OF bs(3-8) _ _ _ _ bs(9) _ place_dual [OF bs(8)] refl])
      (simp_all add: bs(2) lifecycle_user_def lifecycle_task_def project_simps)
qed

lemma crunchloop_build:
  assumes "crunchloop_setup H long_bits forever h = (U, bs)"
  shows "builds U (CrunchLoopConfig long_bits) bs ([([TControl, TComms], FLAT_LOOP), ([], CRUNCH)], [TDiags], 1)"
proof -
  let ?bs = "snd (crunchloop_setup H long_bits forever h)"
  have U: "bs = (fst ?bs, snd ?bs)" "U = crunchloop_user H"
    using assms by (simp_all add: crunchloop_setup_def Let_def)
  have s: "\<not> sy_built (snd ?bs)" "m_app (fst ?bs)" "m_stream (fst ?bs)" "sy_kernelState (snd ?bs) = UNCONFIGURED"
    "sy_backgroundTasks (snd ?bs) = []" "sy_bgRoundRobin (snd ?bs) = 0"
    "sy_cores (snd ?bs) = [flat_core [], \<lparr>cd_tasks = [], cd_mode = CRUNCH, cd_crunchTask = Some 0\<rparr>]"
    by (simp_all add: crunchloop_setup_def Let_def builder_defs project_cfgs)
  show ?thesis
    unfolding U(1)
    by (rule build_layout [OF s(1-4,6,7) _ _ _ _ s(5) _ place_dual [OF s(7)] refl])
      (simp_all add: U(2) crunchloop_user_def servo_task_def project_simps)
qed

lemma template_build:
  assumes "template_setup long_bits connected w = (U, bs)"
  shows "builds U (MyProjectConfig long_bits) bs ([([TControl, TComms], FLAT_LOOP)], [TDiags], 0)"
proof -
  let ?bs = "snd (template_setup long_bits connected w)"
  have U: "bs = (fst ?bs, snd ?bs)" "U = template_user connected"
    using assms by (simp_all add: template_setup_def Let_def)
  have s: "\<not> sy_built (snd ?bs)" "m_app (fst ?bs)" "m_stream (fst ?bs)" "sy_kernelState (snd ?bs) = UNCONFIGURED"
    "sy_backgroundTasks (snd ?bs) = []" "sy_bgRoundRobin (snd ?bs) = 0" "sy_cores (snd ?bs) = [flat_core []]"
    by (simp_all add: template_setup_def Let_def builder_defs project_cfgs)
  show ?thesis
    unfolding U(1)
    by (rule build_layout [OF s(1-4,6,7) _ _ _ _ s(5) _ place_single [OF s(7)] refl])
      (simp_all add: U(2) template_user_def project_simps)
qed


section \<open>Targets and encoder states of the crunch loop\<close>

definition next_angle :: "f32 \<Rightarrow> f32" where
  "next_angle a = (let a = f32_add a 0x3F000000 in if f32_less 0x43340000 a then f32_zero False else a)"

text \<open>The two cores' operations on the shared buffers, in any order.\<close>

datatype crunchloop_op = AppTick | Crunch micros | CrunchAbort

definition crunchloop_step :: "crunchloop_op \<Rightarrow> crunchloop \<Rightarrow> crunchloop" where
  "crunchloop_step op c = (case op of AppTick \<Rightarrow> CrunchLoopApp_tick c | Crunch now \<Rightarrow> servo_crunch now c
     | CrunchAbort \<Rightarrow> servo_onCrunchAbort c)"

definition app_ticks :: "crunchloop_op list \<Rightarrow> nat" where
  "app_ticks ops = length (filter (\<lambda>op. op = AppTick) ops)"

definition crunches :: "crunchloop_op list \<Rightarrow> micros list" where
  "crunches ops = List.map_filter (\<lambda>op. case op of Crunch now \<Rightarrow> Some now | _ \<Rightarrow> None) ops"

definition crunchloop_inv :: "crunchloop_op list \<Rightarrow> crunchloop \<Rightarrow> bool" where
  "crunchloop_inv ops c \<longleftrightarrow>
     cl_angle c = (next_angle ^^ app_ticks ops) (f32_zero False) \<and> cl_seq c = of_nat (app_ticks ops) \<and>
     db_read (cl_targetBuf c) = [(next_angle ^^ app_ticks ops) (f32_zero False), of_nat (app_ticks ops)] \<and>
     cl_iterationCount c = of_nat (length (crunches ops)) \<and>
     db_read (cl_stateBuf c) = [ucast (cl_iterationCount c), if crunches ops = [] then 0 else last (crunches ops)] \<and>
     cl_aborted c = (CrunchAbort \<in> set ops)"

lemma db_read_write: "db_read (db_write v b) = v"
  by (simp add: db_read_def db_write_def db_slot_def db_set_slot_def Let_def)

lemma crunchloop_inv_step: "crunchloop_inv ops c \<Longrightarrow> crunchloop_inv (ops @ [op]) (crunchloop_step op c)"
  by (cases op) (auto simp: crunchloop_inv_def crunchloop_step_def CrunchLoopApp_tick_def servo_crunch_def servo_onCrunchAbort_def
      app_ticks_def crunches_def map_filter_def next_angle_def db_read_write Let_def)

lemma next_angle_bounded: "\<not> f32_less 0x43340000 ((next_angle ^^ n) (f32_zero False))"
proof (cases n)
  case 0
  then show ?thesis by (simp add: f32_zero_def) code_simp
next
  case (Suc m)
  have "\<not> f32_less 0x43340000 (f32_zero False)" by code_simp
  then show ?thesis by (simp add: Suc next_angle_def Let_def)
qed

text \<open>In every order of application ticks, crunch iterations and aborts, the crunch task always reads a target whose
  angle belongs to its sequence number, which counts the ticks so far, and whose angle never exceeds 180 degrees; the
  encoder state that is published counts the iterations and carries the time of the last one.\<close>

theorem crunchloop_buffers:
  "\<exists>angle. db_read (cl_targetBuf (fold crunchloop_step ops crunchloop_start)) = [angle, of_nat (app_ticks ops)] \<and>
     angle = (next_angle ^^ app_ticks ops) (f32_zero False) \<and> \<not> f32_less 0x43340000 angle \<and>
     db_read (cl_stateBuf (fold crunchloop_step ops crunchloop_start)) =
       [ucast (of_nat (length (crunches ops)) :: u32), if crunches ops = [] then 0 else last (crunches ops)] \<and>
     cl_aborted (fold crunchloop_step ops crunchloop_start) = (CrunchAbort \<in> set ops)"
proof -
  have "crunchloop_inv ops (fold crunchloop_step ops crunchloop_start)"
  proof (induction ops rule: rev_induct)
    case Nil
    show ?case
      by (simp add: crunchloop_inv_def crunchloop_start_def app_ticks_def crunches_def map_filter_def db_init_def db_read_def db_slot_def)
  next
    case (snoc op ops)
    then show ?case using crunchloop_inv_step by simp
  qed
  then show ?thesis using next_angle_bounded by (simp add: crunchloop_inv_def)
qed

lemma setup_none:
  "heartbeat_setup H long_bits forever tcpPort h = None \<longleftrightarrow> select_stream H tcpPort h = None"
  "pingpong_setup H long_bits forever tcpPort h = None \<longleftrightarrow> select_stream H tcpPort h = None"
  "multirate_setup H long_bits forever tcpPort h = None \<longleftrightarrow> select_stream H tcpPort h = None"
  "sensorpoll_setup H long_bits forever tcpPort h = None \<longleftrightarrow> select_stream H tcpPort h = None"
  "lifecycle_setup H state long_bits forever tcpPort h = None \<longleftrightarrow> select_stream H tcpPort h = None"
  by (cases "select_stream H tcpPort h"; auto simp: heartbeat_setup_def pingpong_setup_def multirate_setup_def
      sensorpoll_setup_def lifecycle_setup_def Let_def split: prod.splits)+

text \<open>C16: The example projects and the template build on every host. Each program exits early exactly when its TCP server cannot start;
  otherwise \<^verbatim>\<open>build()\<close> succeeds, leaves the kernel CONFIGURED and every core ready to be initialised and
  ticked at any times without a fault, and the tasks run in the given order on the given
  cores: control first on core 0, the communications task second or first on core 1, the project's tasks in rate order
  behind them, the diagnostics task last in the ring. In the crunch project the ring is assigned to the crunch core.\<close>

theorem example_projects_build:
  "(case heartbeat_setup H long_bits forever tcpPort h of None \<Rightarrow> select_stream H tcpPort h = None
    | Some (U, bs) \<Rightarrow> builds U (HeartbeatConfig long_bits) bs ([([TControl, TComms, TUser 0], FLAT_LOOP)], [TDiags], 0)) \<and>
   (case multirate_setup H long_bits forever tcpPort h of None \<Rightarrow> select_stream H tcpPort h = None
    | Some (U, bs) \<Rightarrow> builds U (MultirateConfig long_bits) bs
        ([([TControl, TComms, TUser 0, TUser 1], FLAT_LOOP)], [TUser 2, TDiags], 0)) \<and>
   (case sensorpoll_setup H long_bits forever tcpPort h of None \<Rightarrow> select_stream H tcpPort h = None
    | Some (U, bs) \<Rightarrow> builds U (SensorPollConfig long_bits) bs ([([TControl, TComms, TUser 0], FLAT_LOOP)], [TUser 1, TDiags], 0)) \<and>
   (case pingpong_setup H long_bits forever tcpPort h of None \<Rightarrow> select_stream H tcpPort h = None
    | Some (U, bs) \<Rightarrow> builds U (PingPongConfig long_bits) bs
        ([([TControl, TUser 0], FLAT_LOOP), ([TComms, TUser 1], FLAT_LOOP)], [TDiags], 1)) \<and>
   (case lifecycle_setup H state long_bits forever tcpPort h of None \<Rightarrow> select_stream H tcpPort h = None
    | Some (U, bs) \<Rightarrow> builds U (LifecycleConfig long_bits) bs
        ([([TControl, TUser 0], FLAT_LOOP), ([TComms, TUser 1], FLAT_LOOP)], [TDiags], 1)) \<and>
   (case crunchloop_setup H long_bits forever h of
      (U, bs) \<Rightarrow> builds U (CrunchLoopConfig long_bits) bs ([([TControl, TComms], FLAT_LOOP), ([], CRUNCH)], [TDiags], 1)) \<and>
   (case template_setup long_bits connected w of
      (U, bs) \<Rightarrow> builds U (MyProjectConfig long_bits) bs ([([TControl, TComms], FLAT_LOOP)], [TDiags], 0))"
  by (intro conjI)
    (auto simp: setup_none simp del: One_nat_def split: option.split prod.split intro!: heartbeat_build multirate_build sensorpoll_build
      pingpong_build lifecycle_build crunchloop_build template_build)

end
