(* ===== verification/KernelRace.thy ===== *)
theory KernelRace
  imports KernelRun
begin

text \<open>
  The kernel state of \<^verbatim>\<open>kernel/System.h\<close> under cores that execute \<^verbatim>\<open>run()\<close> at the same time. \<^verbatim>\<open>s_kernelState\<close> is a plain
  variable that every core tests and stores: \<^verbatim>\<open>init()\<close> and the end of \<^verbatim>\<open>run()\<close> test it, call \<^verbatim>\<open>transitionTo\<close>, which tests it
  again in its \<^verbatim>\<open>switch\<close>, and then stores the target. Here each of these accesses is one step of one core, and the steps
  of the cores interleave in any order (the accesses themselves are taken as indivisible). The startup barrier, whose
  result \<^verbatim>\<open>run()\<close> ignores, may let a core through at any time. Everything else the cores do is left out.

  The theorem shows that the system nevertheless ends in SHUTDOWN; the two lemmas after it show what the missing
  atomicity costs on the way.
\<close>

section \<open>The accesses of one core\<close>

text \<open>Where a core is: before the test in \<^verbatim>\<open>init()\<close> for CONFIGURED, before the \<^verbatim>\<open>switch\<close> and the store of
  \<^verbatim>\<open>transitionTo(INITIALIZING)\<close>; the same for RUNNING; at the head of its loop; and the same for SHUTTING_DOWN and SHUTDOWN.\<close>

datatype core_pc = InitTest | InitSwitch | InitStore | RunTest | RunSwitch | RunStore | Loop
  | DownTest | DownSwitch | DownStore | EndTest | EndSwitch | EndStore | Done

record race =
  rc_state :: KernelState
  rc_pcs :: "core_pc list"
  rc_log :: "KernelState list"

definition goto_pc :: "nat \<Rightarrow> core_pc \<Rightarrow> race \<Rightarrow> race" where
  "goto_pc c pc r = r\<lparr>rc_pcs := (rc_pcs r)[c := pc]\<rparr>"

text \<open>The \<^verbatim>\<open>switch\<close> of \<^verbatim>\<open>transitionTo(target)\<close>: on to the store, or INVALID_STATE is logged.\<close>

definition race_switch :: "nat \<Rightarrow> KernelState \<Rightarrow> core_pc \<Rightarrow> core_pc \<Rightarrow> race \<Rightarrow> race" where
  "race_switch c target store after r =
     (if valid_transition (rc_state r) target then goto_pc c store r
      else goto_pc c after (r\<lparr>rc_log := rc_log r @ [target]\<rparr>))"

definition race_store :: "nat \<Rightarrow> KernelState \<Rightarrow> core_pc \<Rightarrow> race \<Rightarrow> race" where
  "race_store c target after r = goto_pc c after (r\<lparr>rc_state := target\<rparr>)"

definition race_test :: "nat \<Rightarrow> KernelState \<Rightarrow> core_pc \<Rightarrow> core_pc \<Rightarrow> race \<Rightarrow> race" where
  "race_test c st yes no r = goto_pc c (if rc_state r = st then yes else no) r"

text \<open>The next access of core \<open>c\<close>; \<open>stop\<close> tells whether a stop condition fires should it be at the head of its loop.\<close>

definition core_step :: "bool \<Rightarrow> nat \<Rightarrow> race \<Rightarrow> race" where
  "core_step stop c r =
     (case rc_pcs r ! c of
        InitTest \<Rightarrow> race_test c CONFIGURED InitSwitch RunTest r
      | InitSwitch \<Rightarrow> race_switch c INITIALIZING InitStore RunTest r
      | InitStore \<Rightarrow> race_store c INITIALIZING RunTest r
      | RunTest \<Rightarrow> race_test c INITIALIZING RunSwitch Loop r
      | RunSwitch \<Rightarrow> race_switch c RUNNING RunStore Loop r
      | RunStore \<Rightarrow> race_store c RUNNING Loop r
      | Loop \<Rightarrow> goto_pc c (if isActiveState (rc_state r) \<and> \<not> stop then Loop else DownTest) r
      | DownTest \<Rightarrow> race_test c RUNNING DownSwitch EndTest r
      | DownSwitch \<Rightarrow> race_switch c SHUTTING_DOWN DownStore EndTest r
      | DownStore \<Rightarrow> race_store c SHUTTING_DOWN EndTest r
      | EndTest \<Rightarrow> race_test c SHUTTING_DOWN EndSwitch Done r
      | EndSwitch \<Rightarrow> race_switch c SHUTDOWN EndStore Done r
      | EndStore \<Rightarrow> race_store c SHUTDOWN Done r
      | Done \<Rightarrow> r)"

inductive race_step :: "race \<Rightarrow> race \<Rightarrow> bool" where
  core: "c < length (rc_pcs r) \<Longrightarrow> race_step r (core_step stop c r)"

text \<open>All cores enter \<^verbatim>\<open>run()\<close> on a built system, or on one that has been initialised, where a core that is
  initialised itself goes straight to its loop.\<close>

definition race_start :: "race \<Rightarrow> bool" where
  "race_start r \<longleftrightarrow> rc_pcs r \<noteq> [] \<and>
     (rc_state r = CONFIGURED \<and> set (rc_pcs r) = {InitTest} \<or> rc_state r = RUNNING \<and> set (rc_pcs r) \<subseteq> {InitTest, Loop})"

section \<open>Someone is always in charge\<close>

text \<open>The core that stored the kernel state last is still on its way to the test that will take the state further.\<close>

definition in_charge :: "KernelState \<Rightarrow> core_pc \<Rightarrow> bool" where
  "in_charge st pc \<longleftrightarrow>
     st = CONFIGURED \<and> pc \<in> {InitTest, InitSwitch, InitStore} \<or>
     st = INITIALIZING \<and> pc \<in> {RunTest, RunSwitch, RunStore} \<or>
     st = RUNNING \<and> pc \<in> {InitTest, RunTest, Loop, DownTest, DownSwitch, DownStore} \<or>
     st = SHUTTING_DOWN \<and> pc \<in> {EndTest, EndSwitch, EndStore}"

definition race_inv :: "race \<Rightarrow> bool" where
  "race_inv r \<longleftrightarrow> rc_state r = SHUTDOWN \<or> (\<exists>c < length (rc_pcs r). in_charge (rc_state r) (rc_pcs r ! c))"

lemmas race_defs = race_switch_def race_store_def race_test_def goto_pc_def

lemma length_core_step [simp]: "length (rc_pcs (core_step stop c r)) = length (rc_pcs r)"
  by (simp add: core_step_def race_defs split: core_pc.split)

lemma core_step_other: "c' \<noteq> c \<Longrightarrow> rc_pcs (core_step stop c r) ! c' = rc_pcs r ! c'"
  by (simp add: core_step_def race_defs split: core_pc.split)

text \<open>A step either stores nothing, or puts the core in charge or shuts the system down.\<close>

lemma core_step_state:
  assumes "c < length (rc_pcs r)"
  shows "rc_state (core_step stop c r) = rc_state r \<or> rc_state (core_step stop c r) = SHUTDOWN \<or>
     in_charge (rc_state (core_step stop c r)) (rc_pcs (core_step stop c r) ! c)"
  using assms by (cases "rc_pcs r ! c") (simp_all add: core_step_def race_defs in_charge_def)

lemma core_step_in_charge:
  assumes "c < length (rc_pcs r)" "in_charge (rc_state r) (rc_pcs r ! c)"
  shows "rc_state (core_step stop c r) = SHUTDOWN \<or> in_charge (rc_state (core_step stop c r)) (rc_pcs (core_step stop c r) ! c)"
  using assms by (cases "rc_pcs r ! c"; cases "rc_state r") (simp_all add: core_step_def race_defs in_charge_def isActiveState_def)

lemma race_inv_step:
  assumes "race_inv r" "c < length (rc_pcs r)"
  shows "race_inv (core_step stop c r)"
proof (cases "rc_state (core_step stop c r) = rc_state r")
  case same: True
  show ?thesis
  proof (cases "rc_state r = SHUTDOWN")
    case False
    then obtain d where d: "d < length (rc_pcs r)" "in_charge (rc_state r) (rc_pcs r ! d)"
      using assms(1) by (auto simp: race_inv_def)
    then show ?thesis
      using core_step_in_charge [OF assms(2), of stop] core_step_other [of d c stop r] same assms(2)
      by (cases "d = c") (auto simp: race_inv_def)
  qed (simp add: race_inv_def same)
next
  case False
  then show ?thesis using core_step_state [OF assms(2), of stop] assms(2) by (auto simp: race_inv_def)
qed

lemma race_inv_start: "race_start r \<Longrightarrow> race_inv r"
  by (cases "rc_pcs r") (auto simp: race_start_def race_inv_def in_charge_def)

lemma race_inv_steps:
  assumes "race_step\<^sup>*\<^sup>* r r'" "race_inv r"
  shows "race_inv r'" and "length (rc_pcs r') = length (rc_pcs r)"
  using assms by (induction rule: rtranclp_induct) (auto elim!: race_step.cases intro: race_inv_step)

lemma race_inv_done: "race_inv r \<Longrightarrow> set (rc_pcs r) \<subseteq> {Done} \<Longrightarrow> rc_state r = SHUTDOWN"
  using nth_mem by (fastforce simp: race_inv_def in_charge_def)

section \<open>Every core gets through\<close>

text \<open>How many accesses a core has left once it does not stay in its loop.\<close>

fun accesses_left :: "core_pc \<Rightarrow> nat" where
  "accesses_left InitTest = 13" | "accesses_left InitSwitch = 12" | "accesses_left InitStore = 11"
| "accesses_left RunTest = 10" | "accesses_left RunSwitch = 9" | "accesses_left RunStore = 8" | "accesses_left Loop = 7"
| "accesses_left DownTest = 6" | "accesses_left DownSwitch = 5" | "accesses_left DownStore = 4"
| "accesses_left EndTest = 3" | "accesses_left EndSwitch = 2" | "accesses_left EndStore = 1" | "accesses_left Done = 0"

lemma accesses_left_step:
  assumes "c < length (rc_pcs r)"
  shows "accesses_left (rc_pcs (core_step True c r) ! c) \<le> accesses_left (rc_pcs r ! c) - 1"
  using assms by (cases "rc_pcs r ! c") (simp_all add: core_step_def race_defs)

lemma accesses_left_bound: "accesses_left pc \<le> 13" and accesses_left_0: "accesses_left pc = 0 \<longleftrightarrow> pc = Done"
  by (cases pc; simp)+

definition schedule_cores :: "nat list \<Rightarrow> race \<Rightarrow> race" where
  "schedule_cores cs r = fold (core_step True) cs r"

lemma schedule_cores_left:
  assumes "set cs \<subseteq> {..<length (rc_pcs r)}" "c < length (rc_pcs r)"
  shows "accesses_left (rc_pcs (schedule_cores cs r) ! c) \<le> accesses_left (rc_pcs r ! c) - count_list cs c \<and>
     length (rc_pcs (schedule_cores cs r)) = length (rc_pcs r) \<and> (race_inv r \<longrightarrow> race_inv (schedule_cores cs r))"
  using assms
proof (induction cs arbitrary: r)
  case (Cons d cs)
  let ?r = "core_step True d r"
  have d: "d < length (rc_pcs r)" using Cons.prems(1) by simp
  have left: "accesses_left (rc_pcs ?r ! c) \<le> accesses_left (rc_pcs r ! c) - (if d = c then 1 else 0)"
    using accesses_left_step [OF d] core_step_other [of c d True r] by (cases "d = c") auto
  have ih: "accesses_left (rc_pcs (schedule_cores cs ?r) ! c) \<le> accesses_left (rc_pcs ?r ! c) - count_list cs c"
    "length (rc_pcs (schedule_cores cs ?r)) = length (rc_pcs r)" "race_inv ?r \<longrightarrow> race_inv (schedule_cores cs ?r)"
    using Cons.IH [of ?r] Cons.prems by simp_all
  moreover have "schedule_cores (d # cs) r = schedule_cores cs ?r" by (simp add: schedule_cores_def)
  ultimately show ?case using left race_inv_step [OF _ d, of True] by (auto split: if_splits)
qed (simp add: schedule_cores_def)

text \<open>Alone on the system, the accesses of the last phase do what \<open>run_shutdown\<close> does in one step.\<close>

lemma run_shutdown_alone:
  assumes "rc_state r = sy_kernelState s" "rc_pcs r = [DownTest]" "sy_kernelState s \<in> {CONFIGURED, RUNNING, SHUTTING_DOWN, SHUTDOWN}"
  shows "rc_state (schedule_cores (replicate 6 0) r) = sy_kernelState (run_shutdown s) \<and>
     rc_pcs (schedule_cores (replicate 6 0) r) = [Done]"
proof -
  obtain log where r: "r = \<lparr>rc_state = sy_kernelState s, rc_pcs = [DownTest], rc_log = log\<rparr>"
    using assms(1,2) by (cases r) simp
  have six: "replicate 6 (0 :: nat) = [0, 0, 0, 0, 0, 0]" by (simp add: numeral_eq_Suc)
  from assms(3) show ?thesis
    unfolding r six schedule_cores_def run_shutdown_state
    by (elim insertE) (simp_all add: core_step_def race_defs)
qed

section \<open>Properties\<close>

text \<open>C13: However many cores execute \<^verbatim>\<open>run()\<close> at the same time and however their tests and stores of the kernel state
  interleave, the system ends in SHUTDOWN. From any state that can be reached this way, once the stop condition
  holds, every schedule that gives each core thirteen more accesses ends with all cores through \<^verbatim>\<open>run()\<close> and
  the kernel in SHUTDOWN; and whenever all cores are through, the kernel is in SHUTDOWN, because the core that
  made the last store of another state still comes to the test that takes it further.\<close>

theorem concurrent_run_ends_in_shutdown:
  assumes "race_step\<^sup>*\<^sup>* r0 r" "race_start r0"
    and "set cs \<subseteq> {..<length (rc_pcs r0)}" "\<forall>c < length (rc_pcs r0). 13 \<le> count_list cs c"
  shows "rc_pcs (schedule_cores cs r) = replicate (length (rc_pcs r0)) Done \<and> rc_state (schedule_cores cs r) = SHUTDOWN \<and>
     (if set (rc_pcs r) \<subseteq> {Done} then rc_state r = SHUTDOWN else True)"
proof -
  note inv = race_inv_steps [OF assms(1) race_inv_start [OF assms(2)]]
  let ?r = "schedule_cores cs r"
  have "0 < length (rc_pcs r)" using assms(2) inv(2) by (simp add: race_start_def)
  from schedule_cores_left [of cs r 0] this have len: "length (rc_pcs ?r) = length (rc_pcs r0)" and inv': "race_inv ?r"
    using assms(3) inv by simp_all
  have pc: "rc_pcs ?r ! c = Done" if "c < length (rc_pcs r0)" for c
  proof -
    have "accesses_left (rc_pcs ?r ! c) \<le> accesses_left (rc_pcs r ! c) - count_list cs c"
      using schedule_cores_left [of cs r c] assms(3) that inv(2) by simp
    moreover have "13 \<le> count_list cs c" using assms(4) that by blast
    ultimately have "accesses_left (rc_pcs ?r ! c) = 0" using accesses_left_bound [of "rc_pcs r ! c"] by simp
    then show ?thesis by (simp only: accesses_left_0)
  qed
  then have all: "rc_pcs ?r = replicate (length (rc_pcs r0)) Done" using len by (auto intro: nth_equalityI)
  then have "set (rc_pcs ?r) \<subseteq> {Done}" by (auto simp: in_set_conv_nth)
  from race_inv_done [OF inv' this] race_inv_done [OF inv(1)] all show ?thesis by simp
qed

text \<open>Two cores, taking turns.\<close>

theorem concurrent_run_ends_in_shutdown_witness:
  "rc_pcs (schedule_cores (concat (replicate 13 [0, 1])) \<lparr>rc_state = CONFIGURED, rc_pcs = [InitTest, InitTest], rc_log = []\<rparr>)
     = [Done, Done] \<and>
   rc_state (schedule_cores (concat (replicate 13 [0, 1])) \<lparr>rc_state = CONFIGURED, rc_pcs = [InitTest, InitTest], rc_log = []\<rparr>)
     = SHUTDOWN"
proof -
  let ?r = "\<lparr>rc_state = CONFIGURED, rc_pcs = [InitTest, InitTest], rc_log = []\<rparr>"
  have "race_start ?r" by (simp add: race_start_def)
  moreover have "set (concat (replicate 13 [0, 1])) \<subseteq> {..<length (rc_pcs ?r)}" by auto
  moreover have "\<forall>c < length (rc_pcs ?r). 13 \<le> count_list (concat (replicate 13 [0, 1])) c"
    by (simp add: numeral_eq_Suc less_Suc_eq)
  ultimately show ?thesis
    using concurrent_run_ends_in_shutdown [OF rtranclp.rtrancl_refl, of ?r "concat (replicate 13 [0, 1])"]
    by (simp add: numeral_2_eq_2)
qed

text \<open>What the missing atomicity costs. SHUTDOWN is not final: a core that has passed the \<^verbatim>\<open>switch\<close> in RUNNING stores
  SHUTTING_DOWN after the other one stored SHUTDOWN.\<close>

lemma shutdown_reopened:
  fixes start defines "start \<equiv> \<lparr>rc_state = RUNNING, rc_pcs = [Loop, Loop], rc_log = []\<rparr>"
  shows "rc_state (schedule_cores ([1, 1, 1] @ replicate 7 0) start) = SHUTDOWN \<and>
     rc_state (schedule_cores ([1, 1, 1] @ replicate 7 0 @ [1]) start) = SHUTTING_DOWN"
  unfolding start_def by code_simp

text \<open>A late store of INITIALIZING takes a running system back, and a core at the head of its loop then leaves it
  although no stop condition holds. (A core gets there before the other one has initialised when its startup barrier
  times out.)\<close>

lemma late_init_ends_loop:
  fixes start defines "start \<equiv> \<lparr>rc_state = CONFIGURED, rc_pcs = [InitTest, InitTest], rc_log = []\<rparr>"
  shows "rc_state (fold (core_step False) [1, 1, 0, 0, 0, 0, 0, 0, 0] start) = RUNNING \<and>
     rc_pcs (fold (core_step False) [1, 1, 0, 0, 0, 0, 0, 0, 0] start) = [Loop, InitStore] \<and>
     rc_state (fold (core_step False) [1, 1, 0, 0, 0, 0, 0, 0, 0, 1] start) = INITIALIZING \<and>
     rc_pcs (fold (core_step False) [1, 1, 0, 0, 0, 0, 0, 0, 0, 1, 0, 0, 0] start) = [Done, RunTest]"
  unfolding start_def by code_simp

end
