(* ===== verification/Spec2Isabelle.thy ===== *)
theory Spec2Isabelle
  imports CobsCodec Frame LockFreeQueue Metrics Sync Loggers CommandParser Protocol CommsTask Pipeline SafetyChain Formatter
    Interlock ControlUtils TaskStorage ExampleBuilds KernelRace
begin

text \<open>
  SputterOS is a heap-free kernel for embedded control: a cooperative scheduler per core, three kernel tasks, a command channel over a
  byte stream, and the measurement and logging around them. This development models the library under \<^verbatim>\<open>include/sputteros\<close> and \<^verbatim>\<open>src\<close>, and the
  programs under \<^verbatim>\<open>exampleProjects\<close> and \<^verbatim>\<open>templates\<close> as its clients; file names below are relative to the first two directories
  unless they name one of the others.

  \<^bold>\<open>How the parts work together.\<close> An application registers tasks per core with \<^verbatim>\<open>SystemBuilder\<close> and calls
  \<^verbatim>\<open>build()\<close>, which adds the control, communications and diagnostics task, sorts, validates and configures the singleton \<^verbatim>\<open>System<Cfg>\<close>. Each core
  calls \<^verbatim>\<open>run()\<close>: it initialises its tasks, waits at the startup barrier and then ticks until a stop condition fires, or runs a crunch task in a tight loop. A tick dispatches
  the due tasks in priority order and then serves the ring of background tasks from the time that is left. The communications task reads the
  stream through the CLI, in text mode line by line, after a handshake in COBS frames, and pushes commands into a lock-free queue; the
  control task evaluates the safety monitors, drains the queue into the application and ticks it; the diagnostics task reports
  overruns and drains the telemetry log.

  \<^bold>\<open>Theories.\<close>
  \<^item> \<open>SputPrelude\<close>: bounds-checked buffers (\<open>wr\<close>, \<open>rd\<close>), monadic folds, words and lists, the collections shared by the proofs.
    \<open>Float32\<close>, \<open>CNumbers\<close>: what the sources use of binary32 arithmetic and of \<^verbatim>\<open>strtol\<close> and \<^verbatim>\<open>strtof\<close>.
  \<^item> \<open>Crc16\<close>, \<open>CobsCodec\<close>, \<open>Frame\<close> (\<^verbatim>\<open>comms/protocol/Crc16.h\<close>, \<^verbatim>\<open>CobsCodec.h\<close>, \<^verbatim>\<open>FrameEncoder.h\<close>, \<^verbatim>\<open>FrameDecoder.h\<close>): the bitwise checksum detects
    every change of one byte or of two adjacent bytes, COBS and frames round-trip, the decoder accepts exactly the well-formed frames, rejects
    a transmitted frame whose data bytes were changed in this way (a changed code byte of the stuffing can go unnoticed, as an example shows),
    finds the next frame again after garbage and stays inside its buffers.
  \<^item> \<open>LockFreeQueue\<close> (\<^verbatim>\<open>osal/sync/LockFreeQueue.h\<close>, \<^verbatim>\<open>AtomicDoubleBuffer.h\<close>): the queue refines a bounded list (locale \<open>bounded_queue\<close>) for every
    sequence of calls, and keeps its order when one producer and one consumer interleave load by load and store by store.
  \<^item> \<open>Metrics\<close> (\<^verbatim>\<open>kernel/metrics\<close>, \<^verbatim>\<open>osal/SputterTime.h\<close>, \<^verbatim>\<open>utils/QueueDepthMonitor.h\<close>): windowed statistics equal those of the recorded durations; the deadline
    tracker advances to the next grid point. \<open>Sync\<close> (\<^verbatim>\<open>osal/sync/MultiCoreSync.h\<close>, \<^verbatim>\<open>WatchdogSync.h\<close>): heartbeats, and barriers that
    load the states of the other cores one by one while these change.
  \<^item> \<open>StringBuilder\<close>, \<open>Loggers\<close>, \<open>Formatter\<close> (\<^verbatim>\<open>utils/logging\<close>, \<^verbatim>\<open>utils/PerformanceFormatter.h\<close>): what the appends leave in their buffers; the logs keep the last 32
    entries (locale \<open>overwrite_log\<close>); the formatted snapshot is its text cut off at the buffer.
  \<^item> \<open>Config\<close> (\<^verbatim>\<open>ConfigTraits.h\<close>), \<open>CommandParser\<close> (\<^verbatim>\<open>logic/CommandParser.h\<close>), \<open>Protocol\<close> (\<^verbatim>\<open>comms/protocol/ResponseSerializer.h\<close>, \<^verbatim>\<open>ProtocolRouter.h\<close>), \<open>Cli\<close>
    (\<^verbatim>\<open>comms/CLI.h\<close>), \<open>CommsTask\<close> (\<^verbatim>\<open>kernel/tasks/ScheduledCommsTask.h\<close>): command lines (any decimal number, signed or not, with or without fraction) and payloads round-trip, and what one tick of the communications task answers.
  \<^item> \<open>KernelPub\<close>, \<open>KernelTasks\<close>, \<open>KernelSystem\<close>, \<open>KernelTick\<close>, \<open>KernelRun\<close> (\<^verbatim>\<open>kernel/System.h\<close>, \<^verbatim>\<open>kernel/CrunchDispatcher.h\<close>, the other two kernel
    tasks): \<open>pub\<close> is what user code reaches of the kernel, \<open>System\<close> the private members around it. Dispatch order,
    the dispatches each period lets through, the background ring, termination of \<open>run\<close>, exactly when and how a crunch loop is left, and its count of
    overruns in a row.
  \<^item> \<open>KernelRace\<close> (\<^verbatim>\<open>kernel/System.h\<close>): the tests and stores of the plain variable \<^verbatim>\<open>s_kernelState\<close> by cores that execute \<^verbatim>\<open>run()\<close> at the
    same time, one access per step. The system ends in SHUTDOWN in every interleaving; two examples show what the missing atomicity allows on the way.
  \<^item> \<open>SystemBuilder\<close> (\<^verbatim>\<open>builder/SystemBuilder.h\<close>), \<open>BuildGuarantees\<close>: what a successful build guarantees, that what is built can be ticked, and three ways in which a build goes wrong.
    \<open>SystemLifecycle\<close>: the states that calls of builder, application and cores reach when they do not overlap, their invariant, and the one call that
    can break it, a build whose ring is full.
  \<^item> \<open>Pipeline\<close>: a command from the wire to the application and a metrics request to its answer, over the communications task, the queue, the control task and the snapshot.
    \<open>SafetyChain\<close>: an unsafe verdict on one core leaves the crunch loop of another and ends in SHUTDOWN.
  \<^item> \<open>Interlock\<close> (\<^verbatim>\<open>logic/InterlockManager.h\<close>, \<^verbatim>\<open>src/logic/InterlockManager.cpp\<close>, the device registry of \<^verbatim>\<open>osal/tasks/ITask.h\<close>): a hard fault latches; both
    registries meet the locale \<open>pointer_registry\<close>. \<open>ControlUtils\<close> (\<^verbatim>\<open>utils/PIDController.h\<close>, \<^verbatim>\<open>utils/NonBlockingStopwatch.h\<close>): outputs stay in their
    limits; expiry of the stopwatch. \<open>TaskStorage\<close> (\<^verbatim>\<open>osal/tasks/ITask.h\<close>, \<^verbatim>\<open>utils/InPlaceStorage.h\<close>): the blocking \<^verbatim>\<open>run()\<close> of a task never
    returns; every object in a storage is destroyed exactly once.
  \<^item> \<open>HostTasks\<close>, \<open>SensorPoll\<close>, \<open>PingPong\<close>, \<open>TcpStream\<close> (\<^verbatim>\<open>exampleProjects/*/include\<close>, \<^verbatim>\<open>exampleProjects/common\<close>): the tasks of the example projects. Those
    that limit their own rate meet the locale \<open>paced_task\<close>: they work at most once per period and log one numbered line
    each time. The two cores of the ping-pong exchange are cut at their shared accesses, and every interleaving keeps the token
    exclusive and prints the documented lines; a converter that hangs never blocks its task; the receive ring of the TCP stream refines a
    bounded list.
  \<^item> \<open>ExampleProjects\<close>, \<open>ExampleBuilds\<close> (\<^verbatim>\<open>exampleProjects/*/config\<close>, \<^verbatim>\<open>exampleProjects/*/src/main_osNative.cpp\<close>, \<^verbatim>\<open>templates\<close>): configuration and wiring of each program on an arbitrary
    host, sufficient conditions for \<^verbatim>\<open>build()\<close>, and that every program builds with the stated layout and can run.

  \<^bold>\<open>Correspondence.\<close> A class is a record with its members, an operation a function on it, a virtual function a component of a
  record of functions. User code (tasks, application, monitors, stream, clock, mutex, stop conditions) is the
  parameter \<open>U\<close> and acts on \<open>pub\<close> only, because the rest of \<^verbatim>\<open>System\<close> is private. What other cores do to the shared state during
  a loop is a parameter too (\<open>env\<close>, \<open>peers\<close>, \<open>startup\<close>, \<open>shutdown\<close>). Integers keep their width wherever the
  code can make them wrap; sizes that are bounded by array lengths are natural numbers. A list stands for an array with its count member.
  \<open>None\<close> is a store or load outside an array, a failed assertion, a null dereference or a call that does not return.

  \<^bold>\<open>Loops.\<close> Loops over arrays recurse over what is left of the array. Loops that may not end (the tick of the communications task, \<^verbatim>\<open>advance\<close>, the crunch loop, the flat loop of
  \<^verbatim>\<open>run\<close>, the loop of \<^verbatim>\<open>ITask::run\<close>) are partial functions into \<open>option\<close>; the theorems prove that they return, or, for the last, that it does not. The barriers count down their timeout, which
  bounds their recursion. No definition uses fuel.

  \<^bold>\<open>Assumptions.\<close> Each atomic access is one step and steps interleave (the release and acquire orders of the sources are the reason this
  is enough); an operation of \<^verbatim>\<open>System\<close> is one step of the histories in \<open>SystemLifecycle\<close>, while other cores act during the loops of \<open>KernelRun\<close> and
  \<open>SafetyChain\<close> through \<open>env\<close> only, at the heads of the loops, and \<open>KernelRace\<close> takes the kernel state apart access by access; the list of tasks of a core does not change during a tick; floating-point operations round one by one; the conversion of a
  float outside the range of its integer type, undefined in the language, is taken as wrapping.

  \<^bold>\<open>Not modelled.\<close> Type traits and the assertion macro (\<^verbatim>\<open>utils/TypeTraits.h\<close>, \<^verbatim>\<open>utils/PlatformAssert.h\<close>), pure interfaces without code, umbrella headers, the operating system behind
  the example programs (a parameter: clock, standard output, mutex, sockets, threads) and the summaries they print at the end, tests and tools.
  \<^verbatim>\<open>onSuspend\<close>, \<^verbatim>\<open>onResume\<close> and \<^verbatim>\<open>isIoPending\<close> are called by no code of the library.
\<close>

end
